(* ===== verification/Prelude.thy ===== *)
theory Prelude
  imports Main "HOL-Library.Word"
begin

text \<open>
  Shared vocabulary of the development: the machine types of the C++ sources, byte buffers,
  the conversion between the bytes of a \<open>std::string\<close> and HOL characters, the word lemmas
  behind the little- and big-endian codecs, and the generic event machine (a step function,
  its run over a list of events) with the locales that state what it means for a handler to
  keep an invariant and to emit only outputs of a given shape.
\<close>

unbundle bit_operations_syntax

section \<open>Machine types\<close>

type_synonym u8 = "8 word"
type_synonym u16 = "16 word"
type_synonym u32 = "32 word"
type_synonym u64 = "64 word"
type_synonym bytes = "u8 list"

text \<open>A session object is named by a number; \<open>shared_ptr\<close> and \<open>weak_ptr\<close> hold such names.\<close>

type_synonym sid = nat

named_theorems wire_len "lengths of the packets and buffers the encoders build"
named_theorems wire_simps "unfolding rules of the byte encoders"

section \<open>Characters and bytes\<close>

text \<open>\<open>static_cast<uint8_t>(c)\<close> and back: a \<open>std::string\<close> is a sequence of bytes.\<close>

definition u8_of_char :: "char \<Rightarrow> u8" where
  "u8_of_char c = of_char c"

definition char_of_u8 :: "u8 \<Rightarrow> char" where
  "char_of_u8 b = char_of (unat b)"

definition bytes_of_string :: "string \<Rightarrow> bytes" where
  "bytes_of_string s = map u8_of_char s"

definition string_of_bytes :: "bytes \<Rightarrow> string" where
  "string_of_bytes bs = map char_of_u8 bs"

lemma unat_u8_of_char [simp]: "unat (u8_of_char c) = of_char c"
proof -
  have "(of_char c :: nat) < 256" by simp
  moreover have "u8_of_char c = of_nat (of_char c)"
    by (simp only: u8_of_char_def of_nat_of_char)
  ultimately show ?thesis by (simp add: unat_of_nat)
qed

lemma char_of_u8_of_char [simp]: "char_of_u8 (u8_of_char c) = c"
  by (simp add: char_of_u8_def)

lemma u8_of_char_of_u8 [simp]: "u8_of_char (char_of_u8 b) = b"
proof -
  have "unat b < 256" using unsigned_less[of b] by simp
  then have "unat (u8_of_char (char_of_u8 b)) = unat b"
    by (simp add: char_of_u8_def)
  then show ?thesis by (simp only: word_unat_eq_iff)
qed

lemma string_of_bytes_of_string [simp]: "string_of_bytes (bytes_of_string s) = s"
  by (simp add: string_of_bytes_def bytes_of_string_def comp_def)

lemma bytes_of_string_of_bytes [simp]: "bytes_of_string (string_of_bytes bs) = bs"
  by (simp add: string_of_bytes_def bytes_of_string_def comp_def)

lemma length_bytes_of_string [wire_len]: "length (bytes_of_string s) = length s"
  by (simp add: bytes_of_string_def)

lemma length_string_of_bytes [wire_len]: "length (string_of_bytes bs) = length bs"
  by (simp add: string_of_bytes_def)

lemma bytes_of_string_inject: "bytes_of_string s = bytes_of_string t \<longleftrightarrow> s = t"
  by (metis string_of_bytes_of_string)

section \<open>Word lemmas of the codecs\<close>

text \<open>
  The C++ masks with \<open>0xFF\<close> before every narrowing cast; a mask of eight ones is
  \<open>take_bit 8\<close>, whose bits the simplifier knows. \<open>word_bits\<close> is the bundle with which
  equations between shifted and recombined words are decided bit by bit.
\<close>

lemma word_and_255: "(v :: 'a::len word) AND 255 = take_bit 8 v"
proof -
  have "(255 :: 'a word) = mask 8" by (simp add: mask_eq_exp_minus_1)
  then show ?thesis by (simp only: take_bit_eq_mask)
qed

lemma word_and_1023: "(v :: 'a::len word) AND 1023 = take_bit 10 v"
proof -
  have "(1023 :: 'a word) = mask 10" by (simp add: mask_eq_exp_minus_1)
  then show ?thesis by (simp only: take_bit_eq_mask)
qed

lemma word_and_15: "(v :: 'a::len word) AND 15 = take_bit 4 v"
proof -
  have "(15 :: 'a word) = mask 4" by (simp add: mask_eq_exp_minus_1)
  then show ?thesis by (simp only: take_bit_eq_mask)
qed

lemmas word_masks = word_and_255 word_and_1023 word_and_15

lemmas word_bits = bit_simps word_masks bit_take_bit_iff

lemma u16_le_join:
  "(ucast (ucast (v AND 255 :: u16) :: u8) :: u16) OR
   push_bit 8 (ucast (ucast (drop_bit 8 v) :: u8)) = v"
  by (rule bit_word_eqI) (auto simp: word_bits)

section \<open>Little-endian 16-bit lengths as numbers\<close>

lemma of_nat_u16_inverse [simp]: "n < 65536 \<Longrightarrow> unat (of_nat n :: u16) = n"
  by (simp add: unat_of_nat)

lemma u16_unat_less [simp]: "unat (v :: u16) < 65536"
  using unsigned_less[of v] by simp

lemma u8_unat_less [simp]: "unat (v :: u8) < 256"
  using unsigned_less[of v] by simp

lemma u32_unat_less [simp]: "unat (v :: u32) < 4294967296"
  using unsigned_less[of v] by simp

section \<open>Slices of a buffer\<close>

text \<open>The \<open>n\<close> bytes from offset \<open>k\<close>: how a receiver reads a field of a fixed layout.\<close>

definition slice :: "nat \<Rightarrow> nat \<Rightarrow> 'a list \<Rightarrow> 'a list" where
  "slice k n p = take n (drop k p)"

lemma slice_Cons [simp]: "slice (Suc k) n (x # p) = slice k n p"
  by (simp add: slice_def)

lemma slice_0 [simp]: "slice 0 n p = take n p"
  by (simp add: slice_def)

lemma slice_append: "length a = j \<Longrightarrow> j \<le> k \<Longrightarrow> slice k n (a @ p) = slice (k - j) n p"
  by (simp add: slice_def)

lemma slice_hit: "length a = k \<Longrightarrow> length b = n \<Longrightarrow> slice k n (a @ b @ p) = b"
  by (simp add: slice_def)

section \<open>Event machines\<close>

text \<open>
  Every stateful object of the program (bridge, flow, session, server) is a step function
  from a state and an event to the next state and the outputs the call produced; an
  execution is a run over a list of events, which collects the outputs in order.
\<close>

fun run :: "('s \<Rightarrow> 'e \<Rightarrow> 's \<times> 'o list) \<Rightarrow> 's \<Rightarrow> 'e list \<Rightarrow> 's \<times> 'o list" where
  "run step s [] = (s, [])"
| "run step s (e # es) =
     (let (s', os) = step s e; (s'', os') = run step s' es in (s'', os @ os'))"

lemma run_fst_Cons [simp]: "fst (run step s (e # es)) = fst (run step (fst (step s e)) es)"
  by (simp add: split_beta Let_def)

lemma run_snd_Cons [simp]:
  "snd (run step s (e # es)) = snd (step s e) @ snd (run step (fst (step s e)) es)"
  by (simp add: split_beta Let_def)

lemma run_append:
  "run step s (es @ es') =
     (fst (run step (fst (run step s es)) es'),
      snd (run step s es) @ snd (run step (fst (run step s es)) es'))"
  by (induction es arbitrary: s) (auto simp: prod_eq_iff simp del: run.simps(2))

declare run.simps(2) [simp del]

lemma sum_list_of_bool: "(sum_list (map (\<lambda>x. of_bool (P x)) xs) :: nat) = length (filter P xs)"
  by (induction xs) simp_all

lemma sum_list_of_bool_times: "sum_list (map (\<lambda>x. of_bool (P x) * c) xs) = length (filter P xs) * (c :: nat)"
  by (induction xs) (simp_all add: algebra_simps)

text \<open>
  A machine that keeps an invariant: the law is about one step, its client lemma about every
  run.
\<close>

locale invariant_machine =
  fixes step :: "'s \<Rightarrow> 'e \<Rightarrow> 's \<times> 'o list"
    and inv :: "'s \<Rightarrow> bool"
  assumes inv_step: "inv s \<Longrightarrow> inv (fst (step s e))"
begin

lemma inv_run: "inv s \<Longrightarrow> inv (fst (run step s es))"
  by (induction es arbitrary: s) (simp_all add: inv_step)

end

text \<open>A machine whose outputs all satisfy a contract as long as its invariant holds.\<close>

locale output_machine = invariant_machine step inv
  for step :: "'s \<Rightarrow> 'e \<Rightarrow> 's \<times> 'o list" and inv :: "'s \<Rightarrow> bool" +
  fixes good :: "'o \<Rightarrow> bool"
  assumes out_step: "inv s \<Longrightarrow> out \<in> set (snd (step s e)) \<Longrightarrow> good out"
begin

lemma out_run: "inv s \<Longrightarrow> out \<in> set (snd (run step s es)) \<Longrightarrow> good out"
  by (induction es arbitrary: s) (auto intro: inv_step out_step)

end

text \<open>A machine whose invariant speaks of the state and of all it has put out so far.\<close>

locale history_machine =
  fixes step :: "'s \<Rightarrow> 'e \<Rightarrow> 's \<times> 'o list" and inv :: "'s \<Rightarrow> 'o list \<Rightarrow> bool"
  assumes history_step: "inv s os \<Longrightarrow> inv (fst (step s e)) (os @ snd (step s e))"
begin

lemma history_run: "inv s os \<Longrightarrow> inv (fst (run step s es)) (os @ snd (run step s es))"
proof (induction es arbitrary: s os)
  case (Cons e es)
  show ?case using Cons.IH [OF history_step [OF Cons.prems, of e]] by simp
qed simp

end

text \<open>
  A machine with a budget: what one step spends is paid by the credit of the state or by
  the income of the event, so over a run the outputs are bounded by the income.
\<close>

locale budget_machine = invariant_machine step inv
  for step :: "'s \<Rightarrow> 'e \<Rightarrow> 's \<times> 'o list" and inv :: "'s \<Rightarrow> bool" +
  fixes cost :: "'o \<Rightarrow> nat" and credit :: "'s \<Rightarrow> nat" and income :: "'e \<Rightarrow> nat"
  assumes pay_step:
    "inv s \<Longrightarrow> sum_list (map cost (snd (step s e))) + credit (fst (step s e)) \<le> credit s + income e"
begin

lemma pay_run:
  "inv s \<Longrightarrow> sum_list (map cost (snd (run step s es))) + credit (fst (run step s es))
     \<le> credit s + sum_list (map income es)"
proof (induction es arbitrary: s)
  case Nil
  then show ?case by simp
next
  case (Cons e es)
  have "inv (fst (step s e))" using Cons.prems by (rule inv_step)
  then have "sum_list (map cost (snd (run step (fst (step s e)) es)))
      + credit (fst (run step (fst (step s e)) es))
      \<le> credit (fst (step s e)) + sum_list (map income es)"
    by (rule Cons.IH)
  moreover have "sum_list (map cost (snd (step s e))) + credit (fst (step s e))
      \<le> credit s + income e"
    using Cons.prems by (rule pay_step)
  ultimately show ?case by simp
qed

end

text \<open>
  A machine that passes things on in order: what it was given is what it has put out followed by
  what it still holds.
\<close>

locale fifo_machine = invariant_machine step inv
  for step :: "'s \<Rightarrow> 'e \<Rightarrow> 's \<times> 'o list" and inv :: "'s \<Rightarrow> bool" +
  fixes held :: "'s \<Rightarrow> 'p list" and given :: "'e \<Rightarrow> 'p list" and put_out :: "'o \<Rightarrow> 'p list"
  assumes fifo_step:
    "inv s \<Longrightarrow> concat (map put_out (snd (step s e))) @ held (fst (step s e)) = held s @ given e"
begin

lemma fifo_run:
  "inv s \<Longrightarrow> concat (map put_out (snd (run step s es))) @ held (fst (run step s es))
     = held s @ concat (map given es)"
proof (induction es arbitrary: s)
  case (Cons e es)
  then show ?case
    using fifo_step [OF Cons.prems, of e] inv_step [OF Cons.prems, of e]
    by (simp flip: append_assoc) (simp add: append_assoc)
qed simp

end

text \<open>
  One machine simulates another: each of its steps, with the outputs so far, is matched by some steps
  of the abstract machine.
\<close>

locale simulation_machine =
  fixes step :: "'s \<Rightarrow> 'e \<Rightarrow> 's \<times> 'o list" and abstract :: "'t \<Rightarrow> 'f \<Rightarrow> 't \<times> 'p list"
    and related :: "'s \<Rightarrow> 'o list \<Rightarrow> 't \<Rightarrow> 'p list \<Rightarrow> bool"
  assumes sim_step: "related s os t ps \<Longrightarrow>
    \<exists>fs. related (fst (step s e)) (os @ snd (step s e)) (fst (run abstract t fs)) (ps @ snd (run abstract t fs))"
begin

lemma sim_run:
  "related s os t ps \<Longrightarrow>
    \<exists>fs. related (fst (run step s es)) (os @ snd (run step s es)) (fst (run abstract t fs)) (ps @ snd (run abstract t fs))"
proof (induction es arbitrary: s os t ps)
  case Nil
  then show ?case by (intro exI [of _ "[]"]) simp
next
  case (Cons e es)
  obtain fs where "related (fst (step s e)) (os @ snd (step s e)) (fst (run abstract t fs)) (ps @ snd (run abstract t fs))"
    using sim_step [OF Cons.prems, of e] by blast
  from Cons.IH [OF this] obtain gs where
    "related (fst (run step (fst (step s e)) es)) ((os @ snd (step s e)) @ snd (run step (fst (step s e)) es))
      (fst (run abstract (fst (run abstract t fs)) gs))
      ((ps @ snd (run abstract t fs)) @ snd (run abstract (fst (run abstract t fs)) gs))" by blast
  then show ?case by (intro exI [of _ "fs @ gs"]) (simp add: run_append)
qed

end

end
