(* ===== verification/Opcodes.thy ===== *)
theory Opcodes
  imports Prelude
begin

text \<open>
  The packet identifiers of \<open>interface/ragnarok/protocol/Opcodes.hpp\<close>: three enumerations and
  the cast \<open>opcode_u16\<close> to the 16-bit value on the wire. The enumerations are instances of the
  library's finite-type class, so a statement over all packets is decided by evaluation.
\<close>

section \<open>The enumerations\<close>

datatype server_packet =
    SyncAccount | MapLoaded | AcceptEnter | Warp | AttackRange | StatsInfo | HpSpUpdate
     | LoadConfirm | LookTo | SystemChat | ActorInfoSelf | ActorNameSelf | Preamble082D
     | Preamble09A0 | CharListBlock | RedirectShort | RedirectFull | SecureLoginKey | LoginToken
     | AccountServerInfo | AccountServerInfoV2

datatype client_packet =
    SecureLoginRequest | SecureLoginRequestAlt | LoginTokenRequest | LoginTokenRequestAlt
     | MasterLoginClassic | MasterLogin01DD | MasterLogin01FA | MasterLogin0AAC
     | MasterLogin0B04 | MasterLogin0987 | MasterLogin0A76 | MasterLogin2085 | MasterLogin2B0D
     | MasterLogin1DD5 | MasterLogin0825 | CharSelectServer | CharSelectServer0275
     | CharSelectServer0825 | CharSelectServer0B1D | CharSelectServer1DD6 | CharSelectServer2B0F
     | CharSelectServer0101 | CharListRequest | CharSelect | CharSelect08A9 | CharSelect0B19
     | CharSelect1DD7 | CharSelect2B10 | MapEnter2844 | MapEnter0436 | MapEnter0072
     | MapEnter009B | Keepalive007D | GuardPing0360 | Ping08C9

datatype gg_packet =
    Challenge | Response | ResponseLegacy

fun server_opcode :: "server_packet \<Rightarrow> u16" where
  "server_opcode SyncAccount = 0x0283"
| "server_opcode MapLoaded = 0x02EB"
| "server_opcode AcceptEnter = 0x0073"
| "server_opcode Warp = 0x0091"
| "server_opcode AttackRange = 0x013A"
| "server_opcode StatsInfo = 0x00BD"
| "server_opcode HpSpUpdate = 0x00B0"
| "server_opcode LoadConfirm = 0x0B1B"
| "server_opcode LookTo = 0x009C"
| "server_opcode SystemChat = 0x009A"
| "server_opcode ActorInfoSelf = 0x0A30"
| "server_opcode ActorNameSelf = 0x0095"
| "server_opcode Preamble082D = 0x082D"
| "server_opcode Preamble09A0 = 0x09A0"
| "server_opcode CharListBlock = 0x099D"
| "server_opcode RedirectShort = 0x0071"
| "server_opcode RedirectFull = 0x0AC5"
| "server_opcode SecureLoginKey = 0x01DC"
| "server_opcode LoginToken = 0x0AE3"
| "server_opcode AccountServerInfo = 0x0069"
| "server_opcode AccountServerInfoV2 = 0x0AC4"

fun client_opcode :: "client_packet \<Rightarrow> u16" where
  "client_opcode SecureLoginRequest = 0x01DB"
| "client_opcode SecureLoginRequestAlt = 0x0204"
| "client_opcode LoginTokenRequest = 0x0ACF"
| "client_opcode LoginTokenRequestAlt = 0x0C26"
| "client_opcode MasterLoginClassic = 0x0064"
| "client_opcode MasterLogin01DD = 0x01DD"
| "client_opcode MasterLogin01FA = 0x01FA"
| "client_opcode MasterLogin0AAC = 0x0AAC"
| "client_opcode MasterLogin0B04 = 0x0B04"
| "client_opcode MasterLogin0987 = 0x0987"
| "client_opcode MasterLogin0A76 = 0x0A76"
| "client_opcode MasterLogin2085 = 0x2085"
| "client_opcode MasterLogin2B0D = 0x2B0D"
| "client_opcode MasterLogin1DD5 = 0x1DD5"
| "client_opcode MasterLogin0825 = 0x0825"
| "client_opcode CharSelectServer = 0x0065"
| "client_opcode CharSelectServer0275 = 0x0275"
| "client_opcode CharSelectServer0825 = 0x0825"
| "client_opcode CharSelectServer0B1D = 0x0B1D"
| "client_opcode CharSelectServer1DD6 = 0x1DD6"
| "client_opcode CharSelectServer2B0F = 0x2B0F"
| "client_opcode CharSelectServer0101 = 0x0101"
| "client_opcode CharListRequest = 0x09A1"
| "client_opcode CharSelect = 0x0066"
| "client_opcode CharSelect08A9 = 0x08A9"
| "client_opcode CharSelect0B19 = 0x0B19"
| "client_opcode CharSelect1DD7 = 0x1DD7"
| "client_opcode CharSelect2B10 = 0x2B10"
| "client_opcode MapEnter2844 = 0x2844"
| "client_opcode MapEnter0436 = 0x0436"
| "client_opcode MapEnter0072 = 0x0072"
| "client_opcode MapEnter009B = 0x009B"
| "client_opcode Keepalive007D = 0x007D"
| "client_opcode GuardPing0360 = 0x0360"
| "client_opcode Ping08C9 = 0x08C9"

fun gg_opcode :: "gg_packet \<Rightarrow> u16" where
  "gg_opcode Challenge = 0x09CF"
| "gg_opcode Response = 0x09D0"
| "gg_opcode ResponseLegacy = 0x099F"

section \<open>Finite types\<close>

instantiation server_packet :: enum
begin

definition enum_server_packet :: "server_packet list" where
  "enum_server_packet =
   [SyncAccount, MapLoaded, AcceptEnter, Warp, AttackRange, StatsInfo, HpSpUpdate, LoadConfirm
    , LookTo, SystemChat, ActorInfoSelf, ActorNameSelf, Preamble082D, Preamble09A0
    , CharListBlock, RedirectShort, RedirectFull, SecureLoginKey, LoginToken, AccountServerInfo
    , AccountServerInfoV2]"

definition enum_all_server_packet :: "(server_packet \<Rightarrow> bool) \<Rightarrow> bool" where
  "enum_all_server_packet P = list_all P enum_class.enum"

definition enum_ex_server_packet :: "(server_packet \<Rightarrow> bool) \<Rightarrow> bool" where
  "enum_ex_server_packet P = list_ex P enum_class.enum"

instance
proof
  have all: "x \<in> set enum_class.enum" for x :: server_packet
    by (cases x) (simp_all add: enum_server_packet_def)
  then show "(UNIV :: server_packet set) = set enum_class.enum" by auto
  show "distinct (enum_class.enum :: server_packet list)" by (simp add: enum_server_packet_def)
  show "enum_class.enum_all P = Ball UNIV P" for P :: "server_packet \<Rightarrow> bool"
    using all by (auto simp: enum_all_server_packet_def list_all_iff)
  show "enum_class.enum_ex P = Bex UNIV P" for P :: "server_packet \<Rightarrow> bool"
    using all by (auto simp: enum_ex_server_packet_def list_ex_iff)
qed

end

instantiation client_packet :: enum
begin

definition enum_client_packet :: "client_packet list" where
  "enum_client_packet =
   [SecureLoginRequest, SecureLoginRequestAlt, LoginTokenRequest, LoginTokenRequestAlt
    , MasterLoginClassic, MasterLogin01DD, MasterLogin01FA, MasterLogin0AAC, MasterLogin0B04
    , MasterLogin0987, MasterLogin0A76, MasterLogin2085, MasterLogin2B0D, MasterLogin1DD5
    , MasterLogin0825, CharSelectServer, CharSelectServer0275, CharSelectServer0825
    , CharSelectServer0B1D, CharSelectServer1DD6, CharSelectServer2B0F, CharSelectServer0101
    , CharListRequest, CharSelect, CharSelect08A9, CharSelect0B19, CharSelect1DD7
    , CharSelect2B10, MapEnter2844, MapEnter0436, MapEnter0072, MapEnter009B, Keepalive007D
    , GuardPing0360, Ping08C9]"

definition enum_all_client_packet :: "(client_packet \<Rightarrow> bool) \<Rightarrow> bool" where
  "enum_all_client_packet P = list_all P enum_class.enum"

definition enum_ex_client_packet :: "(client_packet \<Rightarrow> bool) \<Rightarrow> bool" where
  "enum_ex_client_packet P = list_ex P enum_class.enum"

instance
proof
  have all: "x \<in> set enum_class.enum" for x :: client_packet
    by (cases x) (simp_all add: enum_client_packet_def)
  then show "(UNIV :: client_packet set) = set enum_class.enum" by auto
  show "distinct (enum_class.enum :: client_packet list)" by (simp add: enum_client_packet_def)
  show "enum_class.enum_all P = Ball UNIV P" for P :: "client_packet \<Rightarrow> bool"
    using all by (auto simp: enum_all_client_packet_def list_all_iff)
  show "enum_class.enum_ex P = Bex UNIV P" for P :: "client_packet \<Rightarrow> bool"
    using all by (auto simp: enum_ex_client_packet_def list_ex_iff)
qed

end

instantiation gg_packet :: enum
begin

definition enum_gg_packet :: "gg_packet list" where
  "enum_gg_packet =
   [Challenge, Response, ResponseLegacy]"

definition enum_all_gg_packet :: "(gg_packet \<Rightarrow> bool) \<Rightarrow> bool" where
  "enum_all_gg_packet P = list_all P enum_class.enum"

definition enum_ex_gg_packet :: "(gg_packet \<Rightarrow> bool) \<Rightarrow> bool" where
  "enum_ex_gg_packet P = list_ex P enum_class.enum"

instance
proof
  have all: "x \<in> set enum_class.enum" for x :: gg_packet
    by (cases x) (simp_all add: enum_gg_packet_def)
  then show "(UNIV :: gg_packet set) = set enum_class.enum" by auto
  show "distinct (enum_class.enum :: gg_packet list)" by (simp add: enum_gg_packet_def)
  show "enum_class.enum_all P = Ball UNIV P" for P :: "gg_packet \<Rightarrow> bool"
    using all by (auto simp: enum_all_gg_packet_def list_all_iff)
  show "enum_class.enum_ex P = Bex UNIV P" for P :: "gg_packet \<Rightarrow> bool"
    using all by (auto simp: enum_ex_gg_packet_def list_ex_iff)
qed

end

end
