(* ===== verification/Codec.thy ===== *)
theory Codec
  imports Opcodes
begin

text \<open>
  The byte codec of the Ragnarok packets: \<open>protocol/Codec.hpp\<close> (little-endian readers and
  writers that append to a packet), \<open>protocol/Coords.hpp\<close> (the A3 packing of coordinates) and
  \<open>protocol/Ids.hpp\<close>. A \<open>Packet\<close> is a list of bytes; a writer takes the packet and returns it
  extended, as the C++ appends to the vector it is given.
\<close>

section \<open>Readers and writers\<close>

type_synonym packet = bytes

definition rd16le :: "bytes \<Rightarrow> u16" where
  "rd16le p = (ucast (p ! 0) :: u16) OR push_bit 8 (ucast (p ! 1) :: u16)"

definition put16 :: "packet \<Rightarrow> u16 \<Rightarrow> packet" where
  "put16 p v = p @ [ucast (v AND 0xFF), ucast (drop_bit 8 v)]"

definition put32 :: "packet \<Rightarrow> u32 \<Rightarrow> packet" where
  "put32 p v = foldl (\<lambda>q i. q @ [ucast (drop_bit (8 * i) v AND 0xFF)]) p [0, 1, 2, 3]"

definition putZ :: "packet \<Rightarrow> string \<Rightarrow> nat \<Rightarrow> packet" where
  "putZ p s n = foldl (\<lambda>q i. q @ [if i < length s then u8_of_char (s ! i) else 0]) p [0..<n]"

definition putFixed :: "packet \<Rightarrow> bytes \<Rightarrow> packet" where
  "putFixed p b = p @ b"

definition putCoordsA3 :: "packet \<Rightarrow> u16 \<Rightarrow> u16 \<Rightarrow> u8 \<Rightarrow> packet" where
  "putCoordsA3 p x y dir =
     (let enc = (ucast (x AND 0x03FF) :: u32)
                OR push_bit 10 (ucast (y AND 0x03FF))
                OR push_bit 20 (ucast (dir AND 0x0F))
      in p @ [ucast (enc AND 0xFF), ucast (drop_bit 8 enc AND 0xFF), ucast (drop_bit 16 enc AND 0xFF)])"

definition wr16le :: "packet \<Rightarrow> u16 \<Rightarrow> packet" where
  "wr16le out v = put16 out v"

definition wr32le :: "packet \<Rightarrow> u32 \<Rightarrow> packet" where
  "wr32le out v = put32 out v"

text \<open>
  The in-place writers use \<open>vector::at\<close>, which throws \<open>std::out_of_range\<close>: the bytes stored
  before the throw stay written, so the buffer is returned along with the outcome.
\<close>

fun at_store :: "bytes \<Rightarrow> (nat \<times> u8) list \<Rightarrow> bytes \<times> bool" where
  "at_store buf [] = (buf, True)"
| "at_store buf ((i, b) # ws) =
     (if i < length buf then at_store (buf[i := b]) ws else (buf, False))"

definition put16_at :: "bytes \<Rightarrow> nat \<Rightarrow> u16 \<Rightarrow> bytes \<times> bool" where
  "put16_at buf at v =
     at_store buf [(at + 0, ucast (v AND 0xFF)), (at + 1, ucast (drop_bit 8 v AND 0xFF))]"

definition put32_at :: "bytes \<Rightarrow> nat \<Rightarrow> u32 \<Rightarrow> bytes \<times> bool" where
  "put32_at buf at v =
     at_store buf
       [(at + 0, ucast (v AND 0xFF)), (at + 1, ucast (drop_bit 8 v AND 0xFF)),
        (at + 2, ucast (drop_bit 16 v AND 0xFF)), (at + 3, ucast (drop_bit 24 v AND 0xFF))]"

definition putZ_at :: "bytes \<Rightarrow> nat \<Rightarrow> string \<Rightarrow> nat \<Rightarrow> bytes \<times> bool" where
  "putZ_at buf at s n =
     at_store buf (map (\<lambda>i. (at + i, if i < length s then u8_of_char (s ! i) else 0)) [0..<n])"

text \<open>
  The millisecond tick: the clock value at the first call and now, truncated to 32 bits.
\<close>

definition tick_ms :: "int \<Rightarrow> int \<Rightarrow> u32" where
  "tick_ms t0 now = word_of_int (now - t0)"

section \<open>Identifiers and coordinates\<close>

definition to_le_bytes :: "u32 \<Rightarrow> bytes" where
  "to_le_bytes v =
     [ucast (v AND 0xFF), ucast (drop_bit 8 v AND 0xFF),
      ucast (drop_bit 16 v AND 0xFF), ucast (drop_bit 24 v AND 0xFF)]"

record A3 =
  a3_x :: u16
  a3_y :: u16
  a3_dir :: u8

definition decodeA3 :: "bytes \<Rightarrow> A3" where
  "decodeA3 p =
     (let enc = (ucast (p ! 0) :: u32) OR push_bit 8 (ucast (p ! 1)) OR push_bit 16 (ucast (p ! 2))
      in \<lparr>a3_x = ucast (enc AND 0x03FF),
          a3_y = ucast (drop_bit 10 enc AND 0x03FF),
          a3_dir = ucast (drop_bit 20 enc AND 0x0F)\<rparr>)"

definition clamp1023 :: "A3 \<Rightarrow> A3" where
  "clamp1023 a =
     (let r = a;
          r = (if a3_x r > 1023 then r\<lparr>a3_x := 1023\<rparr> else r);
          r = (if a3_y r > 1023 then r\<lparr>a3_y := 1023\<rparr> else r)
      in r\<lparr>a3_dir := a3_dir r AND 0x0F\<rparr>)"

section \<open>What the writers append\<close>

lemma put16_eq [wire_simps]: "put16 p v = p @ [ucast (take_bit 8 v), ucast (drop_bit 8 v)]"
  by (simp add: put16_def word_and_255)

lemma put32_eq [wire_simps]: "put32 p v = p @ to_le_bytes v"
  by (simp add: put32_def to_le_bytes_def)

lemma putZ_eq [wire_simps]:
  "putZ p s n = p @ take n (bytes_of_string s) @ replicate (n - length s) 0"
proof -
  have fold: "foldl (\<lambda>q i. q @ [f i]) p xs = p @ map f xs" for f :: "nat \<Rightarrow> u8" and xs
    by (induction xs arbitrary: p) simp_all
  have "map (\<lambda>i. if i < length s then u8_of_char (s ! i) else 0) [0..<n]
      = take n (bytes_of_string s) @ replicate (n - length s) 0"
    by (rule nth_equalityI) (auto simp: bytes_of_string_def nth_append min_def)
  then show ?thesis by (simp add: putZ_def fold)
qed

lemma putFixed_eq [wire_simps]: "putFixed p b = p @ b"
  by (simp add: putFixed_def)

lemmas [wire_simps] = wr16le_def wr32le_def

lemma length_to_le_bytes [simp, wire_len]: "length (to_le_bytes v) = 4"
  by (simp add: to_le_bytes_def)

lemma length_put16 [simp, wire_len]: "length (put16 p v) = length p + 2"
  by (simp add: put16_def)

lemma length_put32 [simp, wire_len]: "length (put32 p v) = length p + 4"
  by (simp add: put32_eq)

lemma length_putZ [simp, wire_len]: "length (putZ p s n) = length p + n"
  by (simp add: putZ_eq wire_len)

lemma length_putFixed [simp, wire_len]: "length (putFixed p b) = length p + length b"
  by (simp add: putFixed_def)

lemma length_putCoordsA3 [simp, wire_len]: "length (putCoordsA3 p x y d) = length p + 3"
  by (simp add: putCoordsA3_def Let_def)

lemma length_wr16le [simp, wire_len]: "length (wr16le p v) = length p + 2"
  by (simp add: wr16le_def)

lemma length_wr32le [simp, wire_len]: "length (wr32le p v) = length p + 4"
  by (simp add: wr32le_def)

section \<open>Round trips\<close>

lemma rd16le_pair [simp]: "rd16le (ucast (take_bit 8 v) # ucast (drop_bit 8 v) # r) = v"
  by (simp add: rd16le_def) (rule bit_word_eqI, auto simp: word_bits)

lemma rd16le_put16 [simp]: "rd16le (drop (length p) (put16 p v @ r)) = v"
  by (simp add: put16_eq)

lemma rd16le_append: "2 \<le> length p \<Longrightarrow> rd16le (p @ r) = rd16le p"
  by (cases p) (auto simp: rd16le_def nth_append)

text \<open>Reading four little-endian bytes back, as the client does.\<close>

definition rd32le :: "bytes \<Rightarrow> u32" where
  "rd32le p = (ucast (p ! 0) :: u32) OR push_bit 8 (ucast (p ! 1))
              OR push_bit 16 (ucast (p ! 2)) OR push_bit 24 (ucast (p ! 3))"

lemma rd32le_to_le_bytes [simp]: "rd32le (to_le_bytes v) = v"
proof (rule bit_word_eqI)
  fix n assume n: "n < LENGTH(32)"
  consider "n < 8" | "8 \<le> n" "n < 16" | "16 \<le> n" "n < 24" | "24 \<le> n" by linarith
  then show "bit (rd32le (to_le_bytes v)) n = bit v n"
    using n by cases (auto simp: rd32le_def to_le_bytes_def word_bits)
qed

text \<open>The 32-bit identifiers determine their four wire bytes and are determined by them.\<close>

lemma to_le_bytes_inject: "to_le_bytes v = to_le_bytes w \<longleftrightarrow> v = w"
proof
  assume eq: "to_le_bytes v = to_le_bytes w"
  show "v = w"
  proof (rule bit_word_eqI)
    fix n assume n: "n < LENGTH(32)"
    from eq have b: "bit (ucast (take_bit 8 (drop_bit k v)) :: u8) m
        = bit (ucast (take_bit 8 (drop_bit k w)) :: u8) m" if "k \<in> {0, 8, 16, 24}" for k m
      using that by (auto simp: to_le_bytes_def word_masks)
    have "n = (n div 8) * 8 + n mod 8" and "n mod 8 < 8" and "n div 8 * 8 \<in> {0, 8, 16, 24}"
      using n by auto
    with b [of "n div 8 * 8" "n mod 8"] show "bit v n = bit w n"
      by (simp add: word_bits)
  qed
qed simp

text \<open>Three little-endian bytes hold the low 24 bits of a word.\<close>

lemma le24_join:
  "(ucast (ucast (take_bit 8 e) :: u8) :: u32)
     OR push_bit 8 (ucast (ucast (take_bit 8 (drop_bit 8 e)) :: u8))
     OR push_bit 16 (ucast (ucast (take_bit 8 (drop_bit 16 e)) :: u8)) = take_bit 24 e"
  for e :: u32
proof (rule bit_word_eqI)
  fix n assume "n < LENGTH(32)"
  consider "n < 8" | "8 \<le> n" "n < 16" | "16 \<le> n" by linarith
  then show "bit ((ucast (ucast (take_bit 8 e) :: u8) :: u32)
     OR push_bit 8 (ucast (ucast (take_bit 8 (drop_bit 8 e)) :: u8))
     OR push_bit 16 (ucast (ucast (take_bit 8 (drop_bit 16 e)) :: u8))) n
     = bit (take_bit 24 e) n"
    using \<open>n < LENGTH(32)\<close> by cases (auto simp: bit_simps bit_take_bit_iff)
qed

lemma a3_fields:
  fixes x y :: u16 and d :: u8
  defines "e \<equiv> (ucast (take_bit 10 x) :: u32) OR push_bit 10 (ucast (take_bit 10 y))
                  OR push_bit 20 (ucast (take_bit 4 d))"
  shows "ucast (take_bit 10 (take_bit 24 e)) = take_bit 10 x"
    and "ucast (take_bit 10 (drop_bit 10 (take_bit 24 e))) = take_bit 10 y"
    and "ucast (take_bit 4 (drop_bit 20 (take_bit 24 e))) = take_bit 4 d"
proof -
  show "ucast (take_bit 10 (take_bit 24 e)) = take_bit 10 x"
    by (rule bit_word_eqI) (auto simp: e_def bit_simps bit_take_bit_iff)
  show "ucast (take_bit 10 (drop_bit 10 (take_bit 24 e))) = take_bit 10 y"
    by (rule bit_word_eqI) (auto simp: e_def bit_simps bit_take_bit_iff)
  show "ucast (take_bit 4 (drop_bit 20 (take_bit 24 e))) = take_bit 4 d"
    by (rule bit_word_eqI) (auto simp: e_def bit_simps bit_take_bit_iff)
qed

lemma decodeA3_le24:
  "decodeA3 (ucast (take_bit 8 e) # ucast (take_bit 8 (drop_bit 8 e))
             # ucast (take_bit 8 (drop_bit 16 e)) # r)
   = \<lparr>a3_x = ucast (take_bit 10 (take_bit 24 e)),
      a3_y = ucast (take_bit 10 (drop_bit 10 (take_bit 24 e))),
      a3_dir = ucast (take_bit 4 (drop_bit 20 (take_bit 24 e)))\<rparr>"
  for e :: u32
  unfolding decodeA3_def by (simp only: nth_Cons_0 nth_Cons_numeral One_nat_def nth_Cons_Suc
      numeral_2_eq_2 le24_join[unfolded numeral_2_eq_2] Let_def word_masks)

lemma decodeA3_putCoordsA3:
  "decodeA3 (putCoordsA3 [] x y d @ r)
   = \<lparr>a3_x = take_bit 10 x, a3_y = take_bit 10 y, a3_dir = take_bit 4 d\<rparr>"
  unfolding putCoordsA3_def Let_def word_masks append_Nil append_Cons decodeA3_le24 a3_fields ..

end
