(* ===== verification/Login_Mapper.thy ===== *)
theory Login_Mapper
  imports Codec
begin

text \<open>
  The login packets: the transfer records of \<open>dto/LoginDTO.hpp\<close> and the serializers
  \<open>to_packet\<close> of \<open>mappers/LoginMapper.hpp\<close>, statement by statement. Below them the layout of
  each packet: its exact length, its length field, and the field found at each offset.
\<close>

section \<open>Transfer records\<close>

record LoginTokenInfo =
  lt_token :: string

record AccountServerInfo =
  si_session_id :: bytes
  si_account_id :: bytes
  si_session_id2 :: bytes
  si_host_ip :: bytes
  si_host_port :: u16
  si_server_name :: string
  si_users_online :: u32
  si_is_male :: bool
  si_use_modern_format :: bool

text \<open>The C++ fields are arrays of four bytes.\<close>

definition server_info_wf :: "AccountServerInfo \<Rightarrow> bool" where
  "server_info_wf i \<longleftrightarrow>
     length (si_session_id i) = 4 \<and> length (si_account_id i) = 4 \<and>
     length (si_session_id2 i) = 4 \<and> length (si_host_ip i) = 4"

section \<open>Serializers\<close>

definition kSecureLoginKeyLength :: u16 where "kSecureLoginKeyLength = 0x0014"
definition kSecureLoginKeyZeroBytes :: nat where "kSecureLoginKeyZeroBytes = 0x10"
definition kAccountServerInfoV2Length :: nat where "kAccountServerInfoV2Length = 0x00E0"
definition kClassicSexPaddingBytes :: nat where "kClassicSexPaddingBytes = 30"

definition secure_login_key_packet :: packet where
  "secure_login_key_packet =
     (let p = put16 [] (server_opcode SecureLoginKey);
          p = put16 p kSecureLoginKeyLength
      in p @ replicate kSecureLoginKeyZeroBytes 0)"

definition login_token_packet :: "LoginTokenInfo \<Rightarrow> packet" where
  "login_token_packet info =
     (let p = put16 [] (server_opcode LoginToken);
          len = (of_nat (4 + 4 + 20 + length (lt_token info) + 1) :: u16);
          p = put16 p len;
          p = put32 p 0;
          p = putZ p ''S1000'' 20;
          p = p @ bytes_of_string (lt_token info)
      in p @ [0])"

text \<open>The modern branch of the server list, \<open>0x0AC4\<close>.\<close>

definition server_info_modern :: "AccountServerInfo \<Rightarrow> packet" where
  "server_info_modern info =
     (let p = put16 [] (server_opcode AccountServerInfoV2);
          p = put16 p (of_nat kAccountServerInfoV2Length);
          p = putFixed p (si_session_id info);
          p = putFixed p (si_account_id info);
          p = putFixed p (si_session_id2 info);
          p = p @ replicate 4 0;
          p = p @ replicate 26 0;
          p = p @ [if si_is_male info then 1 else 0];
          p = p @ replicate 17 0;
          p = putFixed p (si_host_ip info);
          p = put16 p (si_host_port info);
          name = si_server_name info;
          name = (if length name > 20 then take 20 name else name);
          p = putZ p name 20;
          p = put32 p (if si_users_online info \<noteq> 0 then si_users_online info else 100)
      in if length p < kAccountServerInfoV2Length
         then p @ replicate (kAccountServerInfoV2Length - length p) 0 else p)"

text \<open>The classic branch, \<open>0x0069\<close>, whose length field is written last.\<close>

definition server_info_classic :: "AccountServerInfo \<Rightarrow> packet" where
  "server_info_classic info =
     (let p = put16 [] (server_opcode AccountServerInfo);
          len_pos = length p;
          p = put16 p 0x0000;
          p = putFixed p (si_session_id info);
          p = putFixed p (si_account_id info);
          p = putFixed p (si_session_id2 info);
          p = p @ replicate kClassicSexPaddingBytes 0;
          p = p @ [if si_is_male info then 1 else 0];
          p = putFixed p (si_host_ip info);
          p = put16 p (si_host_port info);
          name = si_server_name info;
          name = (if length name > 20 then take 20 name else name);
          p = putZ p name 20;
          p = put32 p (if si_users_online info \<noteq> 0 then si_users_online info else 100);
          p = p @ [0x00];
          p = p @ [0x00];
          total_len = (of_nat (length p) :: u16);
          p = p[len_pos + 0 := ucast (total_len AND 0xFF)]
      in p[len_pos + 1 := ucast (drop_bit 8 total_len AND 0xFF)])"

definition server_info_packet :: "AccountServerInfo \<Rightarrow> packet" where
  "server_info_packet info =
     (if si_use_modern_format info then server_info_modern info else server_info_classic info)"

section \<open>Layouts\<close>

text \<open>
  A packet that carries its own length: bytes 2 and 3 hold the number of bytes of the whole
  packet. It is what a receiver (and the bridge's \<open>trim_to_pkt_len\<close>) relies on to cut one
  frame out of a stream.
\<close>

definition self_delimiting :: "packet \<Rightarrow> bool" where
  "self_delimiting p \<longleftrightarrow> 4 \<le> length p \<and> unat (rd16le (drop 2 p)) = length p"

lemma name_cut [simp]:
  "take 20 (bytes_of_string (if 20 < length s then take 20 s else s)) = take 20 (bytes_of_string s)"
  by (simp add: bytes_of_string_def take_map)

lemma server_info_modern_eq:
  assumes "server_info_wf i"
  shows "server_info_modern i =
    [0xC4, 0x0A, 0xE0, 0x00] @ si_session_id i @ si_account_id i @ si_session_id2 i
    @ replicate 30 0 @ [if si_is_male i then 1 else 0] @ replicate 17 0
    @ si_host_ip i @ [ucast (take_bit 8 (si_host_port i)), ucast (drop_bit 8 (si_host_port i))]
    @ take 20 (bytes_of_string (si_server_name i)) @ replicate (20 - length (si_server_name i)) 0
    @ to_le_bytes (if si_users_online i \<noteq> 0 then si_users_online i else 100)
    @ replicate 130 0"
proof -
  have pad: "replicate 4 (0::u8) @ replicate 26 0 @ r = replicate 30 0 @ r" for r
    by (simp flip: append_assoc replicate_add)
  show ?thesis using assms
    by (simp add: server_info_modern_def server_info_wf_def Let_def wire_simps wire_len
        kAccountServerInfoV2Length_def pad)
qed

lemma server_info_classic_eq:
  assumes "server_info_wf i"
  shows "server_info_classic i =
    [0x69, 0x00, 0x4F, 0x00] @ si_session_id i @ si_account_id i @ si_session_id2 i
    @ replicate 30 0 @ [if si_is_male i then 1 else 0]
    @ si_host_ip i @ [ucast (take_bit 8 (si_host_port i)), ucast (drop_bit 8 (si_host_port i))]
    @ take 20 (bytes_of_string (si_server_name i)) @ replicate (20 - length (si_server_name i)) 0
    @ to_le_bytes (if si_users_online i \<noteq> 0 then si_users_online i else 100)
    @ [0, 0]"
  using assms
  by (simp add: server_info_classic_def server_info_wf_def Let_def wire_simps wire_len
      kClassicSexPaddingBytes_def word_masks)

lemma length_server_info [wire_len]:
  "server_info_wf i \<Longrightarrow> length (server_info_modern i) = 224"
  "server_info_wf i \<Longrightarrow> length (server_info_classic i) = 79"
  by (simp_all add: server_info_modern_eq server_info_classic_eq wire_len server_info_wf_def)

lemma secure_login_key_eq: "secure_login_key_packet = [0xDC, 0x01, 0x14, 0x00] @ replicate 16 0"
  by (simp add: secure_login_key_packet_def wire_simps kSecureLoginKeyLength_def
      kSecureLoginKeyZeroBytes_def Let_def)

definition token_packet_with :: "u16 \<Rightarrow> string \<Rightarrow> packet" where
  "token_packet_with len t =
    [0xE3, 0x0A, ucast (take_bit 8 len), ucast (drop_bit 8 len), 0, 0, 0, 0]
    @ bytes_of_string ''S1000'' @ replicate 15 0 @ bytes_of_string t @ [0]"

lemma token_packet_chain:
  "putZ (put32 (put16 (put16 [] 0x0AE3) len) 0) ''S1000'' 20 @ bytes_of_string t @ [0]
   = token_packet_with len t"
  by (simp add: wire_simps token_packet_with_def bytes_of_string_def to_le_bytes_def)

lemma login_token_eq:
  "login_token_packet t = token_packet_with (of_nat (length (lt_token t) + 29)) (lt_token t)"
proof -
  have "4 + 4 + 20 + n + 1 = n + (29::nat)" for n by simp
  then show ?thesis
    by (simp only: login_token_packet_def Let_def server_opcode.simps append_assoc token_packet_chain)
qed

lemma length_token_packet_with [wire_len]: "length (token_packet_with l t) = length t + 29"
  by (simp add: token_packet_with_def wire_len)

section \<open>The client's reading of the server list\<close>

text \<open>
  The client reads the fields of the server list at fixed offsets, which differ between the two
  forms only in the gap after the sex flag. A name is a C string in a field of 20 bytes.
\<close>

definition c_string :: "bytes \<Rightarrow> string" where
  "c_string b = string_of_bytes (takeWhile (\<lambda>x. x \<noteq> 0) b)"

definition client_server_info :: "packet \<Rightarrow> AccountServerInfo" where
  "client_server_info p =
     (let modern = (rd16le p = server_opcode AccountServerInfoV2);
          k = (if modern then 64 else 47)
      in \<lparr>si_session_id = slice 4 4 p, si_account_id = slice 8 4 p, si_session_id2 = slice 12 4 p,
          si_host_ip = slice k 4 p, si_host_port = rd16le (slice (k + 4) 2 p),
          si_server_name = c_string (slice (k + 6) 20 p),
          si_users_online = rd32le (slice (k + 26) 4 p),
          si_is_male = (p ! 46 = 1), si_use_modern_format = modern\<rparr>)"

text \<open>What the two lossy fields are cut to: a name of 20 bytes, never zero users.\<close>

definition normal_server_info :: "AccountServerInfo \<Rightarrow> AccountServerInfo" where
  "normal_server_info i =
     i\<lparr>si_server_name := take 20 (si_server_name i),
       si_users_online := (if si_users_online i \<noteq> 0 then si_users_online i else 100)\<rparr>"

lemma c_string_putZ:
  assumes "CHR 0x00 \<notin> set s"
  shows "c_string (take n (bytes_of_string s) @ replicate m 0) = take n s"
proof -
  have nz: "\<forall>x \<in> set (take n (bytes_of_string s)). x \<noteq> 0"
  proof
    fix x assume "x \<in> set (take n (bytes_of_string s))"
    then have "x \<in> set (bytes_of_string s)" by (rule in_set_takeD)
    then obtain c where c: "c \<in> set s" and x: "x = u8_of_char c"
      by (auto simp: bytes_of_string_def)
    have "char_of_u8 0 = CHR 0x00" by (simp add: char_of_u8_def char_of_def)
    then show "x \<noteq> 0" using c x assms by (metis char_of_u8_of_char)
  qed
  have "takeWhile (\<lambda>x. x \<noteq> 0) (take n (bytes_of_string s) @ replicate m 0)
      = take n (bytes_of_string s)"
    using nz by (simp add: takeWhile_append2 takeWhile_replicate)
  then show ?thesis
    by (simp add: c_string_def string_of_bytes_def bytes_of_string_def take_map comp_def)
qed

text \<open>The fields of a byte string laid out as the two forms are, whatever their contents.\<close>

lemma layout_modern:
  assumes "length a = 4" "length b = 4" "length c = 4" "length ip = 4" "length nm = 20" "length us = 4"
  shows "client_server_info ([0xC4, 0x0A, 0xE0, 0x00] @ a @ b @ c @ replicate 30 0 @ [x]
      @ replicate 17 0 @ ip @ [ucast (take_bit 8 v), ucast (drop_bit 8 v)] @ nm @ us @ r)
    = \<lparr>si_session_id = a, si_account_id = b, si_session_id2 = c, si_host_ip = ip, si_host_port = v,
       si_server_name = c_string nm, si_users_online = rd32le us, si_is_male = (x = 1),
       si_use_modern_format = True\<rparr>"
proof -
  have "rd16le ([0xC4, 0x0A] @ q) = server_opcode AccountServerInfoV2" for q :: bytes
    by (simp add: rd16le_def)
  then show ?thesis
    using assms by (simp add: client_server_info_def slice_def nth_append)
qed

lemma layout_classic:
  assumes "length a = 4" "length b = 4" "length c = 4" "length ip = 4" "length nm = 20" "length us = 4"
  shows "client_server_info ([0x69, 0x00, 0x4F, 0x00] @ a @ b @ c @ replicate 30 0 @ [x]
      @ ip @ [ucast (take_bit 8 v), ucast (drop_bit 8 v)] @ nm @ us @ r)
    = \<lparr>si_session_id = a, si_account_id = b, si_session_id2 = c, si_host_ip = ip, si_host_port = v,
       si_server_name = c_string nm, si_users_online = rd32le us, si_is_male = (x = 1),
       si_use_modern_format = False\<rparr>"
proof -
  have "rd16le ([0x69, 0x00] @ q) \<noteq> server_opcode AccountServerInfoV2" for q :: bytes
    by (simp add: rd16le_def)
  then show ?thesis
    using assms by (simp add: client_server_info_def slice_def nth_append)
qed

lemma length_name_field [simp]:
  "length (take 20 (bytes_of_string s) @ replicate (20 - length s) (0::u8)) = 20"
  by (simp add: wire_len)

lemma client_view_modern:
  assumes "server_info_wf i" and "si_use_modern_format i" and "CHR 0x00 \<notin> set (si_server_name i)"
  shows "client_server_info (server_info_modern i) = normal_server_info i"
proof -
  have "client_server_info (server_info_modern i)
      = client_server_info ([0xC4, 0x0A, 0xE0, 0x00] @ si_session_id i @ si_account_id i
          @ si_session_id2 i @ replicate 30 0 @ [if si_is_male i then 1 else 0] @ replicate 17 0
          @ si_host_ip i @ [ucast (take_bit 8 (si_host_port i)), ucast (drop_bit 8 (si_host_port i))]
          @ (take 20 (bytes_of_string (si_server_name i)) @ replicate (20 - length (si_server_name i)) 0)
          @ to_le_bytes (if si_users_online i \<noteq> 0 then si_users_online i else 100) @ replicate 130 0)"
    by (simp only: server_info_modern_eq [OF assms(1)] append_assoc)
  also have "\<dots> = normal_server_info i"
    using assms
    by (subst layout_modern)
       (simp_all add: server_info_wf_def normal_server_info_def c_string_putZ del: length_append)
  finally show ?thesis .
qed

lemma client_view_classic:
  assumes "server_info_wf i" and "\<not> si_use_modern_format i" and "CHR 0x00 \<notin> set (si_server_name i)"
  shows "client_server_info (server_info_classic i) = normal_server_info i"
proof -
  have "client_server_info (server_info_classic i)
      = client_server_info ([0x69, 0x00, 0x4F, 0x00] @ si_session_id i @ si_account_id i
          @ si_session_id2 i @ replicate 30 0 @ [if si_is_male i then 1 else 0]
          @ si_host_ip i @ [ucast (take_bit 8 (si_host_port i)), ucast (drop_bit 8 (si_host_port i))]
          @ (take 20 (bytes_of_string (si_server_name i)) @ replicate (20 - length (si_server_name i)) 0)
          @ to_le_bytes (if si_users_online i \<noteq> 0 then si_users_online i else 100) @ [0, 0])"
    by (simp only: server_info_classic_eq [OF assms(1)] append_assoc)
  also have "\<dots> = normal_server_info i"
    using assms
    by (subst layout_classic)
       (simp_all add: server_info_wf_def normal_server_info_def c_string_putZ del: length_append)
  finally show ?thesis .
qed

lemma self_delimiting_append_header:
  "self_delimiting ([a, b, ucast (take_bit 8 v), ucast (drop_bit 8 v)] @ r)
     \<longleftrightarrow> unat v = length r + 4" for v :: u16
  by (auto simp: self_delimiting_def)

lemma self_delimiting_server_info:
  assumes "server_info_wf i"
  shows "self_delimiting (server_info_packet i)"
proof -
  have "unat (rd16le (drop 2 (server_info_modern i))) = 224"
       "unat (rd16le (drop 2 (server_info_classic i))) = 79"
    using assms by (simp_all add: server_info_modern_eq server_info_classic_eq rd16le_def)
  then show ?thesis
    using assms by (simp add: self_delimiting_def server_info_packet_def wire_len)
qed

lemma self_delimiting_login_key: "self_delimiting secure_login_key_packet"
  by (simp add: self_delimiting_def secure_login_key_eq rd16le_def)

lemma self_delimiting_login_token:
  assumes "length (lt_token t) < 65507"
  shows "self_delimiting (login_token_packet t)"
proof -
  have "unat (of_nat (length (lt_token t) + 29) :: u16) = length (lt_token t) + 29"
    using assms by (intro of_nat_u16_inverse) simp
  then show ?thesis
    by (simp add: self_delimiting_def login_token_eq length_token_packet_with)
       (simp add: token_packet_with_def)
qed

lemma client_view:
  assumes "server_info_wf i" and "CHR 0x00 \<notin> set (si_server_name i)"
  shows "client_server_info (server_info_packet i) = normal_server_info i"
  using assms client_view_modern [of i] client_view_classic [of i] by (simp add: server_info_packet_def)

section \<open>Properties\<close>

text \<open>
  The server list the client decodes is the one the server meant. For every server-list
  record whose name holds no NUL byte, reading the packet at the fixed offsets of its form gives
  the record back, with the name cut to 20 bytes and a user count of zero replaced by 100; and
  the length the packet announces is the number of bytes sent, 224 for the modern form and 79 for
  the classic one.
\<close>

theorem server_info_roundtrip:
  assumes "server_info_wf i" and "CHR 0x00 \<notin> set (si_server_name i)"
  shows "client_server_info (server_info_packet i) = normal_server_info i
    \<and> self_delimiting (server_info_packet i)
    \<and> length (server_info_packet i) = (if si_use_modern_format i then 224 else 79)"
  using assms client_view_modern [of i] client_view_classic [of i]
  by (simp add: self_delimiting_server_info) (simp add: server_info_packet_def wire_len)

definition sample_server_info :: AccountServerInfo where
  "sample_server_info =
     \<lparr>si_session_id = [1, 2, 3, 4], si_account_id = [0x81, 0x84, 0x1E, 0], si_session_id2 = [5, 6, 7, 8],
      si_host_ip = [127, 0, 0, 1], si_host_port = 6121, si_server_name = ''Arkan Software'',
      si_users_online = 5293, si_is_male = True, si_use_modern_format = False\<rparr>"

theorem server_info_roundtrip_witness:
  "client_server_info (server_info_packet sample_server_info) = sample_server_info"
proof -
  have wf: "server_info_wf sample_server_info" by (simp add: server_info_wf_def sample_server_info_def)
  have nz: "CHR 0x00 \<notin> set (si_server_name sample_server_info)" by (simp add: sample_server_info_def)
  have "normal_server_info sample_server_info = sample_server_info"
    by (simp add: normal_server_info_def sample_server_info_def)
  with server_info_roundtrip [OF wf nz] show ?thesis by simp
qed

text \<open>
  The token packet announces its own length exactly as long as the 16-bit length field can
  hold it, that is for tokens of fewer than 65507 bytes; a longer token would wrap the field.
\<close>

theorem login_token_length_field:
  "self_delimiting (login_token_packet t) \<longleftrightarrow> length (lt_token t) < 65507"
proof -
  have len: "length (login_token_packet t) = length (lt_token t) + 29"
    by (simp add: login_token_eq length_token_packet_with)
  have "unat (rd16le (drop 2 (login_token_packet t))) = (length (lt_token t) + 29) mod 65536"
    by (simp add: login_token_eq token_packet_with_def unat_of_nat del: of_nat_add)
  moreover have "(n + 29) mod 65536 = n + 29 \<longleftrightarrow> n < 65507" for n :: nat
    using mod_less_divisor [of 65536 "n + 29"] by (cases "n < 65507") (simp, linarith)
  ultimately show ?thesis by (simp add: self_delimiting_def len)
qed

end
