(* ===== verification/Game_Mapper.thy ===== *)
theory Game_Mapper
  imports Login_Mapper
begin

text \<open>
  The packets of the character and map phases: the transfer records of \<open>dto/CharacterDTO.hpp\<close>,
  \<open>dto/ActorDTO.hpp\<close>, \<open>dto/MapDTO.hpp\<close> and \<open>dto/SystemDTO.hpp\<close> with their default values, and
  the serializers of the four mapper headers; then their exact lengths and layouts.
\<close>

section \<open>Character packets\<close>

record CharListInfo =
  cl_char_id :: u32
  cl_slot :: u8
  cl_name :: string
  cl_is_male :: bool
  cl_base_level :: u16
  cl_job_level :: u16
  cl_job_id :: u16
  cl_base_exp :: u64
  cl_job_exp :: u64
  cl_zeny :: u32
  cl_str :: u8
  cl_agi :: u8
  cl_vit :: u8
  cl_int :: u8
  cl_dex :: u8
  cl_luk :: u8
  cl_hp :: u16
  cl_max_hp :: u16
  cl_sp :: u16
  cl_max_sp :: u16
  cl_weapon :: u16
  cl_shield :: u16
  cl_head_low :: u16
  cl_head_mid :: u16
  cl_hair_color :: u16
  cl_clothes_color :: u16
  cl_map_name :: string
  cl_option :: u16
  cl_stance :: u16
  cl_manner :: u16
  cl_stat_points :: u16
  cl_unknown_flag_c99 :: u8
  cl_rename_flag_v99 :: u16

definition default_char_list :: CharListInfo where
  "default_char_list =
     \<lparr>cl_char_id = 0, cl_slot = 0, cl_name = ''Thanatos'', cl_is_male = True, cl_base_level = 99,
      cl_job_level = 50, cl_job_id = 4074, cl_base_exp = 1993, cl_job_exp = 1993,
      cl_zeny = 2000000000, cl_str = 99, cl_agi = 99, cl_vit = 99, cl_int = 99, cl_dex = 99,
      cl_luk = 99, cl_hp = 9999, cl_max_hp = 9999, cl_sp = 9999, cl_max_sp = 9999, cl_weapon = 0,
      cl_shield = 0, cl_head_low = 0, cl_head_mid = 0, cl_hair_color = 6, cl_clothes_color = 0,
      cl_map_name = ''prontera'', cl_option = 0, cl_stance = 0, cl_manner = 0, cl_stat_points = 0,
      cl_unknown_flag_c99 = 99, cl_rename_flag_v99 = 99\<rparr>"

definition kCharListBlockBytes :: nat where "kCharListBlockBytes = 155"
definition kCharListPacketLen :: u16 where "kCharListPacketLen = of_nat (4 + kCharListBlockBytes)"
definition kPreamble082DLength :: u16 where "kPreamble082DLength = 0x001D"

record PreambleAccountID =
  pa_account_id :: bytes

record PreambleCommand09A0 =
  pc_value :: u32

definition preamble_account_id_packet :: "PreambleAccountID \<Rightarrow> packet" where
  "preamble_account_id_packet info = putFixed [] (pa_account_id info)"

definition preamble_082D_packet :: packet where
  "preamble_082D_packet =
     (let p = put16 [] (server_opcode Preamble082D);
          p = put16 p kPreamble082DLength;
          p = p @ [0x02, 0x00, 0x00, 0x02, 0x02]
      in p @ replicate 0x14 0x00)"

definition preamble_09A0_packet :: "PreambleCommand09A0 \<Rightarrow> packet" where
  "preamble_09A0_packet info = put32 (put16 [] (server_opcode Preamble09A0)) (pc_value info)"

text \<open>The eight-byte little-endian writer local to the character list.\<close>

definition putZ8 :: "packet \<Rightarrow> u64 \<Rightarrow> packet" where
  "putZ8 p v = foldl (\<lambda>q i. q @ [ucast (drop_bit (8 * i) v AND 0xFF)]) p [0, 1, 2, 3, 4, 5, 6, 7]"

definition putC :: "packet \<Rightarrow> u8 \<Rightarrow> packet" where
  "putC p v = p @ [v]"

text \<open>
  The body of the character list as it is written, before it is forced to its fixed size: the
  numeric fields up to the name, then the name, the attributes, the map and the sex.
\<close>

definition char_list_head :: "CharListInfo \<Rightarrow> packet" where
  "char_list_head info =
     (let b = [];
          b = wr32le b (ucast (cl_slot info) + 1);
          b = putZ8 b (cl_base_exp info);
          b = wr32le b (cl_zeny info);
          b = putZ8 b (cl_job_exp info);
          b = wr32le b (ucast (cl_job_level info));
          b = wr32le b 0;
          b = wr32le b (ucast (cl_option info));
          b = wr32le b (ucast (cl_stance info));
          b = wr32le b (ucast (cl_manner info));
          b = wr32le b (ucast (cl_stat_points info));
          b = wr16le b 0;
          b = wr32le b (ucast (cl_hp info AND 0xFFFF));
          b = wr32le b (ucast (cl_max_hp info AND 0xFFFF));
          b = wr16le b (cl_sp info AND 0xFFFF);
          b = wr16le b (cl_max_sp info AND 0xFFFF);
          b = wr16le b 0;
          b = wr16le b (cl_job_id info);
          b = wr32le b (ucast (cl_weapon info));
          b = wr16le b 0;
          b = wr16le b (cl_base_level info);
          b = wr16le b (cl_head_low info);
          b = wr16le b (cl_shield info);
          b = wr16le b 0;
          b = wr16le b (cl_head_mid info);
          b = wr16le b 0;
          b = wr16le b (cl_hair_color info)
      in wr16le b (cl_clothes_color info))"

definition char_list_block :: "CharListInfo \<Rightarrow> packet" where
  "char_list_block info =
     (let b = char_list_head info;
          b = putZ b (cl_name info) 24;
          b = putC b (cl_str info);
          b = putC b (cl_agi info);
          b = putC b (cl_vit info);
          b = putC b (cl_int info);
          b = putC b (cl_dex info);
          b = putC b (cl_luk info);
          b = putC b (cl_slot info);
          b = putC b (cl_unknown_flag_c99 info);
          b = wr16le b (cl_rename_flag_v99 info);
          b = putZ b (cl_map_name info) 16;
          b = wr32le b 0;
          b = wr32le b 0;
          b = wr32le b 0;
          b = wr32le b 0
      in putC b (if cl_is_male info then 1 else 0))"

definition char_list_packet :: "CharListInfo \<Rightarrow> packet" where
  "char_list_packet info =
     (let p = put16 [] (server_opcode CharListBlock);
          block = char_list_block info;
          block = (if length block < kCharListBlockBytes
                   then block @ replicate (kCharListBlockBytes - length block) 0
                   else if length block > kCharListBlockBytes then take kCharListBlockBytes block
                   else block);
          p = put16 p kCharListPacketLen
      in p @ block)"

record RedirectInfo =
  rd_char_id :: bytes
  rd_map_name :: string
  rd_ip :: bytes
  rd_port :: u16
  rd_account_id :: bytes
  rd_session_a :: bytes
  rd_session_b :: bytes
  rd_sex :: u8
  rd_use_full_redirect :: bool

definition redirect_packet :: "RedirectInfo \<Rightarrow> packet" where
  "redirect_packet info =
     (if rd_use_full_redirect info then
        (let p = put16 [] (server_opcode RedirectFull);
             p = putFixed p (rd_account_id info);
             p = putFixed p (rd_char_id info);
             p = putFixed p (rd_session_a info);
             p = putFixed p (rd_session_b info);
             p = p @ [rd_sex info];
             p = putFixed p (rd_ip info);
             p = put16 p (rd_port info)
         in putZ p (rd_map_name info) 16)
      else
        (let p = put16 [] (server_opcode RedirectShort);
             p = putFixed p (rd_char_id info);
             p = putZ p (rd_map_name info) 16;
             p = putFixed p (rd_ip info)
         in put16 p (rd_port info)))"

record AttackRangeInfo =
  ar_range :: u16

definition attack_range_packet :: "AttackRangeInfo \<Rightarrow> packet" where
  "attack_range_packet info = put16 (put16 [] (server_opcode AttackRange)) (ar_range info)"

record HpSpUpdateInfo =
  hs_hp :: u16
  hs_max_hp :: u16
  hs_sp :: u16
  hs_max_sp :: u16

definition hp_sp_packet :: "HpSpUpdateInfo \<Rightarrow> packet" where
  "hp_sp_packet info =
     (let p = put16 [] (server_opcode HpSpUpdate);
          p = put16 p (hs_hp info);
          p = put16 p (hs_max_hp info);
          p = put16 p (hs_sp info)
      in put16 p (hs_max_sp info))"

record CharacterStatsInfo =
  cs_points_free :: u16
  cs_stats_base :: bytes
  cs_aspd1 :: u16
  cs_aspd2 :: u16
  cs_hp :: u16
  cs_max_hp :: u16
  cs_sp :: u16
  cs_zeny :: u16
  cs_weight :: u16
  cs_weight_max :: u16
  cs_walk_speed :: u16
  cs_job_level :: u16
  cs_base_level :: u16
  cs_status_points :: u16
  cs_attack_min :: u16
  cs_attack_max :: u16
  cs_magic_attack_min :: u16
  cs_magic_attack_max :: u16
  cs_defense :: u16
  cs_magic_defense :: u16
  cs_hit :: u16
  cs_flee :: u16
  cs_critical :: u16
  cs_karma :: u16

definition default_stats :: CharacterStatsInfo where
  "default_stats =
     \<lparr>cs_points_free = 100, cs_stats_base = [99, 99, 99, 99, 99, 99, 0, 0, 0, 0, 0, 0],
      cs_aspd1 = 50, cs_aspd2 = 50, cs_hp = 12, cs_max_hp = 9999, cs_sp = 9999, cs_zeny = 0,
      cs_weight = 0, cs_weight_max = 5000, cs_walk_speed = 1, cs_job_level = 3, cs_base_level = 1,
      cs_status_points = 0, cs_attack_min = 10, cs_attack_max = 10, cs_magic_attack_min = 5,
      cs_magic_attack_max = 5, cs_defense = 100, cs_magic_defense = 100, cs_hit = 1,
      cs_flee = 150, cs_critical = 0, cs_karma = 0\<rparr>"

definition stats_packet :: "CharacterStatsInfo \<Rightarrow> packet" where
  "stats_packet info =
     (let p = put16 [] (server_opcode StatsInfo);
          p = put16 p (cs_points_free info);
          p = p @ cs_stats_base info;
          p = put16 p (cs_aspd1 info);
          p = put16 p (cs_aspd2 info);
          p = put16 p (cs_hp info);
          p = put16 p (cs_max_hp info);
          p = put16 p (cs_sp info);
          p = put16 p (cs_zeny info);
          p = put16 p (cs_weight info);
          p = put16 p (cs_weight_max info);
          p = put16 p (cs_walk_speed info);
          p = put16 p (cs_job_level info);
          p = put16 p (cs_base_level info);
          p = put16 p (cs_status_points info);
          p = put16 p (cs_attack_min info);
          p = put16 p (cs_attack_max info);
          p = put16 p (cs_magic_attack_min info);
          p = put16 p (cs_magic_attack_max info);
          p = put16 p (cs_defense info);
          p = put16 p (cs_magic_defense info);
          p = put16 p (cs_hit info);
          p = put16 p (cs_flee info);
          p = put16 p (cs_critical info)
      in put16 p (cs_karma info))"

section \<open>Actor, map and system packets\<close>

record SyncInfo =
  sy_account_id :: bytes

definition sync_packet :: "SyncInfo \<Rightarrow> packet" where
  "sync_packet info = putFixed (put16 [] (server_opcode SyncAccount)) (sy_account_id info)"

record LookToInfo =
  lt_account_id :: bytes
  lt_head_direction :: u8

definition look_to_packet :: "LookToInfo \<Rightarrow> packet" where
  "look_to_packet info =
     (let p = put16 [] (server_opcode LookTo);
          p = putFixed p (lt_account_id info);
          p = p @ [0];
          p = p @ [0]
      in p @ [lt_head_direction info])"

record ActorDisplayInfo =
  ad_account_id :: bytes
  ad_name :: string
  ad_party_name :: string
  ad_guild_name :: string
  ad_title :: string

definition actor_info_packet :: "ActorDisplayInfo \<Rightarrow> packet" where
  "actor_info_packet info =
     (let p = put16 [] (server_opcode ActorInfoSelf);
          p = putFixed p (ad_account_id info);
          p = putZ p (ad_name info) 24;
          p = putZ p (ad_party_name info) 24;
          p = putZ p (ad_guild_name info) 24;
          p = putZ p (ad_title info) 24
      in put32 p 0)"

record ActorNameInfo =
  an_account_id :: bytes
  an_name :: string

definition actor_name_packet :: "ActorNameInfo \<Rightarrow> packet" where
  "actor_name_packet info =
     (let p = put16 [] (server_opcode ActorNameSelf);
          p = putFixed p (an_account_id info)
      in putZ p (an_name info) 24)"

record WarpInfo =
  wp_map_name :: string
  wp_x :: u16
  wp_y :: u16

definition warp_packet :: "WarpInfo \<Rightarrow> packet" where
  "warp_packet info =
     (let p = put16 [] (server_opcode Warp);
          name = (if length (wp_map_name info) \<le> 16 then wp_map_name info else take 16 (wp_map_name info));
          p = putZ p name 16;
          p = put16 p (wp_x info)
      in put16 p (wp_y info))"

record MapLoadedInfo =
  ml_tick :: u32
  ml_x :: u16
  ml_y :: u16
  ml_dir :: u8
  ml_x_size :: u8
  ml_y_size :: u8

definition map_loaded_packet :: "MapLoadedInfo \<Rightarrow> packet" where
  "map_loaded_packet info =
     (let p = put16 [] (server_opcode MapLoaded);
          p = put32 p (ml_tick info);
          p = putCoordsA3 p (ml_x info) (ml_y info) (ml_dir info);
          p = p @ [ml_x_size info];
          p = p @ [ml_y_size info]
      in put16 p 0)"

record AcceptEnterInfo =
  ae_x :: u16
  ae_y :: u16
  ae_dir :: u8

definition accept_enter_packet :: "AcceptEnterInfo \<Rightarrow> packet" where
  "accept_enter_packet info =
     (let p = put16 [] (server_opcode AcceptEnter);
          p = put16 p (ae_x info);
          p = put16 p (ae_y info);
          p = p @ [ae_dir info];
          p = put16 p 0
      in put16 p 0)"

definition load_confirm_packet :: packet where
  "load_confirm_packet = put16 [] (server_opcode LoadConfirm)"

record SystemChatMessage =
  sc_message :: string

definition system_chat_packet :: "SystemChatMessage \<Rightarrow> packet" where
  "system_chat_packet info =
     (let p = put16 [] (server_opcode SystemChat);
          len = (of_nat (4 + length (sc_message info) + 1) :: u16);
          p = put16 p len;
          p = p @ bytes_of_string (sc_message info)
      in p @ [0])"

section \<open>Lengths\<close>

lemma length_putZ8 [simp, wire_len]: "length (putZ8 p v) = length p + 8"
  by (simp add: putZ8_def)

lemma length_putC [simp, wire_len]: "length (putC p v) = length p + 1"
  by (simp add: putC_def)

text \<open>The writes of the block add up to 155 bytes, so forcing its size changes nothing.\<close>

lemma length_char_list_head [simp, wire_len]: "length (char_list_head info) = 88"
  by (simp add: char_list_head_def Let_def)

lemma length_char_list_block [simp, wire_len]: "length (char_list_block info) = 155"
  by (simp add: char_list_block_def Let_def)

lemma char_list_packet_eq:
  "char_list_packet info = [0x9D, 0x09, 0x9F, 0x00] @ char_list_block info"
  by (simp add: char_list_packet_def Let_def kCharListBlockBytes_def kCharListPacketLen_def
      put16_eq)

lemma length_char_list_packet [simp, wire_len]: "length (char_list_packet info) = 159"
  by (simp add: char_list_packet_eq)

lemma length_preamble_082D [simp, wire_len]: "length preamble_082D_packet = 29"
  by (simp add: preamble_082D_packet_def Let_def)

lemma length_redirect [wire_len]:
  assumes "length (rd_char_id i) = 4" "length (rd_ip i) = 4" "length (rd_account_id i) = 4"
    "length (rd_session_a i) = 4" "length (rd_session_b i) = 4"
  shows "length (redirect_packet i) = (if rd_use_full_redirect i then 41 else 28)"
  using assms by (simp add: redirect_packet_def Let_def)

lemma length_map_packets [simp, wire_len]:
  "length (preamble_account_id_packet a) = length (pa_account_id a)"
  "length (preamble_09A0_packet v) = 6"
  "length (attack_range_packet r) = 4"
  "length (hp_sp_packet h) = 10"
  "length (stats_packet s) = 48 + length (cs_stats_base s)"
  "length (sync_packet si) = 2 + length (sy_account_id si)"
  "length (look_to_packet l) = 5 + length (lt_account_id l)"
  "length (actor_info_packet ai) = 102 + length (ad_account_id ai)"
  "length (actor_name_packet n) = 26 + length (an_account_id n)"
  "length (warp_packet w) = 22"
  "length (map_loaded_packet ml) = 13"
  "length (accept_enter_packet e) = 11"
  "length load_confirm_packet = 2"
  "length (system_chat_packet msg) = length (sc_message msg) + 5"
  by (simp_all add: preamble_account_id_packet_def preamble_09A0_packet_def
      attack_range_packet_def hp_sp_packet_def stats_packet_def sync_packet_def look_to_packet_def
      actor_info_packet_def actor_name_packet_def warp_packet_def map_loaded_packet_def
      accept_enter_packet_def load_confirm_packet_def system_chat_packet_def Let_def wire_len)

section \<open>The client's reading of a redirect\<close>

text \<open>The redirect is read at fixed offsets: where to connect next, and as whom.\<close>

definition client_redirect_target :: "packet \<Rightarrow> bytes \<times> bytes \<times> u16 \<times> string" where
  "client_redirect_target p =
     (if rd16le p = server_opcode RedirectFull
      then (slice 6 4 p, slice 19 4 p, rd16le (slice 23 2 p), c_string (slice 25 16 p))
      else (slice 2 4 p, slice 22 4 p, rd16le (slice 26 2 p), c_string (slice 6 16 p)))"

lemma length_map_field [simp]:
  "length (take 16 (bytes_of_string s) @ replicate (16 - length s) (0::u8)) = 16"
  by (simp add: wire_len)

lemma redirect_layout_full:
  assumes "length a = 4" "length c = 4" "length sa = 4" "length sb = 4" "length ip = 4" "length nm = 16"
  shows "client_redirect_target ([0xC5, 0x0A] @ a @ c @ sa @ sb @ [sex] @ ip
      @ [ucast (take_bit 8 v), ucast (drop_bit 8 v)] @ nm) = (c, ip, v, c_string nm)"
proof -
  have "rd16le ([0xC5, 0x0A] @ q) = server_opcode RedirectFull" for q :: bytes
    by (simp add: rd16le_def)
  then show ?thesis using assms by (simp add: client_redirect_target_def slice_def)
qed

lemma redirect_layout_short:
  assumes "length c = 4" "length ip = 4" "length nm = 16"
  shows "client_redirect_target ([0x71, 0x00] @ c @ nm @ ip
      @ [ucast (take_bit 8 v), ucast (drop_bit 8 v)]) = (c, ip, v, c_string nm)"
proof -
  have "rd16le ([0x71, 0x00] @ q) \<noteq> server_opcode RedirectFull" for q :: bytes
    by (simp add: rd16le_def)
  then show ?thesis using assms by (simp add: client_redirect_target_def slice_def)
qed

definition redirect_wf :: "RedirectInfo \<Rightarrow> bool" where
  "redirect_wf i \<longleftrightarrow> length (rd_char_id i) = 4 \<and> length (rd_ip i) = 4 \<and> length (rd_account_id i) = 4
     \<and> length (rd_session_a i) = 4 \<and> length (rd_session_b i) = 4"

lemma client_redirect_target_packet:
  assumes "redirect_wf i" and "CHR 0x00 \<notin> set (rd_map_name i)"
  shows "client_redirect_target (redirect_packet i)
       = (rd_char_id i, rd_ip i, rd_port i, take 16 (rd_map_name i))"
proof (cases "rd_use_full_redirect i")
  case True
  then have "redirect_packet i = [0xC5, 0x0A] @ rd_account_id i @ rd_char_id i @ rd_session_a i
      @ rd_session_b i @ [rd_sex i] @ rd_ip i
      @ [ucast (take_bit 8 (rd_port i)), ucast (drop_bit 8 (rd_port i))]
      @ (take 16 (bytes_of_string (rd_map_name i)) @ replicate (16 - length (rd_map_name i)) 0)"
    by (simp add: redirect_packet_def Let_def wire_simps)
  then show ?thesis
    using assms by (simp add: redirect_layout_full [simplified] redirect_wf_def c_string_putZ del: length_append)
next
  case False
  then have "redirect_packet i = [0x71, 0x00] @ rd_char_id i
      @ (take 16 (bytes_of_string (rd_map_name i)) @ replicate (16 - length (rd_map_name i)) 0)
      @ rd_ip i @ [ucast (take_bit 8 (rd_port i)), ucast (drop_bit 8 (rd_port i))]"
    by (simp add: redirect_packet_def Let_def wire_simps)
  then show ?thesis
    using assms by (simp only: redirect_layout_short redirect_wf_def length_map_field c_string_putZ [OF assms(2)])
qed

section \<open>The client's reading of a character entry\<close>

text \<open>
  The selection screen reads the slot number (plus one), the name, the slot, the map and the sex
  at fixed offsets of the 159-byte packet.
\<close>

definition client_char_entry :: "packet \<Rightarrow> u32 \<times> string \<times> u8 \<times> string \<times> bool" where
  "client_char_entry p =
     (rd32le (slice 4 4 p), c_string (slice 92 24 p), hd (drop 122 p), c_string (slice 126 16 p), hd (drop 158 p) = 1)"

lemma take_writers [simp]:
  "k \<le> length b \<Longrightarrow> take k (wr32le b v) = take k b"
  "k \<le> length b \<Longrightarrow> take k (wr16le b w) = take k b"
  "k \<le> length b \<Longrightarrow> take k (putZ8 b u) = take k b"
  by (simp_all add: wire_simps putZ8_def)

lemma take_char_list_head: "take 4 (char_list_head i) = to_le_bytes (ucast (cl_slot i) + 1)"
  by (simp add: char_list_head_def Let_def) (simp add: wire_simps)

lemma length_char_name [simp]:
  "length (take 24 (bytes_of_string s) @ replicate (24 - length s) (0::u8)) = 24"
  by (simp add: wire_len)

lemma char_list_block_eq:
  "char_list_block i = char_list_head i
     @ (take 24 (bytes_of_string (cl_name i)) @ replicate (24 - length (cl_name i)) 0)
     @ [cl_str i, cl_agi i, cl_vit i, cl_int i, cl_dex i, cl_luk i, cl_slot i, cl_unknown_flag_c99 i,
        ucast (take_bit 8 (cl_rename_flag_v99 i)), ucast (drop_bit 8 (cl_rename_flag_v99 i))]
     @ (take 16 (bytes_of_string (cl_map_name i)) @ replicate (16 - length (cl_map_name i)) 0)
     @ replicate 16 0 @ [if cl_is_male i then 1 else 0]"
  by (simp add: char_list_block_def Let_def wire_simps putC_def to_le_bytes_def numeral_eq_Suc)

lemma char_entry_layout:
  assumes "length h = 88" "length nm = 24" "length at = 6" "length fl = 3" "length mp = 16"
  shows "client_char_entry ([0x9D, 0x09, 0x9F, 0x00] @ h @ nm @ (at @ [s] @ fl) @ mp
      @ replicate 16 0 @ [x]) = (rd32le (take 4 h), c_string nm, s, c_string mp, x = 1)"
  using assms by (simp add: client_char_entry_def slice_def)

lemma client_char_entry_packet:
  assumes "CHR 0x00 \<notin> set (cl_name i)" and "CHR 0x00 \<notin> set (cl_map_name i)"
  shows "client_char_entry (char_list_packet i)
    = (ucast (cl_slot i) + 1, take 24 (cl_name i), cl_slot i, take 16 (cl_map_name i), cl_is_male i)"
proof -
  define attrs where "attrs = [cl_str i, cl_agi i, cl_vit i, cl_int i, cl_dex i, cl_luk i]"
  define flags where "flags = [cl_unknown_flag_c99 i, ucast (take_bit 8 (cl_rename_flag_v99 i)),
           ucast (drop_bit 8 (cl_rename_flag_v99 i))]"
  define sex where "sex = (if cl_is_male i then 1 else (0 :: u8))"
  have len: "length attrs = 6" "length flags = 3" by (simp_all add: attrs_def flags_def)
  have "char_list_packet i = [0x9D, 0x09, 0x9F, 0x00] @ char_list_head i
     @ (take 24 (bytes_of_string (cl_name i)) @ replicate (24 - length (cl_name i)) 0)
     @ (attrs @ [cl_slot i] @ flags)
     @ (take 16 (bytes_of_string (cl_map_name i)) @ replicate (16 - length (cl_map_name i)) 0)
     @ replicate 16 0 @ [sex]"
    by (simp only: char_list_packet_eq char_list_block_eq append_assoc append_Cons append_Nil
        attrs_def flags_def sex_def)
  also have "client_char_entry \<dots> = (rd32le (take 4 (char_list_head i)), take 24 (cl_name i), cl_slot i,
      take 16 (cl_map_name i), sex = 1)"
    by (simp only: char_entry_layout [OF length_char_list_head length_char_name len length_map_field]
        c_string_putZ [OF assms(1)] c_string_putZ [OF assms(2)])
  finally show ?thesis by (simp only: take_char_list_head rd32le_to_le_bytes) (simp add: sex_def)
qed

lemma self_delimiting_char_list: "self_delimiting (char_list_packet i)"
  by (simp add: self_delimiting_def char_list_packet_eq rd16le_def)

lemma self_delimiting_preamble_082D: "self_delimiting preamble_082D_packet"
  by (simp add: self_delimiting_def) (simp add: preamble_082D_packet_def Let_def wire_simps
      kPreamble082DLength_def rd16le_def)

section \<open>Properties\<close>

text \<open>
  The character list is decodable and of fixed size. For every character record whose name
  and map hold no NUL byte, the packet is 159 bytes long, announces that length, and a client
  reading it at the offsets of its layout finds the slot plus one, the name cut to 24 bytes, the
  slot, the map name cut to 16 bytes and the sex.
\<close>

theorem char_list_roundtrip:
  assumes "CHR 0x00 \<notin> set (cl_name i)" and "CHR 0x00 \<notin> set (cl_map_name i)"
  shows "length (char_list_packet i) = 159 \<and> self_delimiting (char_list_packet i)
    \<and> client_char_entry (char_list_packet i)
      = (ucast (cl_slot i) + 1, take 24 (cl_name i), cl_slot i, take 16 (cl_map_name i), cl_is_male i)"
  by (simp only: client_char_entry_packet [OF assms] self_delimiting_char_list length_char_list_packet)

theorem char_list_roundtrip_witness:
  "client_char_entry (char_list_packet default_char_list) = (1, ''Thanatos'', 0, ''prontera'', True)"
proof -
  have sel: "cl_slot default_char_list = 0" "cl_name default_char_list = ''Thanatos''"
    "cl_map_name default_char_list = ''prontera''" "cl_is_male default_char_list"
    by (simp_all add: default_char_list_def)
  then have "CHR 0x00 \<notin> set (cl_name default_char_list)"
    "CHR 0x00 \<notin> set (cl_map_name default_char_list)" by simp_all
  from char_list_roundtrip [OF this] show ?thesis by (simp add: sel)
qed

text \<open>
  Both forms of the map redirect carry the same target. For a redirect record with a
  NUL-free map name, the short form \<open>0x0071\<close> and the full form \<open>0x0AC5\<close> are read back by the
  client as the same character id, address, port and map name (cut to 16 bytes).
\<close>

theorem redirect_roundtrip:
  assumes "redirect_wf i" and "CHR 0x00 \<notin> set (rd_map_name i)"
  shows "client_redirect_target (redirect_packet i)
       = (rd_char_id i, rd_ip i, rd_port i, take 16 (rd_map_name i))"
  using assms by (rule client_redirect_target_packet)

definition sample_redirect :: "bool \<Rightarrow> RedirectInfo" where
  "sample_redirect full =
     \<lparr>rd_char_id = [0xE9, 0x03, 0, 0], rd_map_name = ''moc_pryd03.gat'', rd_ip = [127, 0, 0, 1],
      rd_port = 6121, rd_account_id = [0x81, 0x84, 0x1E, 0], rd_session_a = [0, 0x5E, 0xD0, 0xB2],
      rd_session_b = [0xFF, 0, 0, 0], rd_sex = 1, rd_use_full_redirect = full\<rparr>"

theorem redirect_roundtrip_witness:
  "client_redirect_target (redirect_packet (sample_redirect True))
     = ([0xE9, 0x03, 0, 0], [127, 0, 0, 1], 6121, ''moc_pryd03.gat'')"
proof -
  have "redirect_wf (sample_redirect True)" "CHR 0x00 \<notin> set (rd_map_name (sample_redirect True))"
    by (simp_all add: redirect_wf_def sample_redirect_def)
  from redirect_roundtrip [OF this]
  have "client_redirect_target (redirect_packet (sample_redirect True))
     = (rd_char_id (sample_redirect True), rd_ip (sample_redirect True),
        rd_port (sample_redirect True), take 16 (rd_map_name (sample_redirect True)))" .
  then show ?thesis by (simp only: sample_redirect_def RedirectInfo.simps) simp
qed

end
