(* ===== verification/Bus.thy ===== *)
theory Bus
  imports Prelude
begin

text \<open>
  The bus between OpenKore and the query server, \<open>interface/query/bus/BusProtocol.hpp\<close>: the
  self-describing envelope, its big-endian integers, \<open>encode\<close> and \<open>decode\<close>. Every
  \<open>std::runtime_error\<close> is an error value; every access to the input buffer goes through a checked
  read whose failure is the extra error \<open>Out_of_bounds\<close>, so that memory safety is the theorem that
  this error is never returned. \<open>size_t\<close> offsets are natural numbers: they stay below twice the
  largest 32-bit length, so they do not wrap on the 64-bit build (and not on a 32-bit one for the
  frames of at most 16 MiB that the query server lets through).
\<close>

section \<open>Data\<close>

type_synonym ValueType = u8

definition VT_Binary :: ValueType where "VT_Binary = 0"
definition VT_String :: ValueType where "VT_String = 1"
definition VT_UInt :: ValueType where "VT_UInt = 2"

record bus_value =
  v_type :: ValueType
  v_bin :: bytes
  v_u :: u64

text \<open>
  An \<open>unordered_map\<close> is an association list in its iteration order, which the standard leaves
  open; no theorem depends on the order.
\<close>

record bus_message =
  m_options :: u8
  m_messageID :: string
  m_args_map :: "(string \<times> bus_value) list"
  m_args_array :: "bus_value list"

datatype bus_error =
    MID_too_long | Options_must_be_0_or_1 | Key_too_long | Value_too_large
  | Buffer_too_small | Incomplete_frame | Bad_MID_length
  | Truncated_map_key_len | Truncated_map_entry | Truncated_map_value
  | Truncated_array_entry | Truncated_array_value | Invalid_options
  | Out_of_bounds

section \<open>Big-endian integers\<close>

definition wr_be32 :: "bytes \<Rightarrow> u32 \<Rightarrow> bytes" where
  "wr_be32 b x = b @ [ucast (drop_bit 24 x AND 0xFF), ucast (drop_bit 16 x AND 0xFF),
                      ucast (drop_bit 8 x AND 0xFF), ucast (x AND 0xFF)]"

definition wr_be24 :: "bytes \<Rightarrow> u32 \<Rightarrow> bytes" where
  "wr_be24 b x = b @ [ucast (drop_bit 16 x AND 0xFF), ucast (drop_bit 8 x AND 0xFF), ucast (x AND 0xFF)]"

definition rd_be32 :: "bytes \<Rightarrow> u32" where
  "rd_be32 p = push_bit 24 (ucast (p ! 0)) OR push_bit 16 (ucast (p ! 1))
               OR push_bit 8 (ucast (p ! 2)) OR ucast (p ! 3)"

definition rd_be24 :: "bytes \<Rightarrow> u32" where
  "rd_be24 p = push_bit 16 (ucast (p ! 0)) OR push_bit 8 (ucast (p ! 1)) OR ucast (p ! 2)"

section \<open>Encoding\<close>

text \<open>
  The \<open>do ... while\<close> loop that fills the scratch array \<open>tmp[8]\<close> from its end with the bytes of
  an unsigned integer; it returns the array and the number \<open>n\<close> of bytes used.
\<close>

function uint_loop :: "bytes \<Rightarrow> nat \<Rightarrow> u64 \<Rightarrow> bytes \<times> nat" where
  "uint_loop tmp n x =
     (let tmp = tmp[7 - n := ucast (x AND 0xFF)];
          x = drop_bit 8 x;
          n = n + 1
      in if x \<noteq> 0 \<and> n < 8 then uint_loop tmp n x else (tmp, n))"
  by pat_completeness auto
termination
  by (relation "measure (\<lambda>(tmp, n, x). 8 - n)") auto

declare uint_loop.simps [simp del]

definition encode_value :: "bytes \<Rightarrow> bus_value \<Rightarrow> bus_error + bytes" where
  "encode_value out v =
     (let out = out @ [v_type v] in
      if v_type v = VT_String \<or> v_type v = VT_Binary then
        (if length (v_bin v) > 0xFFFFFF then Inl Value_too_large
         else Inr (wr_be24 out (of_nat (length (v_bin v))) @ v_bin v))
      else
        (let (tmp, n) = uint_loop (replicate 8 0) 0 (v_u v)
         in Inr (wr_be24 out (of_nat n) @ drop (8 - n) tmp)))"

fun encode_map :: "bytes \<Rightarrow> (string \<times> bus_value) list \<Rightarrow> bus_error + bytes" where
  "encode_map out [] = Inr out"
| "encode_map out ((k, v) # es) =
     (if length k > 255 then Inl Key_too_long
      else case encode_value (out @ [of_nat (length k)] @ bytes_of_string k) v of
             Inl e \<Rightarrow> Inl e
           | Inr out \<Rightarrow> encode_map out es)"

fun encode_array :: "bytes \<Rightarrow> bus_value list \<Rightarrow> bus_error + bytes" where
  "encode_array out [] = Inr out"
| "encode_array out (v # vs) =
     (case encode_value out v of Inl e \<Rightarrow> Inl e | Inr out \<Rightarrow> encode_array out vs)"

text \<open>The total length is patched over the four bytes reserved at the head.\<close>

definition patch_len :: "bytes \<Rightarrow> bytes" where
  "patch_len out =
     (let len = (of_nat (length out) :: u32);
          out = out[0 := ucast (drop_bit 24 len AND 0xFF)];
          out = out[1 := ucast (drop_bit 16 len AND 0xFF)];
          out = out[2 := ucast (drop_bit 8 len AND 0xFF)]
      in out[3 := ucast (len AND 0xFF)])"

definition encode :: "bus_message \<Rightarrow> bus_error + bytes" where
  "encode m =
     (if length (m_messageID m) > 255 then Inl MID_too_long
      else if m_options m \<noteq> 0 \<and> m_options m \<noteq> 1 then Inl Options_must_be_0_or_1
      else
        (let out = wr_be32 [] 0;
             out = out @ [m_options m];
             out = out @ [of_nat (length (m_messageID m))];
             out = out @ bytes_of_string (m_messageID m)
         in case (if m_options m = 0 then encode_map out (m_args_map m)
                  else encode_array out (m_args_array m)) of
              Inl e \<Rightarrow> Inl e
            | Inr out \<Rightarrow> Inr (patch_len out)))"

section \<open>Decoding\<close>

definition byte_at :: "bytes \<Rightarrow> nat \<Rightarrow> bus_error + u8" where
  "byte_at data i = (if i < length data then Inr (data ! i) else Inl Out_of_bounds)"

definition bytes_at :: "bytes \<Rightarrow> nat \<Rightarrow> nat \<Rightarrow> bus_error + bytes" where
  "bytes_at data i n = (if i + n \<le> length data then Inr (slice i n data) else Inl Out_of_bounds)"

definition be_uint :: "bytes \<Rightarrow> u64" where
  "be_uint bs = foldl (\<lambda>x b. push_bit 8 x OR ucast b) 0 bs"

text \<open>
  The part both loops share: the type byte at \<open>off\<close>, the 24-bit length, the bounds check (whose
  message differs) and the contents. The result is the value and the offset behind it.
\<close>

definition decode_value ::
    "bus_error \<Rightarrow> bytes \<Rightarrow> nat \<Rightarrow> nat \<Rightarrow> bus_error + (bus_value \<times> nat)" where
  "decode_value truncated data len off =
     (case byte_at data off of Inl e \<Rightarrow> Inl e | Inr t \<Rightarrow>
      case bytes_at data (off + 1) 3 of Inl e \<Rightarrow> Inl e | Inr l \<Rightarrow>
        (let vlen = unat (rd_be24 l); off = off + 1 + 3 in
         if off + vlen > len then Inl truncated
         else case bytes_at data off vlen of Inl e \<Rightarrow> Inl e | Inr b \<Rightarrow>
           if t = VT_String \<or> t = VT_Binary
           then Inr (\<lparr>v_type = t, v_bin = b, v_u = 0\<rparr>, off + vlen)
           else Inr (\<lparr>v_type = t, v_bin = [], v_u = be_uint b\<rparr>, off + vlen)))"

text \<open>\<open>unordered_map::emplace\<close> keeps the entry that is already there.\<close>

definition emplace :: "('k \<times> 'v) list \<Rightarrow> 'k \<Rightarrow> 'v \<Rightarrow> ('k \<times> 'v) list" where
  "emplace m k v = (if k \<in> fst ` set m then m else m @ [(k, v)])"

lemma decode_value_advances:
  "decode_value t data len off = Inr (v, off') \<Longrightarrow> off + 4 \<le> off' \<and> off' \<le> len"
  by (auto simp: decode_value_def Let_def split: sum.splits if_splits)

function decode_map ::
    "bytes \<Rightarrow> nat \<Rightarrow> nat \<Rightarrow> (string \<times> bus_value) list \<Rightarrow> bus_error + (string \<times> bus_value) list" where
  "decode_map data len off m =
     (if off < len then
        (if off + 1 > len then Inl Truncated_map_key_len
         else case byte_at data off of Inl e \<Rightarrow> Inl e | Inr klen \<Rightarrow>
           if off + 1 + unat klen + 1 + 3 > len then Inl Truncated_map_entry
           else case bytes_at data (off + 1) (unat klen) of Inl e \<Rightarrow> Inl e | Inr key \<Rightarrow>
             case decode_value Truncated_map_value data len (off + 1 + unat klen) of
               Inl e \<Rightarrow> Inl e
             | Inr (v, off') \<Rightarrow> decode_map data len off' (emplace m (string_of_bytes key) v))
      else Inr m)"
  by pat_completeness auto
termination
  by (relation "measure (\<lambda>(data, len, off, m). len - off)") (auto dest!: decode_value_advances)

function decode_array ::
    "bytes \<Rightarrow> nat \<Rightarrow> nat \<Rightarrow> bus_value list \<Rightarrow> bus_error + bus_value list" where
  "decode_array data len off vs =
     (if off < len then
        (if off + 1 + 3 > len then Inl Truncated_array_entry
         else case decode_value Truncated_array_value data len off of
                Inl e \<Rightarrow> Inl e
              | Inr (v, off') \<Rightarrow> decode_array data len off' (vs @ [v]))
      else Inr vs)"
  by pat_completeness auto
termination
  by (relation "measure (\<lambda>(data, len, off, vs). len - off)") (auto dest!: decode_value_advances)

declare decode_map.simps [simp del] decode_array.simps [simp del]

definition decode :: "bytes \<Rightarrow> bus_error + (bus_message \<times> nat)" where
  "decode data =
     (if length data < 6 then Inl Buffer_too_small
      else case bytes_at data 0 4 of Inl e \<Rightarrow> Inl e | Inr l \<Rightarrow>
        (let len = unat (rd_be32 l) in
         if len > length data then Inl Incomplete_frame
         else case byte_at data 4 of Inl e \<Rightarrow> Inl e | Inr options \<Rightarrow>
           case byte_at data 5 of Inl e \<Rightarrow> Inl e | Inr mid_len \<Rightarrow>
             if 6 + unat mid_len > len then Inl Bad_MID_length
             else case bytes_at data 6 (unat mid_len) of Inl e \<Rightarrow> Inl e | Inr mid \<Rightarrow>
               (let m = \<lparr>m_options = options, m_messageID = string_of_bytes mid,
                         m_args_map = [], m_args_array = []\<rparr>;
                    off = 6 + unat mid_len in
                if options = 0 then
                  (case decode_map data len off [] of Inl e \<Rightarrow> Inl e
                   | Inr es \<Rightarrow> Inr (m\<lparr>m_args_map := es\<rparr>, len))
                else if options = 1 then
                  (case decode_array data len off [] of Inl e \<Rightarrow> Inl e
                   | Inr vs \<Rightarrow> Inr (m\<lparr>m_args_array := vs\<rparr>, len))
                else Inl Invalid_options)))"

section \<open>Integers survive the wire\<close>

definition be32 :: "u32 \<Rightarrow> bytes" where
  "be32 x = wr_be32 [] x"

definition be24 :: "u32 \<Rightarrow> bytes" where
  "be24 x = wr_be24 [] x"

lemma wr_be32_eq: "wr_be32 b x = b @ be32 x"
  by (simp add: be32_def wr_be32_def)

lemma wr_be24_eq: "wr_be24 b x = b @ be24 x"
  by (simp add: be24_def wr_be24_def)

lemma length_be [simp]: "length (be32 x) = 4" "length (be24 x) = 3"
  by (simp_all add: be32_def wr_be32_def be24_def wr_be24_def)

lemma rd_be32_be32 [simp]: "rd_be32 (be32 x) = x"
proof (rule bit_word_eqI)
  fix n assume n: "n < LENGTH(32)"
  consider "n < 8" | "8 \<le> n" "n < 16" | "16 \<le> n" "n < 24" | "24 \<le> n" by linarith
  then show "bit (rd_be32 (be32 x)) n = bit x n"
    using n by cases (auto simp: rd_be32_def be32_def wr_be32_def word_bits)
qed

lemma rd_be24_be24: "rd_be24 (be24 x) = take_bit 24 x"
proof (rule bit_word_eqI)
  fix n assume n: "n < LENGTH(32)"
  consider "n < 8" | "8 \<le> n" "n < 16" | "16 \<le> n" by linarith
  then show "bit (rd_be24 (be24 x)) n = bit (take_bit 24 x) n"
    using n by cases (auto simp: rd_be24_def be24_def wr_be24_def word_bits)
qed

lemma rd_be24_of_nat: "n \<le> 0xFFFFFF \<Longrightarrow> unat (rd_be24 (be24 (of_nat n))) = n"
proof -
  assume n: "n \<le> 0xFFFFFF"
  have "unat (take_bit 24 (of_nat n :: u32)) = take_bit 24 (unat (of_nat n :: u32))"
    by (rule unsigned_take_bit_eq)
  also have "\<dots> = n" using n by (simp only: take_bit_eq_mod unat_of_nat) simp
  finally show ?thesis by (simp only: rd_be24_be24)
qed

lemma unat_drop8: "unat (drop_bit 8 x) = unat x div 256" for x :: u64
proof -
  have "unat (drop_bit 8 x) = drop_bit 8 (unat x)"
    by (rule unat_drop_bit_eq)
  then show ?thesis by (simp only: drop_bit_eq_div) simp
qed

text \<open>The bytes the loop produces, as a recursion on the number.\<close>

function be_min :: "u64 \<Rightarrow> bytes" where
  "be_min x = (if drop_bit 8 x = 0 then [ucast (x AND 0xFF)]
               else be_min (drop_bit 8 x) @ [ucast (x AND 0xFF)])"
  by pat_completeness auto
termination
proof (relation "measure unat")
  fix x :: u64 assume nz: "drop_bit 8 x \<noteq> 0"
  from nz have "x \<noteq> 0" by auto
  then have "0 < unat x" by (simp add: unat_gt_0)
  then show "(drop_bit 8 x, x) \<in> measure unat" by (simp add: unat_drop8)
qed simp

declare be_min.simps [simp del]

lemma uint_loop_be_min:
  assumes "length tmp = 8" and "n < 8" and "unat x < 256 ^ (8 - n)" and "uint_loop tmp n x = (tmp', n')"
  shows "length tmp' = 8 \<and> n' \<le> 8 \<and> drop (8 - n') tmp' = be_min x @ drop (8 - n) tmp"
  using assms
proof (induction tmp n x arbitrary: tmp' n' rule: uint_loop.induct)
  case (1 tmp n x)
  let ?tmp = "tmp[7 - n := ucast (x AND 0xFF)]"
  have set: "drop (7 - n) ?tmp = ucast (x AND 0xFF) # drop (8 - n) tmp"
  proof -
    have "7 - n < length ?tmp" and s: "Suc (7 - n) = 8 - n" using "1.prems" by auto
    then have "drop (7 - n) ?tmp = ?tmp ! (7 - n) # drop (8 - n) ?tmp"
      using Cons_nth_drop_Suc [of "7 - n" ?tmp] by simp
    then show ?thesis using "1.prems" by (simp add: drop_update_cancel)
  qed
  show ?case
  proof (cases "drop_bit 8 x = 0")
    case True
    then have "tmp' = ?tmp" "n' = n + 1"
      using "1.prems" by (simp_all add: uint_loop.simps [of tmp n x] Let_def)
    then show ?thesis using "1.prems" set True by (simp add: be_min.simps [of x])
  next
    case False
    have "n + 1 < 8"
    proof (rule ccontr)
      assume "\<not> n + 1 < 8"
      then have "n = 7" using "1.prems" by simp
      then have "unat x < 256" using "1.prems" by simp
      then have "unat (drop_bit 8 x) = 0" by (simp add: unat_drop8)
      then show False using False by (simp add: unat_eq_zero)
    qed
    have "8 - n = Suc (8 - (n + 1))" using \<open>n + 1 < 8\<close> by simp
    then have "unat x < 256 ^ (8 - (n + 1)) * 256" using "1.prems" by simp
    then have small: "unat (drop_bit 8 x) < 256 ^ (8 - (n + 1))"
      by (simp add: unat_drop8 div_less_iff_less_mult)
    have eq: "uint_loop ?tmp (n + 1) (drop_bit 8 x) = (tmp', n')"
      using "1.prems" False \<open>n + 1 < 8\<close> by (simp add: uint_loop.simps [of tmp n x] Let_def)
    have "length tmp' = 8 \<and> n' \<le> 8
        \<and> drop (8 - n') tmp' = be_min (drop_bit 8 x) @ drop (8 - (n + 1)) ?tmp"
      using "1.IH" [OF refl refl refl _ _ _ small eq] False \<open>n + 1 < 8\<close> "1.prems"
      by simp
    then show ?thesis using set False by (simp add: be_min.simps [of x])
  qed
qed

lemma be_uint_snoc: "be_uint (bs @ [b]) = push_bit 8 (be_uint bs) OR ucast b"
  by (simp add: be_uint_def)

lemma be_uint_be_min [simp]: "be_uint (be_min x) = x"
proof (induction x rule: be_min.induct)
  case (1 x)
  have low: "push_bit 8 (drop_bit 8 x) OR ucast (ucast (x AND 0xFF) :: u8) = x"
    by (rule bit_word_eqI) (auto simp: word_bits)
  show ?case
  proof (cases "drop_bit 8 x = 0")
    case True
    then show ?thesis using low by (simp add: be_min.simps [of x] be_uint_def)
  next
    case False
    then show ?thesis using low "1.IH" by (simp add: be_min.simps [of x] be_uint_snoc)
  qed
qed

section \<open>Values, entries and messages survive the wire\<close>

text \<open>
  A value is well formed when it uses only the field its type selects; a message when its keys
  are distinct, as in any map, and only the argument list its options select is used.
\<close>

definition value_wf :: "bus_value \<Rightarrow> bool" where
  "value_wf v \<longleftrightarrow> (if v_type v = VT_String \<or> v_type v = VT_Binary then v_u v = 0 else v_bin v = [])"

definition message_wf :: "bus_message \<Rightarrow> bool" where
  "message_wf m \<longleftrightarrow> distinct (map fst (m_args_map m))
     \<and> (\<forall>(k, v) \<in> set (m_args_map m). value_wf v) \<and> (\<forall>v \<in> set (m_args_array m). value_wf v)
     \<and> (m_options m = 0 \<longrightarrow> m_args_array m = []) \<and> (m_options m = 1 \<longrightarrow> m_args_map m = [])"

definition value_payload :: "bus_value \<Rightarrow> bytes" where
  "value_payload v = (if v_type v = VT_String \<or> v_type v = VT_Binary then v_bin v else be_min (v_u v))"

definition value_bytes :: "bus_value \<Rightarrow> bytes" where
  "value_bytes v = [v_type v] @ be24 (of_nat (length (value_payload v))) @ value_payload v"

lemma uint_loop_start:
  assumes "uint_loop (replicate 8 0) 0 x = (tmp, n)"
  shows "drop (8 - length (be_min x)) tmp = be_min x \<and> n = length (be_min x) \<and> n \<le> 8"
proof -
  have "unat x < 256 ^ (8 - 0)" using unsigned_less [of x] by simp
  from uint_loop_be_min [OF _ _ this assms]
  have "length tmp = 8" "n \<le> 8" "drop (8 - n) tmp = be_min x" by simp_all
  then show ?thesis by (metis diff_diff_cancel length_drop)
qed

lemma length_be_min_le: "length (be_min x) \<le> 8"
  using uint_loop_start [of x "fst (uint_loop (replicate 8 0) 0 x)" "snd (uint_loop (replicate 8 0) 0 x)"]
  by simp

lemma encode_value_eq:
  "encode_value out v =
     (if length (value_payload v) > 0xFFFFFF then Inl Value_too_large else Inr (out @ value_bytes v))"
proof (cases "v_type v = VT_String \<or> v_type v = VT_Binary")
  case True
  then show ?thesis
    by (simp add: encode_value_def value_bytes_def value_payload_def wr_be24_eq)
next
  case False
  obtain tmp n where l: "uint_loop (replicate 8 0) 0 (v_u v) = (tmp, n)" by fastforce
  show ?thesis
    using False uint_loop_start [OF l] length_be_min_le [of "v_u v"] l
    by (simp add: encode_value_def value_bytes_def value_payload_def wr_be24_eq)
qed

lemma bytes_at_hit: "length pre = k \<Longrightarrow> length b = n \<Longrightarrow> bytes_at (pre @ b @ post) k n = Inr b"
  by (simp add: bytes_at_def slice_hit)

lemma byte_at_hit: "length pre = k \<Longrightarrow> byte_at (pre @ b # post) k = Inr b"
  by (simp add: byte_at_def nth_append)

lemma decode_value_bytes:
  assumes "value_wf v" and "length (value_payload v) \<le> 0xFFFFFF"
    and "length pre + length (value_bytes v) \<le> len"
  shows "decode_value t (pre @ value_bytes v @ post) len (length pre)
    = Inr (v, length pre + length (value_bytes v))"
proof -
  let ?p = "value_payload v"
  let ?l = "be24 (of_nat (length ?p))"
  have data: "pre @ value_bytes v @ post = pre @ v_type v # ?l @ ?p @ post"
    by (simp add: value_bytes_def)
  have "byte_at (pre @ v_type v # ?l @ ?p @ post) (length pre) = Inr (v_type v)"
    by (simp add: byte_at_hit)
  moreover have "bytes_at (pre @ v_type v # ?l @ ?p @ post) (length pre + 1) 3 = Inr ?l"
    using bytes_at_hit [of "pre @ [v_type v]" _ ?l] by simp
  moreover have "bytes_at (pre @ v_type v # ?l @ ?p @ post) (length pre + 1 + 3) (length ?p) = Inr ?p"
    using bytes_at_hit [of "pre @ [v_type v] @ ?l" _ ?p] by simp
  moreover have "unat (rd_be24 ?l) = length ?p" using assms(2) by (rule rd_be24_of_nat)
  moreover have "length (value_bytes v) = 4 + length ?p" by (simp add: value_bytes_def)
  ultimately show ?thesis
    using assms by (simp add: decode_value_def data value_wf_def value_payload_def Let_def split: if_splits)
qed

definition entry_bytes :: "string \<times> bus_value \<Rightarrow> bytes" where
  "entry_bytes e = [of_nat (length (fst e))] @ bytes_of_string (fst e) @ value_bytes (snd e)"

definition entry_wf :: "string \<times> bus_value \<Rightarrow> bool" where
  "entry_wf e \<longleftrightarrow> value_wf (snd e) \<and> length (fst e) \<le> 255 \<and> length (value_payload (snd e)) \<le> 0xFFFFFF"

lemma length_entry_bytes: "length (entry_bytes (k, v)) = 1 + length k + length (value_bytes v)"
  by (simp add: entry_bytes_def wire_len)

lemma encode_map_eq:
  "encode_map out es = Inr out' \<longleftrightarrow>
     out' = out @ concat (map entry_bytes es)
     \<and> (\<forall>e \<in> set es. length (fst e) \<le> 255 \<and> length (value_payload (snd e)) \<le> 0xFFFFFF)"
proof (induction es arbitrary: out)
  case Nil
  then show ?case by auto
next
  case (Cons e es)
  obtain k v where e: "e = (k, v)" by fastforce
  show ?case by (auto simp: e Cons.IH encode_value_eq entry_bytes_def)
qed

lemma decode_map_entry:
  assumes "entry_wf (k, v)" and "length pre + length (entry_bytes (k, v)) \<le> len"
  shows "decode_map (pre @ entry_bytes (k, v) @ post) len (length pre) m
    = decode_map (pre @ entry_bytes (k, v) @ post) len (length pre + length (entry_bytes (k, v)))
        (emplace m k v)"
proof -
  let ?d = "pre @ entry_bytes (k, v) @ post"
  let ?n = "of_nat (length k) :: u8"
  have n: "unat ?n = length k" using assms(1) by (simp add: entry_wf_def unat_of_nat)
  have d: "?d = pre @ ?n # bytes_of_string k @ value_bytes v @ post"
    by (simp add: entry_bytes_def)
  have "byte_at ?d (length pre) = Inr ?n" by (simp add: d byte_at_hit)
  moreover have "bytes_at ?d (length pre + 1) (length k) = Inr (bytes_of_string k)"
    using bytes_at_hit [of "pre @ [?n]" _ "bytes_of_string k"] by (simp add: d wire_len)
  moreover have "decode_value Truncated_map_value ?d len (length pre + 1 + length k)
      = Inr (v, length pre + length (entry_bytes (k, v)))"
    using decode_value_bytes [of v "pre @ [?n] @ bytes_of_string k" len Truncated_map_value post] assms
    by (simp add: d entry_wf_def length_entry_bytes wire_len add.assoc)
  moreover have "length pre + 1 + length k + 1 + 3 \<le> len"
    using assms(2) by (simp add: length_entry_bytes value_bytes_def)
  ultimately show ?thesis
    by (subst decode_map.simps) (simp add: n)
qed

lemma emplace_fresh: "k \<notin> fst ` set m \<Longrightarrow> emplace m k v = m @ [(k, v)]"
  by (simp add: emplace_def)

lemma decode_map_concat:
  assumes "\<forall>e \<in> set es. entry_wf e" and "distinct (map fst (m @ es))"
    and "len = length pre + length (concat (map entry_bytes es))"
  shows "decode_map (pre @ concat (map entry_bytes es) @ post) len (length pre) m = Inr (m @ es)"
  using assms
proof (induction es arbitrary: pre m)
  case Nil
  then show ?case by (subst decode_map.simps) simp
next
  case (Cons e es)
  obtain k v where e: "e = (k, v)" by fastforce
  let ?b = "entry_bytes (k, v)" and ?r = "concat (map entry_bytes es)"
  have fresh: "k \<notin> fst ` set m" using Cons.prems(2) by (auto simp: e)
  have "decode_map (pre @ ?b @ ?r @ post) len (length pre) m
      = decode_map (pre @ ?b @ ?r @ post) len (length pre + length ?b) (m @ [(k, v)])"
    using decode_map_entry [of k v pre len "?r @ post" m] Cons.prems
    by (simp add: e emplace_fresh [OF fresh])
  also have "\<dots> = Inr ((m @ [(k, v)]) @ es)"
    using Cons.IH [of "m @ [(k, v)]" "pre @ ?b"] Cons.prems by (simp add: e)
  finally show ?case by (simp add: e)
qed

lemma encode_array_eq:
  "encode_array out vs = Inr out' \<longleftrightarrow>
     out' = out @ concat (map value_bytes vs) \<and> (\<forall>v \<in> set vs. length (value_payload v) \<le> 0xFFFFFF)"
  by (induction vs arbitrary: out) (auto simp: encode_value_eq)

lemma decode_array_concat:
  assumes "\<forall>v \<in> set vs. value_wf v \<and> length (value_payload v) \<le> 0xFFFFFF"
    and "len = length pre + length (concat (map value_bytes vs))"
  shows "decode_array (pre @ concat (map value_bytes vs) @ post) len (length pre) ws = Inr (ws @ vs)"
  using assms
proof (induction vs arbitrary: pre ws)
  case Nil
  then show ?case by (subst decode_array.simps) simp
next
  case (Cons v vs)
  let ?r = "concat (map value_bytes vs)"
  have "decode_value Truncated_array_value (pre @ value_bytes v @ ?r @ post) len (length pre)
      = Inr (v, length pre + length (value_bytes v))"
    using Cons.prems by (intro decode_value_bytes) simp_all
  moreover have "length pre + 1 + 3 \<le> len" using Cons.prems by (simp add: value_bytes_def)
  ultimately have "decode_array (pre @ value_bytes v @ ?r @ post) len (length pre) ws
      = decode_array (pre @ value_bytes v @ ?r @ post) len (length pre + length (value_bytes v)) (ws @ [v])"
    by (subst decode_array.simps) simp
  also have "\<dots> = Inr ((ws @ [v]) @ vs)"
    using Cons.IH [of "pre @ value_bytes v" "ws @ [v]"] Cons.prems by simp
  finally show ?case by simp
qed

lemma patch_len_eq: "patch_len ([a, b, c, d] @ r) = be32 (of_nat (length r + 4)) @ r"
  by (simp add: patch_len_def be32_def wr_be32_def Let_def add.commute)

text \<open>The argument bytes of a message, after the header and the identifier.\<close>

definition args_bytes :: "bus_message \<Rightarrow> bytes" where
  "args_bytes m = (if m_options m = 0 then concat (map entry_bytes (m_args_map m))
                   else concat (map value_bytes (m_args_array m)))"

definition body_bytes :: "bus_message \<Rightarrow> bytes" where
  "body_bytes m = [m_options m] @ [of_nat (length (m_messageID m))] @ bytes_of_string (m_messageID m)
                  @ args_bytes m"

lemma encode_InrD:
  assumes "encode m = Inr bs"
  shows "bs = be32 (of_nat (length (body_bytes m) + 4)) @ body_bytes m"
    and "length (m_messageID m) \<le> 255" and "m_options m = 0 \<or> m_options m = 1"
    and "m_options m = 0 \<Longrightarrow> \<forall>e \<in> set (m_args_map m).
           length (fst e) \<le> 255 \<and> length (value_payload (snd e)) \<le> 0xFFFFFF"
    and "m_options m = 1 \<Longrightarrow> \<forall>v \<in> set (m_args_array m). length (value_payload v) \<le> 0xFFFFFF"
proof -
  let ?hd = "be32 0 @ [m_options m] @ [of_nat (length (m_messageID m))] @ bytes_of_string (m_messageID m)"
  let ?enc = "if m_options m = 0 then encode_map ?hd (m_args_map m) else encode_array ?hd (m_args_array m)"
  from assms obtain out where out: "?enc = Inr out" and bs: "bs = patch_len out"
    by (auto simp: encode_def wr_be32_eq split: if_splits sum.splits)
  show "length (m_messageID m) \<le> 255" and "m_options m = 0 \<or> m_options m = 1"
    using assms by (auto simp: encode_def split: if_splits)
  show "m_options m = 0 \<Longrightarrow> \<forall>e \<in> set (m_args_map m).
           length (fst e) \<le> 255 \<and> length (value_payload (snd e)) \<le> 0xFFFFFF"
    and "m_options m = 1 \<Longrightarrow> \<forall>v \<in> set (m_args_array m). length (value_payload v) \<le> 0xFFFFFF"
    using out by (simp_all add: encode_map_eq encode_array_eq)
  have "out = be32 0 @ body_bytes m"
    using out by (simp add: encode_map_eq encode_array_eq body_bytes_def args_bytes_def split: if_splits)
  moreover have "be32 0 = [0, 0, 0, 0]" by (simp add: be32_def wr_be32_def)
  ultimately have "out = [0, 0, 0, 0] @ body_bytes m" by simp
  then show "bs = be32 (of_nat (length (body_bytes m) + 4)) @ body_bytes m"
    using bs by (simp only: patch_len_eq)
qed

lemma decode_args:
  assumes enc: "encode m = Inr bs" and wf: "message_wf m"
    and hd: "length pre = 6 + length (m_messageID m)" and tot: "len = length pre + length (args_bytes m)"
  shows "m_options m = 0 \<Longrightarrow> decode_map (pre @ args_bytes m @ post) len (length pre) [] = Inr (m_args_map m)"
    and "m_options m = 1 \<Longrightarrow> decode_array (pre @ args_bytes m @ post) len (length pre) [] = Inr (m_args_array m)"
proof -
  assume o: "m_options m = 0"
  have "\<forall>e \<in> set (m_args_map m). entry_wf e"
    using encode_InrD(4) [OF enc o] wf by (auto simp: entry_wf_def message_wf_def)
  with decode_map_concat [of "m_args_map m" "[]" len pre post] wf tot o
  show "decode_map (pre @ args_bytes m @ post) len (length pre) [] = Inr (m_args_map m)"
    by (simp add: args_bytes_def message_wf_def)
next
  assume o: "m_options m = 1"
  have "\<forall>v \<in> set (m_args_array m). value_wf v \<and> length (value_payload v) \<le> 0xFFFFFF"
    using encode_InrD(5) [OF enc o] wf by (auto simp: message_wf_def)
  with decode_array_concat [of "m_args_array m" len pre post "[]"] tot o
  show "decode_array (pre @ args_bytes m @ post) len (length pre) [] = Inr (m_args_array m)"
    by (simp add: args_bytes_def)
qed

lemma decode_encode:
  assumes enc: "encode m = Inr bs" and wf: "message_wf m" and small: "length bs < 2 ^ 32"
  shows "decode (bs @ rest) = Inr (m, length bs)"
proof -
  define l :: u32 where "l = of_nat (length (body_bytes m) + 4)"
  let ?mid = "bytes_of_string (m_messageID m)"
  let ?n = "of_nat (length (m_messageID m)) :: u8"
  let ?d = "bs @ rest"
  note D = encode_InrD [OF enc]
  have bs: "bs = be32 l @ [m_options m] @ [?n] @ ?mid @ args_bytes m"
    using D(1) by (simp only: l_def body_bytes_def)
  have n: "unat ?n = length (m_messageID m)" using D(2) by (simp add: unat_of_nat)
  have len: "unat l = length bs"
    using small D(1) by (simp add: l_def unat_of_nat del: of_nat_add)
  define pre where "pre = be32 l @ [m_options m] @ [?n] @ ?mid"
  have pre: "length pre = 6 + length (m_messageID m)" by (simp add: pre_def wire_len)
  have d: "?d = pre @ args_bytes m @ rest" by (simp add: bs pre_def)
  have tot: "length bs = length pre + length (args_bytes m)" by (simp add: bs pre_def)
  have "bytes_at ?d 0 4 = Inr (be32 l)"
    using bytes_at_hit [of "[]" 0 "be32 l"] by (simp add: bs)
  moreover have "byte_at ?d 4 = Inr (m_options m)"
    using byte_at_hit [of "be32 l" 4] by (simp add: bs)
  moreover have "byte_at ?d 5 = Inr ?n"
    using byte_at_hit [of "be32 l @ [m_options m]" 5] by (simp add: bs)
  moreover have "bytes_at ?d 6 (length (m_messageID m)) = Inr ?mid"
    using bytes_at_hit [of "be32 l @ [m_options m] @ [?n]" 6 ?mid] by (simp add: bs wire_len)
  moreover have "6 \<le> length ?d" "6 + length (m_messageID m) \<le> length bs"
    using pre tot by simp_all
  moreover have "m_options m = 0 \<Longrightarrow>
      decode_map ?d (length bs) (6 + length (m_messageID m)) [] = Inr (m_args_map m)"
    and "m_options m = 1 \<Longrightarrow>
      decode_array ?d (length bs) (6 + length (m_messageID m)) [] = Inr (m_args_array m)"
    using decode_args [OF enc wf pre tot, of rest] by (simp_all only: d pre)
  ultimately show ?thesis
    using D(3) wf by (cases "m_options m = 0")
      (simp_all add: decode_def Let_def n len message_wf_def)
qed

section \<open>Memory safety and bounds of the decoder\<close>

lemma byte_at_bounds: "i < length data \<Longrightarrow> \<exists>b. byte_at data i = Inr b"
  by (simp add: byte_at_def)

lemma bytes_at_bounds: "i + n \<le> length data \<Longrightarrow> \<exists>b. bytes_at data i n = Inr b"
  by (simp add: bytes_at_def)

lemma decode_value_safe:
  assumes "off + 4 \<le> len" and "len \<le> length data" and "t \<noteq> Out_of_bounds"
  shows "decode_value t data len off \<noteq> Inl Out_of_bounds"
  using assms by (auto simp: decode_value_def byte_at_def bytes_at_def Let_def split: if_splits)

lemma decode_map_safe:
  "len \<le> length data \<Longrightarrow> decode_map data len off m \<noteq> Inl Out_of_bounds"
proof (induction data len off m rule: decode_map.induct)
  case (1 data len off m)
  show ?case
  proof (cases "off < len")
    case False
    then show ?thesis by (simp add: decode_map.simps [of data len off m])
  next
    case True
    then obtain k where k: "byte_at data off = Inr k"
      using "1.prems" byte_at_bounds [of off data] by auto
    show ?thesis
    proof (cases "off + 1 + unat k + 1 + 3 > len")
      case True
      then show ?thesis using k \<open>off < len\<close> by (simp add: decode_map.simps [of data len off m])
    next
      case False
      then obtain key where key: "bytes_at data (off + 1) (unat k) = Inr key"
        using "1.prems" bytes_at_bounds [of "off + 1" "unat k" data] by auto
      have "decode_value Truncated_map_value data len (off + 1 + unat k) \<noteq> Inl Out_of_bounds"
        using False "1.prems" by (intro decode_value_safe) simp_all
      then show ?thesis
        using k key False \<open>off < len\<close> "1.prems" "1.IH"
        by (subst decode_map.simps) (auto split: sum.split)
    qed
  qed
qed

lemma decode_array_safe:
  "len \<le> length data \<Longrightarrow> decode_array data len off vs \<noteq> Inl Out_of_bounds"
proof (induction data len off vs rule: decode_array.induct)
  case (1 data len off vs)
  show ?case
  proof (cases "off < len \<and> off + 1 + 3 \<le> len")
    case False
    then show ?thesis by (auto simp: decode_array.simps [of data len off vs])
  next
    case True
    then have "decode_value Truncated_array_value data len off \<noteq> Inl Out_of_bounds"
      using "1.prems" by (intro decode_value_safe) simp_all
    then show ?thesis
      using True "1.prems" "1.IH" by (subst decode_array.simps) (auto split: sum.split)
  qed
qed

lemma decode_consumes:
  "decode data = Inr (m, n) \<Longrightarrow> 6 \<le> n \<and> n \<le> length data \<and> n = unat (rd_be32 (take 4 data))"
  by (auto simp: decode_def bytes_at_def byte_at_def Let_def not_less
      split: if_splits sum.splits)

section \<open>Properties\<close>

text \<open>
  C17: Decoding never reads outside the buffer: whatever bytes arrive, every access of \<open>decode\<close>
  lies inside the input, the loops terminate (the function is total), and when a message comes
  out, the count of consumed bytes is the length the frame announces and at most the bytes there.
\<close>

theorem bus_decode_safe:
  "decode data \<noteq> Inl Out_of_bounds
   \<and> (case decode data of Inl _ \<Rightarrow> True
       | Inr (m, n) \<Rightarrow> 6 \<le> n \<and> n \<le> length data \<and> n = unat (rd_be32 (take 4 data)))"
proof
  show "decode data \<noteq> Inl Out_of_bounds"
    using decode_map_safe [of _ data] decode_array_safe [of _ data]
    by (auto simp: decode_def bytes_at_def byte_at_def Let_def not_less split: sum.split)
  show "case decode data of Inl _ \<Rightarrow> True
       | Inr (m, n) \<Rightarrow> 6 \<le> n \<and> n \<le> length data \<and> n = unat (rd_be32 (take 4 data))"
    using decode_consumes by (auto split: sum.split)
qed

text \<open>
  C16: What one side encodes the other decodes: for every well-formed message that \<open>encode\<close>
  accepts and whose frame is shorter than 4 GiB, \<open>decode\<close> of the frame, whatever follows it in
  the buffer, returns the same message and consumes exactly the frame.
\<close>

theorem bus_roundtrip:
  assumes "encode m = Inr bs" and "message_wf m" and "length bs < 2 ^ 32"
  shows "decode (bs @ rest) = Inr (m, length bs)"
  using assms by (rule decode_encode)

text \<open>An OpenKore query: a map with the one binary argument \<open>packet\<close>.\<close>

definition QueryId :: string where "QueryId = ''Poseidon Query''"
definition ReplyId :: string where "ReplyId = ''Poseidon Reply''"
definition PacketKey :: string where "PacketKey = ''packet''"
definition MapOptions :: u8 where "MapOptions = 0"

definition packet_message :: "string \<Rightarrow> bytes \<Rightarrow> bus_message" where
  "packet_message mid blob =
     \<lparr>m_options = MapOptions, m_messageID = mid,
      m_args_map = emplace [] PacketKey \<lparr>v_type = VT_Binary, v_bin = blob, v_u = 0\<rparr>,
      m_args_array = []\<rparr>"

lemma packet_message_wf: "message_wf (packet_message mid blob)"
  by (simp add: message_wf_def packet_message_def value_wf_def emplace_def MapOptions_def)

lemma encode_packet_message:
  assumes "length mid \<le> 255" and "length blob \<le> 0xFFFFFF"
  shows "encode (packet_message mid blob)
    = Inr (be32 (of_nat (length blob + length mid + 17)) @ body_bytes (packet_message mid blob))
    \<and> length (body_bytes (packet_message mid blob)) = length blob + length mid + 13"
proof -
  let ?v = "\<lparr>v_type = VT_Binary, v_bin = blob, v_u = 0\<rparr>"
  let ?b = "body_bytes (packet_message mid blob)"
  have be0: "be32 0 = [0, 0, 0, 0]" by (simp add: be32_def wr_be32_def)
  have b: "?b = [0] @ [of_nat (length mid)] @ bytes_of_string mid @ entry_bytes (PacketKey, ?v)"
    by (simp add: body_bytes_def args_bytes_def packet_message_def emplace_def MapOptions_def)
  have len: "length ?b = length blob + length mid + 13"
    by (simp add: b length_entry_bytes value_bytes_def value_payload_def PacketKey_def wire_len)
  have "encode_map (be32 0 @ [0] @ [of_nat (length mid)] @ bytes_of_string mid) [(PacketKey, ?v)]
      = Inr (be32 0 @ ?b)"
    using assms(2) by (subst encode_map_eq) (simp add: b PacketKey_def value_payload_def)
  then have "encode (packet_message mid blob) = Inr (patch_len ([0, 0, 0, 0] @ ?b))"
    using assms(1)
    by (simp add: encode_def wr_be32_eq packet_message_def emplace_def MapOptions_def be0
        del: encode_map.simps)
  then show ?thesis
    by (simp only: patch_len_eq len) (simp add: add.assoc)
qed

theorem bus_roundtrip_witness:
  "\<exists>bs. encode (packet_message QueryId [0xCF, 0x09, 0x05, 0x00, 0x2A]) = Inr bs \<and> length bs = 36
     \<and> decode (bs @ [1, 2, 3]) = Inr (packet_message QueryId [0xCF, 0x09, 0x05, 0x00, 0x2A], 36)"
proof -
  let ?m = "packet_message QueryId [0xCF, 0x09, 0x05, 0x00, 0x2A]"
  obtain bs where bs: "encode ?m = Inr bs" and len: "length bs = 36"
    using encode_packet_message [of QueryId "[0xCF, 0x09, 0x05, 0x00, 0x2A]"]
    by (simp add: QueryId_def)
  have "length bs < 2 ^ 32" by (simp add: len)
  from bus_roundtrip [OF bs packet_message_wf this, of "[1, 2, 3]"] bs len
  show ?thesis by auto
qed

end
