(* ===== verification/Framing.thy ===== *)
theory Framing
  imports Prelude
begin

text \<open>
  The contract between a byte stream and the code that cuts frames off its front. Both query
  front ends of the program frame a TCP stream by a length prefix: \<open>QueryHandler::on_data\<close> with a
  little-endian 16-bit size, \<open>QueryServer\<close> with a big-endian 32-bit one. The locales state what
  such a cutter promises and derive that the frames seen do not depend on how TCP cut the
  stream into reads; each front end interprets them on its own cutter.
\<close>

datatype cut_result =
    Need_more
  | Bad_header
  | Cut (cut_frame: bytes) (cut_rest: bytes)

locale cutter =
  fixes cut :: "bytes \<Rightarrow> cut_result"
  assumes cut_split: "cut b = Cut f r \<Longrightarrow> b = f @ r \<and> f \<noteq> []"
    and cut_stable: "cut b = Cut f r \<Longrightarrow> cut (b @ x) = Cut f (r @ x)"
    and bad_stable: "cut b = Bad_header \<Longrightarrow> cut (b @ x) = Bad_header"
begin

lemma cut_shrinks: "cut b = Cut f r \<Longrightarrow> length r < length b"
  using cut_split by fastforce

text \<open>A frame is determined by any stream it begins: no two cuts of extensions disagree.\<close>

lemma cut_prefix_unique:
  "cut b = Cut f r \<Longrightarrow> cut (b @ x) = Cut g s \<Longrightarrow> g = f \<and> s = r @ x"
  using cut_stable by fastforce

end

text \<open>
  A drain takes every complete frame off a buffer: the frames, what stays buffered, and whether
  the loop ended on a bad header.
\<close>

locale deframer = cutter cut
  for cut :: "bytes \<Rightarrow> cut_result" +
  fixes drain :: "bytes \<Rightarrow> bytes list \<times> bytes \<times> bool"
  assumes drain_unfold: "drain b =
      (case cut b of
         Need_more \<Rightarrow> ([], b, False)
       | Bad_header \<Rightarrow> ([], [], True)
       | Cut f r \<Rightarrow> (let (fs, rest, bad) = drain r in (f # fs, rest, bad)))"
begin

lemma drain_need [simp]: "cut b = Need_more \<Longrightarrow> drain b = ([], b, False)"
  by (subst drain_unfold) simp

lemma drain_bad [simp]: "cut b = Bad_header \<Longrightarrow> drain b = ([], [], True)"
  by (subst drain_unfold) simp

lemma drain_cut:
  "cut b = Cut f r \<Longrightarrow> drain b = (f # fst (drain r), fst (snd (drain r)), snd (snd (drain r)))"
  by (subst drain_unfold) (simp add: split_beta Let_def)

lemma drain_induct [case_names need bad cut]:
  assumes "\<And>b. cut b = Need_more \<Longrightarrow> P b" and "\<And>b. cut b = Bad_header \<Longrightarrow> P b"
    and "\<And>b f r. cut b = Cut f r \<Longrightarrow> P r \<Longrightarrow> P b"
  shows "P b"
proof (induction "length b" arbitrary: b rule: less_induct)
  case less
  show ?case
  proof (cases "cut b")
    case (Cut f r)
    then show ?thesis using assms(3) [OF Cut] less cut_shrinks [OF Cut] by blast
  qed (use assms in blast)+
qed

text \<open>What stays buffered has no complete frame in it.\<close>

lemma drain_rest: "cut (fst (snd (drain b))) = Need_more \<or> snd (snd (drain b))"
  by (induction b rule: drain_induct) (simp_all add: drain_cut)

text \<open>The buffer is the frames, in order, followed by what stays, unless a bad header ended it.\<close>

lemma drain_concat: "\<not> snd (snd (drain b)) \<Longrightarrow> b = concat (fst (drain b)) @ fst (snd (drain b))"
proof (induction b rule: drain_induct)
  case (cut b f r)
  then show ?case using cut_split [OF cut(1)] by (simp add: drain_cut)
qed simp_all

lemma drain_append:
  assumes "\<not> snd (snd (drain b))"
  shows "drain (b @ x) = (fst (drain b) @ fst (drain (fst (snd (drain b)) @ x)),
                          snd (drain (fst (snd (drain b)) @ x)))"
  using assms
proof (induction b rule: drain_induct)
  case (cut b f r)
  then show ?case by (simp add: drain_cut cut_stable [OF cut(1)])
qed simp_all

lemma drain_append_bad:
  assumes "snd (snd (drain b))"
  shows "drain (b @ x) = drain b"
  using assms
proof (induction b rule: drain_induct)
  case (cut b f r)
  then show ?case by (simp add: drain_cut cut_stable [OF cut(1)])
qed (simp_all add: bad_stable)

lemma drain_prefix_good: "\<not> snd (snd (drain (b @ x))) \<Longrightarrow> \<not> snd (snd (drain b))"
  using drain_append_bad by metis

text \<open>Frames put one after the other come back as they were.\<close>

lemma drain_frames:
  assumes "\<forall>f \<in> set fs. cut f = Cut f []" and "cut [] = Need_more"
  shows "drain (concat fs) = (fs, [], False)"
  using assms(1)
proof (induction fs)
  case (Cons f fs)
  then have "cut (f @ concat fs) = Cut f ([] @ concat fs)" by (intro cut_stable) simp
  then show ?case using Cons by (simp add: drain_cut)
qed (simp add: assms(2))

text \<open>
  Reading the chunks one after the other, each appended to what the previous reads left, yields
  the frames of the whole stream.
\<close>

fun feed :: "bytes \<Rightarrow> bytes list \<Rightarrow> bytes list \<times> bytes" where
  "feed b [] = ([], b)"
| "feed b (c # cs) =
     (let (fs, r, bad) = drain (b @ c); (gs, r') = feed r cs in (fs @ gs, r'))"

lemma feed_drain:
  assumes "cut b = Need_more" and "\<not> snd (snd (drain (b @ concat cs)))"
  shows "feed b cs = (fst (drain (b @ concat cs)), fst (snd (drain (b @ concat cs))))"
  using assms
proof (induction cs arbitrary: b)
  case Nil
  then show ?case by simp
next
  case (Cons c cs)
  let ?r = "fst (snd (drain (b @ c)))"
  have whole: "\<not> snd (snd (drain ((b @ c) @ concat cs)))" using Cons.prems(2) by simp
  then have good: "\<not> snd (snd (drain (b @ c)))" by (rule drain_prefix_good)
  then have split: "drain ((b @ c) @ concat cs)
      = (fst (drain (b @ c)) @ fst (drain (?r @ concat cs)), snd (drain (?r @ concat cs)))"
    by (rule drain_append)
  have "cut ?r = Need_more" using drain_rest [of "b @ c"] good by blast
  moreover have "\<not> snd (snd (drain (?r @ concat cs)))" using whole split by simp
  ultimately have "feed ?r cs
      = (fst (drain (?r @ concat cs)), fst (snd (drain (?r @ concat cs))))"
    by (rule Cons.IH)
  then show ?case using split by (simp add: split_beta Let_def)
qed

end

end
