(* ===== verification/Registry.thy ===== *)
theory Registry
  imports Prelude
begin

text \<open>
  The session registry, \<open>application/state/SessionRegistry.hpp\<close>: the weak reference to the active
  client and the one-shot waiter for the next client-to-server bytes. A callback is a value of an
  arbitrary type; calling it is an output of the step. The mutex makes each locked region atomic,
  and \<open>notify_c2s\<close> has two of them: the second half of the theory splits it at that point and
  shows what two notifying threads can do.
\<close>

section \<open>State and operations\<close>

record 'cb registry =
  active_client :: "sid option"
  pending_pred :: "(bytes \<Rightarrow> bool) option"
  pending_cb :: "'cb option"

definition empty_registry :: "'cb registry" where
  "empty_registry = \<lparr>active_client = None, pending_pred = None, pending_cb = None\<rparr>"

definition set_active_client :: "'cb registry \<Rightarrow> sid option \<Rightarrow> 'cb registry" where
  "set_active_client r s = r\<lparr>active_client := s\<rparr>"

text \<open>\<open>weak_ptr::lock\<close>: the session if it is still alive.\<close>

definition weak_lock :: "(sid \<Rightarrow> bool) \<Rightarrow> sid option \<Rightarrow> sid option" where
  "weak_lock alive w = (case w of None \<Rightarrow> None | Some s \<Rightarrow> if alive s then Some s else None)"

definition get_active_client :: "(sid \<Rightarrow> bool) \<Rightarrow> 'cb registry \<Rightarrow> sid option" where
  "get_active_client alive r = weak_lock alive (active_client r)"

definition wait_next_c2s :: "'cb registry \<Rightarrow> (bytes \<Rightarrow> bool) \<Rightarrow> 'cb \<Rightarrow> 'cb registry" where
  "wait_next_c2s r predicate on_match = r\<lparr>pending_pred := Some predicate, pending_cb := Some on_match\<rparr>"

text \<open>The first locked region of \<open>notify_c2s\<close> copies the waiter, the second drops it.\<close>

definition peek_waiter :: "'cb registry \<Rightarrow> ((bytes \<Rightarrow> bool) \<times> 'cb) option" where
  "peek_waiter r =
     (case (pending_pred r, pending_cb r) of (Some p, Some c) \<Rightarrow> Some (p, c) | _ \<Rightarrow> None)"

definition drop_waiter :: "'cb registry \<Rightarrow> 'cb registry" where
  "drop_waiter r = r\<lparr>pending_pred := None, pending_cb := None\<rparr>"

definition notify_c2s :: "'cb registry \<Rightarrow> bytes \<Rightarrow> 'cb registry \<times> ('cb \<times> bytes) list" where
  "notify_c2s r bytes =
     (case peek_waiter r of
        None \<Rightarrow> (r, [])
      | Some (p, cb) \<Rightarrow> if p bytes then (drop_waiter r, [(cb, bytes)]) else (r, []))"

section \<open>One thread: the waiter fires at most once\<close>

datatype 'cb registry_event =
    Set_active "sid option"
  | Wait_next "bytes \<Rightarrow> bool" 'cb
  | Notify bytes

fun registry_step :: "'cb registry \<Rightarrow> 'cb registry_event \<Rightarrow> 'cb registry \<times> ('cb \<times> bytes) list" where
  "registry_step r (Set_active s) = (set_active_client r s, [])"
| "registry_step r (Wait_next p cb) = (wait_next_c2s r p cb, [])"
| "registry_step r (Notify bytes) = notify_c2s r bytes"

fun is_wait :: "'cb registry_event \<Rightarrow> bool" where
  "is_wait (Wait_next p cb) = True"
| "is_wait _ = False"

lemma notify_c2s_cases:
  obtains (quiet) "notify_c2s r b = (r, [])"
  | (fired) p cb where "peek_waiter r = Some (p, cb)" and "p b"
      and "notify_c2s r b = (drop_waiter r, [(cb, b)])"
proof (cases "peek_waiter r")
  case None
  then show ?thesis by (intro quiet) (simp add: notify_c2s_def)
next
  case (Some w)
  obtain p cb where w: "w = (p, cb)" by fastforce
  show ?thesis
  proof (cases "p b")
    case True
    then show ?thesis using Some w by (intro fired [of p cb]) (simp_all add: notify_c2s_def)
  next
    case False
    then show ?thesis using Some w by (intro quiet) (simp add: notify_c2s_def)
  qed
qed

lemma peek_drop [simp]: "peek_waiter (drop_waiter r) = None"
  by (simp add: peek_waiter_def drop_waiter_def)

lemma peek_wait [simp]: "peek_waiter (wait_next_c2s r p cb) = Some (p, cb)"
  by (simp add: peek_waiter_def wait_next_c2s_def)

lemma peek_set_active [simp]: "peek_waiter (set_active_client r s) = peek_waiter r"
  by (simp add: peek_waiter_def set_active_client_def)

interpretation waiter_budget: budget_machine registry_step "\<lambda>_. True" "\<lambda>_. 1"
  "\<lambda>r. of_bool (peek_waiter r \<noteq> None)" "\<lambda>e. of_bool (is_wait e)"
proof unfold_locales
  fix r :: "'cb registry" and e
  show "sum_list (map (\<lambda>_. 1) (snd (registry_step r e)))
      + of_bool (peek_waiter (fst (registry_step r e)) \<noteq> None)
      \<le> of_bool (peek_waiter r \<noteq> None) + (of_bool (is_wait e) :: nat)"
  proof (cases e)
    case (Notify b)
    then show ?thesis by (cases rule: notify_c2s_cases [of r b]) simp_all
  qed simp_all
qed simp

text \<open>
  A waiter fires once. Over any sequence of registrations, changes of the active client and
  notifications, started with no waiter, the number of callbacks called is at most the number
  of registrations.
\<close>

theorem waiter_fires_once:
  "length (snd (run registry_step empty_registry (es :: 'cb registry_event list)))
     \<le> length (filter is_wait es)"
proof -
  have "sum_list (map (\<lambda>_. 1) os) = length os" for os :: "('cb \<times> bytes) list"
    by (induction os) simp_all
  moreover have "peek_waiter (empty_registry :: 'cb registry) = None"
    by (simp add: empty_registry_def peek_waiter_def)
  ultimately show ?thesis
    using waiter_budget.pay_run [of "empty_registry :: 'cb registry" es]
    by (simp add: sum_list_of_bool)
qed

section \<open>Several threads\<close>

text \<open>
  A notifying thread is before its first lock, between the locks with the copied waiter, or done.
  The predicate runs unlocked between the two regions; the callback is called after the second.
\<close>

datatype 'cb notify_pc =
    Before bytes
  | Between "bytes \<Rightarrow> bool" 'cb bytes
  | Done

record 'cb threads =
  t_registry :: "'cb registry"
  pcs :: "nat \<Rightarrow> 'cb notify_pc"
  fired :: "('cb \<times> bytes) list"

inductive notify_step :: "'cb threads \<Rightarrow> 'cb threads \<Rightarrow> bool" where
  copy: "pcs s i = Before b \<Longrightarrow> peek_waiter (t_registry s) = Some (p, cb) \<Longrightarrow>
     notify_step s (s\<lparr>pcs := (pcs s)(i := Between p cb b)\<rparr>)"
| no_waiter: "pcs s i = Before b \<Longrightarrow> peek_waiter (t_registry s) = None \<Longrightarrow>
     notify_step s (s\<lparr>pcs := (pcs s)(i := Done)\<rparr>)"
| no_match: "pcs s i = Between p cb b \<Longrightarrow> \<not> p b \<Longrightarrow>
     notify_step s (s\<lparr>pcs := (pcs s)(i := Done)\<rparr>)"
| fire: "pcs s i = Between p cb b \<Longrightarrow> p b \<Longrightarrow>
     notify_step s (s\<lparr>t_registry := drop_waiter (t_registry s), pcs := (pcs s)(i := Done),
                      fired := fired s @ [(cb, b)]\<rparr>)"
| register: "notify_step s (s\<lparr>t_registry := wait_next_c2s (t_registry s) p cb\<rparr>)"

inductive notify_steps :: "'cb threads \<Rightarrow> 'cb threads \<Rightarrow> bool" where
  notify_none: "notify_steps s s"
| notify_more: "notify_step s t \<Longrightarrow> notify_steps t u \<Longrightarrow> notify_steps s u"

text \<open>
  A thread that runs its notification without interruption does exactly what \<open>notify_c2s\<close> says:
  on one thread the sequential model above is the behaviour.
\<close>

lemma notify_uninterrupted:
  assumes "pcs s i = Before b" and "notify_c2s (t_registry s) b = (r', os)"
  shows "notify_steps s (s\<lparr>t_registry := r', pcs := (pcs s)(i := Done), fired := fired s @ os\<rparr>)"
proof (cases "peek_waiter (t_registry s)")
  case None
  then have r: "r' = t_registry s" "os = []" using assms(2) by (simp_all add: notify_c2s_def)
  show ?thesis
    by (rule notify_more [OF notify_step.no_waiter [OF assms(1) None]])
       (simp add: r notify_none)
next
  case (Some pc)
  obtain p cb where pc: "pc = (p, cb)" by fastforce
  let ?t = "s\<lparr>pcs := (pcs s)(i := Between p cb b)\<rparr>"
  have t: "notify_step s ?t" using notify_step.copy [OF assms(1), of p cb] Some pc by simp
  have i: "pcs ?t i = Between p cb b" by simp
  show ?thesis
  proof (cases "p b")
    case True
    then have "r' = drop_waiter (t_registry s)" "os = [(cb, b)]"
      using assms(2) Some pc by (simp_all add: notify_c2s_def)
    then show ?thesis
      using notify_more [OF t notify_more [OF notify_step.fire [OF i True] notify_none]]
      by simp
  next
    case False
    then have "r' = t_registry s" "os = []" using assms(2) Some pc by (simp_all add: notify_c2s_def)
    then show ?thesis
      using notify_more [OF t notify_more [OF notify_step.no_match [OF i False] notify_none]]
      by simp
  qed
qed

text \<open>
  The two locked regions are not enough for two threads. From a registry with one waiter that
  accepts anything, two threads that both notify can both copy the waiter before either drops it,
  so that its callback is called twice, once with each thread's bytes.
\<close>

theorem waiter_fires_twice_concurrently:
  "\<exists>t. notify_steps
      \<lparr>t_registry = wait_next_c2s empty_registry (\<lambda>_. True) cb,
       pcs = (\<lambda>i. if i = 0 then Before b0 else if i = 1 then Before b1 else Done), fired = []\<rparr> t
    \<and> fired t = [(cb, b0), (cb, b1)]"
proof -
  let ?s = "\<lparr>t_registry = wait_next_c2s empty_registry (\<lambda>_. True) cb,
       pcs = (\<lambda>i. if i = 0 then Before b0 else if i = 1 then Before b1 else Done), fired = []\<rparr>"
  let ?T = "\<lambda>_ :: bytes. True"
  let ?s1 = "?s\<lparr>pcs := (pcs ?s)(0 := Between ?T cb b0)\<rparr>"
  let ?s2 = "?s1\<lparr>pcs := (pcs ?s1)(1 := Between ?T cb b1)\<rparr>"
  let ?s3 = "?s2\<lparr>t_registry := drop_waiter (t_registry ?s2), pcs := (pcs ?s2)(0 := Done), fired := fired ?s2 @ [(cb, b0)]\<rparr>"
  let ?s4 = "?s3\<lparr>t_registry := drop_waiter (t_registry ?s3), pcs := (pcs ?s3)(1 := Done), fired := fired ?s3 @ [(cb, b1)]\<rparr>"
  have "notify_step ?s ?s1" by (rule notify_step.copy) simp_all
  moreover have "notify_step ?s1 ?s2" by (rule notify_step.copy) simp_all
  moreover have "notify_step ?s2 ?s3" by (rule notify_step.fire) simp_all
  moreover have "notify_step ?s3 ?s4" by (rule notify_step.fire) simp_all
  ultimately have "notify_steps ?s ?s4"
    by (meson notify_more notify_none)
  then show ?thesis by (intro exI [of _ ?s4]) simp
qed

text \<open>
  A registration can get lost as well. When a waiter is registered after a notifying thread has copied the one
  before it and before that thread clears it, the second region drops the new waiter: its callback
  is not called for the packet, and no later packet finds it.
\<close>

theorem waiter_lost_by_late_clear:
  assumes "p b"
  shows "\<exists>t. notify_steps
      \<lparr>t_registry = wait_next_c2s empty_registry p cb, pcs = (\<lambda>i. if i = 0 then Before b else Done), fired = []\<rparr> t
    \<and> notify_steps \<lparr>t_registry = wait_next_c2s (t_registry t) p' cb', pcs = pcs t, fired = fired t\<rparr>
        \<lparr>t_registry = empty_registry, pcs = (\<lambda>i. Done), fired = [(cb, b)]\<rparr>"
proof -
  let ?s = "\<lparr>t_registry = wait_next_c2s empty_registry p cb, pcs = (\<lambda>i. if i = 0 then Before b else Done), fired = []\<rparr>"
  let ?t = "?s\<lparr>pcs := (pcs ?s)(0 := Between p cb b)\<rparr>"
  let ?u = "\<lparr>t_registry = wait_next_c2s (t_registry ?t) p' cb', pcs = pcs ?t, fired = fired ?t\<rparr>"
  let ?v = "?u\<lparr>t_registry := drop_waiter (t_registry ?u), pcs := (pcs ?u)(0 := Done), fired := fired ?u @ [(cb, b)]\<rparr>"
  have "notify_step ?s ?t" by (rule notify_step.copy) simp_all
  then have st: "notify_steps ?s ?t" by (rule notify_more) (rule notify_none)
  have "notify_step ?u ?v" by (rule notify_step.fire [of _ _ p]) (use assms in simp_all)
  then have "notify_steps ?u ?v" by (rule notify_more) (rule notify_none)
  moreover have "?v = \<lparr>t_registry = empty_registry, pcs = (\<lambda>i. Done), fired = [(cb, b)]\<rparr>"
    by (simp add: fun_eq_iff wait_next_c2s_def drop_waiter_def empty_registry_def)
  ultimately have "notify_steps ?u \<lparr>t_registry = empty_registry, pcs = (\<lambda>i. Done), fired = [(cb, b)]\<rparr>" by (simp only:)
  with st show ?thesis by (intro exI [of _ ?t] conjI)
qed

lemma waiter_lost_by_late_clear_witness:
  "\<exists>t :: string threads. notify_steps
      \<lparr>t_registry = wait_next_c2s empty_registry (\<lambda>_. True) ''old'', pcs = (\<lambda>i. if i = 0 then Before [1] else Done), fired = []\<rparr> t
    \<and> notify_steps \<lparr>t_registry = wait_next_c2s (t_registry t) (\<lambda>_. True) ''new'', pcs = pcs t, fired = fired t\<rparr>
        \<lparr>t_registry = empty_registry, pcs = (\<lambda>i. Done), fired = [(''old'', [1])]\<rparr>"
  by (rule waiter_lost_by_late_clear) simp

inductive_simps notify_step_simps: "notify_step s t"

definition active :: "'cb threads \<Rightarrow> nat set" where
  "active s = {i. pcs s i \<noteq> Done}"

lemma active_update:
  "active (s\<lparr>pcs := (pcs s)(i := pc)\<rparr>) = (if pc = Done then active s - {i} else insert i (active s))"
  "active (s\<lparr>t_registry := r\<rparr>) = active s" "active (s\<lparr>fired := f\<rparr>) = active s"
  by (auto simp: active_def)

lemma notify_step_active:
  assumes "notify_step s t" and "finite (active s)"
  shows "finite (active t) \<and> length (fired t) + card (active t) \<le> length (fired s) + card (active s)"
  using assms(1)
proof cases
  case (copy i b p cb)
  then have "i \<in> active s" by (simp add: active_def)
  then show ?thesis using assms(2) copy by (simp add: active_update insert_absorb)
next
  case (fire i p cb b)
  then have "i \<in> active s" by (simp add: active_def)
  then have "card (active s - {i}) + 1 = card (active s)" using assms(2) by (metis Suc_eq_plus1 card_Suc_Diff1)
  moreover have "active t = active s - {i}" using fire by (auto simp: active_def)
  ultimately show ?thesis using assms(2) fire by simp
next
  case (register p cb)
  then show ?thesis using assms(2) by (simp add: active_update)
qed (use assms(2) in \<open>simp_all add: active_update card_Diff1_le\<close>)

text \<open>A thread that may still call \<open>cb\<close> with \<open>b\<close>: one that notifies \<open>b\<close> and has copied \<open>cb\<close>, or nothing yet.\<close>

definition carries :: "'cb threads \<Rightarrow> 'cb \<Rightarrow> bytes \<Rightarrow> bool" where
  "carries s cb b \<longleftrightarrow> (\<exists>i. pcs s i = Before b \<or> (\<exists>p. pcs s i = Between p cb b))"

lemma notify_step_new:
  assumes "notify_step s t"
  obtains new where "fired t = fired s @ new" and "\<forall>(cb, b) \<in> set new. carries s cb b" and "\<forall>cb b. carries t cb b \<longrightarrow> carries s cb b"
  using assms
proof cases
  case (copy i b p cb)
  then show ?thesis by (intro that [of "[]"]) (auto simp: carries_def split: if_splits)
next
  case (no_waiter i b)
  then show ?thesis by (intro that [of "[]"]) (auto simp: carries_def split: if_splits)
next
  case (no_match i p cb b)
  then show ?thesis by (intro that [of "[]"]) (auto simp: carries_def split: if_splits)
next
  case (fire i p cb b)
  then show ?thesis by (intro that [of "[(cb, b)]"]) (auto simp: carries_def split: if_splits)
next
  case (register p cb)
  then show ?thesis by (intro that [of "[]"]) (auto simp: carries_def)
qed

lemma notify_steps_new:
  assumes "notify_steps s t"
  shows "\<exists>new. fired t = fired s @ new \<and> (\<forall>(cb, b) \<in> set new. carries s cb b)"
  using assms
proof (induction rule: notify_steps.induct)
  case (notify_more s t u)
  obtain new where new: "fired t = fired s @ new" "\<forall>(cb, b) \<in> set new. carries s cb b" "\<forall>cb b. carries t cb b \<longrightarrow> carries s cb b"
    by (rule notify_step_new [OF notify_more(1)])
  obtain rest where "fired u = fired t @ rest" "\<forall>(cb, b) \<in> set rest. carries t cb b" using notify_more(3) by blast
  then show ?case using new by (intro exI [of _ "new @ rest"]) auto
qed simp

lemma notify_steps_active:
  assumes "notify_steps s t" and "finite (active s)"
  shows "finite (active t) \<and> length (fired t) + card (active t) \<le> length (fired s) + card (active s)"
  using assms
proof (induction rule: notify_steps.induct)
  case (notify_more s t u)
  then show ?case using notify_step_active [of s t] by fastforce
qed simp



end
