(* ===== verification/Query_Handler.thy ===== *)
theory Query_Handler
  imports Codec Registry Framing
begin

text \<open>
  The little-endian query endpoint: the wire format of \<open>interface/query/QueryProtocol.hpp\<close> and
  the connection handler \<open>interface/query/QueryHandler.cpp\<close>, which reassembles frames per peer,
  forwards the blob of a query to the active client and has the next client bytes sent back to
  the peer that asked. The handler is composed with the registry of theory \<open>Registry\<close>, whose
  callback captures the peer's session.
\<close>

section \<open>Wire format\<close>

definition MSG_THANATOS_QUERY :: u16 where "MSG_THANATOS_QUERY = 1"
definition MSG_THANATOS_REPLY :: u16 where "MSG_THANATOS_REPLY = 2"

definition w16 :: "bytes \<Rightarrow> u16 \<Rightarrow> bytes" where
  "w16 out v = out @ [ucast (v AND 0xFF), ucast (drop_bit 8 v AND 0xFF)]"

definition r16 :: "bytes \<Rightarrow> u16" where
  "r16 p = (ucast (p ! 0) :: u16) OR push_bit 8 (ucast (p ! 1) :: u16)"

definition frame :: "u16 \<Rightarrow> bytes \<Rightarrow> bytes" where
  "frame msg_id payload =
     (let sz = (of_nat (4 + length payload) :: u16);
          out = w16 [] sz;
          out = w16 out msg_id
      in out @ payload)"

definition encode_blob :: "bytes \<Rightarrow> bytes" where
  "encode_blob blob = w16 [] (of_nat (length blob)) @ blob"

definition decode_blob :: "bytes \<Rightarrow> bytes option" where
  "decode_blob payload =
     (if length payload < 2 then None
      else let n = unat ((ucast (payload ! 0) :: u16) OR push_bit 8 (ucast (payload ! 1) :: u16));
               pos = 2
           in if pos + n > length payload then None else Some (take n (drop pos payload)))"

lemma w16_eq [wire_simps]: "w16 out v = put16 out v"
  by (simp add: w16_def put16_def word_masks drop_bit_take_bit)
     (rule bit_word_eqI, auto simp: word_bits)

lemma r16_eq [wire_simps]: "r16 p = rd16le p"
  by (simp add: r16_def rd16le_def)

lemma length_frame [simp, wire_len]: "length (frame m p) = 4 + length p"
  by (simp add: frame_def wire_simps Let_def)

lemma length_encode_blob [simp, wire_len]: "length (encode_blob b) = 2 + length b"
  by (simp add: encode_blob_def wire_simps)

lemma frame_eq:
  "frame m p = [ucast (take_bit 8 (of_nat (4 + length p) :: u16)), ucast (drop_bit 8 (of_nat (4 + length p) :: u16)),
                ucast (take_bit 8 m), ucast (drop_bit 8 m)] @ p"
  by (simp add: frame_def wire_simps Let_def)

lemma frame_size: "r16 (frame m p @ x) = of_nat (4 + length p)"
  by (simp add: frame_eq wire_simps)

lemma frame_id: "r16 (drop 2 (frame m p @ x)) = m"
  by (simp add: frame_eq wire_simps numeral_2_eq_2)

lemma frame_payload: "drop 4 (frame m p) = p"
  by (simp add: frame_eq)

text \<open>The announced size is the length modulo 65536, so a longer blob is silently cut.\<close>

lemma decode_encode_blob: "decode_blob (encode_blob b @ x) = Some (take (length b mod 65536) (b @ x))"
proof -
  let ?n = "of_nat (length b) :: u16"
  have e: "encode_blob b = ucast (take_bit 8 ?n) # ucast (drop_bit 8 ?n) # b"
    by (simp add: encode_blob_def wire_simps)
  have "(ucast (ucast (take_bit 8 ?n) :: u8) :: u16) OR push_bit 8 (ucast (ucast (drop_bit 8 ?n) :: u8)) = ?n"
    using u16_le_join [of ?n] by (simp add: word_masks)
  moreover have "unat ?n = length b mod 65536" by (simp add: unat_of_nat)
  moreover have "length b mod 65536 \<le> length b" by simp
  ultimately show ?thesis
    unfolding decode_blob_def Let_def e by (simp add: numeral_2_eq_2)
qed

text \<open>
  Decoding an encoded blob, whatever follows it in the payload, gives the blob back, up to
  the 16-bit length field: a blob of 65536 bytes or more comes back as its first
  \<open>length mod 65536\<close> bytes.
\<close>

theorem blob_roundtrip:
  "decode_blob (encode_blob b @ x) = Some (take (length b mod 65536) b)"
proof -
  have "take (length b mod 65536) (b @ x) = take (length b mod 65536) b" by simp
  then show ?thesis using decode_encode_blob by metis
qed

section \<open>Cutting frames\<close>

text \<open>
  The three tests at the head of the loop of \<open>on_data\<close>: too few bytes for a header, a header whose
  size is less than itself, too few bytes for the frame.
\<close>

definition qh_cut :: "bytes \<Rightarrow> cut_result" where
  "qh_cut buf =
     (if length buf < 4 then Need_more
      else let sz = unat (r16 buf) in
        if sz < 4 then Bad_header
        else if length buf < sz then Need_more
        else Cut (take sz buf) (drop sz buf))"

lemma r16_append: "2 \<le> length p \<Longrightarrow> r16 (p @ x) = r16 p"
  by (cases p) (auto simp: r16_def nth_append)

interpretation qh: cutter qh_cut
proof
  fix b f r x :: bytes
  show "qh_cut b = Cut f r \<Longrightarrow> b = f @ r \<and> f \<noteq> []"
    by (auto simp: qh_cut_def Let_def split: if_splits)
  show "qh_cut b = Cut f r \<Longrightarrow> qh_cut (b @ x) = Cut f (r @ x)"
    by (auto simp: qh_cut_def Let_def r16_append split: if_splits)
  show "qh_cut b = Bad_header \<Longrightarrow> qh_cut (b @ x) = Bad_header"
    by (auto simp: qh_cut_def Let_def r16_append split: if_splits)
qed

function qh_drain :: "bytes \<Rightarrow> bytes list \<times> bytes \<times> bool" where
  "qh_drain b =
     (case qh_cut b of
        Need_more \<Rightarrow> ([], b, False)
      | Bad_header \<Rightarrow> ([], [], True)
      | Cut f r \<Rightarrow> (let (fs, rest, bad) = qh_drain r in (f # fs, rest, bad)))"
  by pat_completeness auto
termination
  by (relation "measure length") (auto dest: qh.cut_shrinks)

declare qh_drain.simps [simp del]

interpretation qhd: deframer qh_cut qh_drain
  by unfold_locales (rule qh_drain.simps)

lemma qh_cut_frame:
  assumes "4 + length p < 65536"
  shows "qh_cut (frame m p @ x) = Cut (frame m p) x"
proof -
  have "unat (r16 (frame m p @ x)) = 4 + length p"
    unfolding frame_size using assms by (rule of_nat_u16_inverse)
  then show ?thesis by (simp add: qh_cut_def Let_def)
qed

section \<open>The handler\<close>

record qconn =
  qc_session :: sid
  qc_buf :: bytes

text \<open>
  \<open>peers_\<close> is keyed by the raw session pointer: \<open>None\<close> is the null pointer.
\<close>

record query_handler =
  peers :: "sid option \<rightharpoonup> qconn"
  qh_registry :: "sid registry"
  max_buf :: nat

datatype session_action =
    Send sid bytes
  | Close sid

definition new_query_handler :: "nat \<Rightarrow> query_handler" where
  "new_query_handler n = \<lparr>peers = Map.empty, qh_registry = empty_registry, max_buf = n\<rparr>"

text \<open>
  \<open>peers_.emplace(s.get(), Conn{std::move(s), {}})\<close> reads the pointer and moves it out in two
  arguments of one call, whose order of evaluation C++ leaves open: \<open>key_first\<close> is the order the
  compiler chose. \<open>emplace\<close> keeps an existing entry.
\<close>

definition qh_on_connect :: "bool \<Rightarrow> query_handler \<Rightarrow> sid \<Rightarrow> query_handler" where
  "qh_on_connect key_first h s =
     (let key = (if key_first then Some s else None) in
      if key \<in> dom (peers h) then h
      else h\<lparr>peers := (peers h)(key \<mapsto> \<lparr>qc_session = s, qc_buf = []\<rparr>)\<rparr>)"

definition qh_on_disconnect :: "query_handler \<Rightarrow> sid \<Rightarrow> query_handler" where
  "qh_on_disconnect h s = h\<lparr>peers := (peers h)(Some s := None)\<rparr>"

definition handle_frame ::
  "(sid \<Rightarrow> bool) \<Rightarrow> sid registry \<Rightarrow> sid \<Rightarrow> bytes \<Rightarrow> sid registry \<times> session_action list" where
  "handle_frame alive reg sess fr =
     (if length fr < 4 then (reg, [])
      else
        (let sz = unat (r16 fr);
             msg_id = r16 (drop 2 fr);
             payload = take (sz - 4) (drop 4 fr)
         in if msg_id = MSG_THANATOS_QUERY then
              (case decode_blob payload of
                 None \<Rightarrow> (reg, [])
               | Some blob \<Rightarrow>
                   (case get_active_client alive reg of
                      None \<Rightarrow> (reg, [])
                    | Some cli \<Rightarrow> (wait_next_c2s reg (\<lambda>_. True) sess, [Send cli blob])))
            else (reg, [])))"

text \<open>The frame extraction loop of \<open>on_data\<close>, on the connection's buffer.\<close>

function on_data_loop ::
  "(sid \<Rightarrow> bool) \<Rightarrow> sid registry \<Rightarrow> qconn \<Rightarrow> sid registry \<times> qconn \<times> session_action list" where
  "on_data_loop alive reg c =
     (if length (qc_buf c) < 4 then (reg, c, [])
      else let sz = unat (r16 (qc_buf c)) in
        if sz < 4 then (reg, c\<lparr>qc_buf := []\<rparr>, [])
        else if length (qc_buf c) < sz then (reg, c, [])
        else let fr = take sz (qc_buf c);
                 c = c\<lparr>qc_buf := drop sz (qc_buf c)\<rparr>;
                 (reg, acts) = handle_frame alive reg (qc_session c) fr;
                 (reg, c, acts') = on_data_loop alive reg c
             in (reg, c, acts @ acts'))"
  by pat_completeness auto
termination
  by (relation "measure (\<lambda>(alive, reg, c). length (qc_buf c))") auto

declare on_data_loop.simps [simp del]

definition qh_on_data ::
  "(sid \<Rightarrow> bool) \<Rightarrow> query_handler \<Rightarrow> sid \<Rightarrow> bytes \<Rightarrow> query_handler \<times> session_action list" where
  "qh_on_data alive h s bytes =
     (case peers h (Some s) of
        None \<Rightarrow> (h, [])
      | Some c \<Rightarrow>
          if length (qc_buf c) + length bytes > max_buf h
          then (h\<lparr>peers := (peers h)(Some s \<mapsto> c\<lparr>qc_buf := []\<rparr>)\<rparr>, [Close s])
          else
            (let c = c\<lparr>qc_buf := qc_buf c @ bytes\<rparr>;
                 (reg, c, acts) = on_data_loop alive (qh_registry h) c
             in (h\<lparr>peers := (peers h)(Some s \<mapsto> c), qh_registry := reg\<rparr>, acts)))"

text \<open>The callback that \<open>handle_frame\<close> registers, run by the registry on the client's bytes.\<close>

definition reply_callback :: "sid \<Rightarrow> bytes \<Rightarrow> session_action" where
  "reply_callback sess reply_bytes =
     (let pld = encode_blob reply_bytes; out = frame MSG_THANATOS_REPLY pld in Send sess out)"

datatype query_event =
    Peer_connect sid
  | Peer_disconnect sid
  | Peer_data sid bytes
  | Active_client "sid option"
  | Client_bytes bytes

fun query_step ::
  "bool \<Rightarrow> (sid \<Rightarrow> bool) \<Rightarrow> query_handler \<Rightarrow> query_event \<Rightarrow> query_handler \<times> session_action list" where
  "query_step kf alive h (Peer_connect s) = (qh_on_connect kf h s, [])"
| "query_step kf alive h (Peer_disconnect s) = (qh_on_disconnect h s, [])"
| "query_step kf alive h (Peer_data s b) = qh_on_data alive h s b"
| "query_step kf alive h (Active_client c) = (h\<lparr>qh_registry := set_active_client (qh_registry h) c\<rparr>, [])"
| "query_step kf alive h (Client_bytes b) =
     (let (r, calls) = notify_c2s (qh_registry h) b
      in (h\<lparr>qh_registry := r\<rparr>, map (\<lambda>(sess, x). reply_callback sess x) calls))"

section \<open>The loop is the drain of the buffer\<close>

fun handle_frames ::
  "(sid \<Rightarrow> bool) \<Rightarrow> sid registry \<Rightarrow> sid \<Rightarrow> bytes list \<Rightarrow> sid registry \<times> session_action list" where
  "handle_frames alive reg s [] = (reg, [])"
| "handle_frames alive reg s (f # fs) =
     (let (reg', a) = handle_frame alive reg s f; (reg'', b) = handle_frames alive reg' s fs
      in (reg'', a @ b))"

lemma handle_frames_append:
  "handle_frames alive reg s (fs @ gs) =
     (fst (handle_frames alive (fst (handle_frames alive reg s fs)) s gs),
      snd (handle_frames alive reg s fs) @ snd (handle_frames alive (fst (handle_frames alive reg s fs)) s gs))"
  by (induction fs arbitrary: reg) (simp_all add: split_beta Let_def)

lemma on_data_loop_cut:
  "on_data_loop alive reg c =
     (case qh_cut (qc_buf c) of
        Need_more \<Rightarrow> (reg, c, [])
      | Bad_header \<Rightarrow> (reg, c\<lparr>qc_buf := []\<rparr>, [])
      | Cut f r \<Rightarrow>
          (let (reg', a) = handle_frame alive reg (qc_session c) f;
               (reg'', c', b) = on_data_loop alive reg' (c\<lparr>qc_buf := r\<rparr>)
           in (reg'', c', a @ b)))"
  by (subst on_data_loop.simps) (simp add: qh_cut_def Let_def)

lemma on_data_loop_drain:
  "on_data_loop alive reg c =
     (fst (handle_frames alive reg (qc_session c) (fst (qh_drain (qc_buf c)))),
      c\<lparr>qc_buf := fst (snd (qh_drain (qc_buf c)))\<rparr>,
      snd (handle_frames alive reg (qc_session c) (fst (qh_drain (qc_buf c)))))"
proof (induction "qc_buf c" arbitrary: reg c rule: qhd.drain_induct)
  case need
  then show ?case by (subst on_data_loop_cut) simp
next
  case bad
  then show ?case by (subst on_data_loop_cut) simp
next
  case (cut f r)
  have ih: "on_data_loop alive reg' (c\<lparr>qc_buf := r\<rparr>) =
     (fst (handle_frames alive reg' (qc_session c) (fst (qh_drain r))),
      c\<lparr>qc_buf := fst (snd (qh_drain r))\<rparr>,
      snd (handle_frames alive reg' (qc_session c) (fst (qh_drain r))))" for reg'
    using cut(2) [of "c\<lparr>qc_buf := r\<rparr>" reg'] by simp
  show ?case
    by (subst on_data_loop_cut)
       (simp add: cut(1) qhd.drain_cut [OF cut(1)] ih split_beta Let_def)
qed

lemma qh_on_data_ok:
  assumes "peers h (Some s) = Some c" and "length (qc_buf c) + length b \<le> max_buf h"
  shows "qh_on_data alive h s b =
     (let (fs, rest, bad) = qh_drain (qc_buf c @ b);
          (reg, acts) = handle_frames alive (qh_registry h) (qc_session c) fs
      in (h\<lparr>peers := (peers h)(Some s \<mapsto> c\<lparr>qc_buf := rest\<rparr>), qh_registry := reg\<rparr>, acts))"
  using assms by (simp add: qh_on_data_def on_data_loop_drain split_beta Let_def)

section \<open>Chunk independence\<close>

lemma length_drain_rest: "length (fst (snd (qh_drain b))) \<le> length b"
proof (induction b rule: qhd.drain_induct)
  case (cut b f r)
  then show ?case using qh.cut_shrinks [OF cut(1)] by (simp add: qhd.drain_cut)
qed simp_all

lemma drain_rest_cut:
  assumes "qh_cut b = Need_more" shows "qh_drain b = ([], b, False)"
  using assms by simp

lemma chunks_as_one:
  assumes "peers h (Some s) = Some c" and "qh_cut (qc_buf c) = Need_more"
    and "length (qc_buf c) + length (concat cs) \<le> max_buf h"
    and "\<not> snd (snd (qh_drain (qc_buf c @ concat cs)))"
  shows "run (query_step kf alive) h (map (Peer_data s) cs) = qh_on_data alive h s (concat cs)"
  using assms
proof (induction cs arbitrary: h c)
  case Nil
  have "qh_on_data alive h s [] = (h, [])"
    using Nil.prems by (simp add: qh_on_data_ok fun_upd_idem)
  then show ?case by simp
next
  case (Cons x cs)
  let ?b = "qc_buf c" and ?q = "qc_session c"
  let ?r = "fst (snd (qh_drain (?b @ x)))"
  let ?H = "handle_frames alive (qh_registry h) ?q (fst (qh_drain (?b @ x)))"
  let ?h = "h\<lparr>peers := (peers h)(Some s \<mapsto> c\<lparr>qc_buf := ?r\<rparr>), qh_registry := fst ?H\<rparr>"
  have good: "\<not> snd (snd (qh_drain (?b @ x)))"
    using qhd.drain_prefix_good [of "?b @ x" "concat cs"] Cons.prems(4) by simp
  have split: "qh_drain (?b @ x @ concat cs)
      = (fst (qh_drain (?b @ x)) @ fst (qh_drain (?r @ concat cs)), snd (qh_drain (?r @ concat cs)))"
    using qhd.drain_append [OF good, of "concat cs"] by simp
  have first: "qh_on_data alive h s x = (?h, snd ?H)"
    using Cons.prems by (subst qh_on_data_ok [OF Cons.prems(1)]) (simp_all add: split_beta Let_def)
  have "qh_cut ?r = Need_more" using qhd.drain_rest good by blast
  moreover have "length ?r + length (concat cs) \<le> max_buf h"
    using length_drain_rest [of "?b @ x"] Cons.prems(3) by simp
  moreover have "\<not> snd (snd (qh_drain (?r @ concat cs)))" using Cons.prems(4) split by simp
  ultimately have rest: "run (query_step kf alive) ?h (map (Peer_data s) cs) = qh_on_data alive ?h s (concat cs)"
    using Cons.IH [of ?h "c\<lparr>qc_buf := ?r\<rparr>"] by simp
  have "length ?r + length (concat cs) \<le> max_buf ?h"
    using length_drain_rest [of "?b @ x"] Cons.prems(3) by simp
  then have "qh_on_data alive ?h s (concat cs)
      = (let (fs, rest, bad) = qh_drain (?r @ concat cs); (reg, acts) = handle_frames alive (fst ?H) ?q fs
         in (?h\<lparr>peers := (peers h)(Some s \<mapsto> c\<lparr>qc_buf := rest\<rparr>), qh_registry := reg\<rparr>, acts))"
    using qh_on_data_ok [of ?h s "c\<lparr>qc_buf := ?r\<rparr>" "concat cs" alive] by simp
  moreover have "qh_on_data alive h s (concat (x # cs))
      = (let (fs, rest, bad) = qh_drain (?b @ x @ concat cs); (reg, acts) = handle_frames alive (qh_registry h) ?q fs
         in (h\<lparr>peers := (peers h)(Some s \<mapsto> c\<lparr>qc_buf := rest\<rparr>), qh_registry := reg\<rparr>, acts))"
    using qh_on_data_ok [OF Cons.prems(1), of "concat (x # cs)" alive] Cons.prems(3) by simp
  ultimately show ?case
    using first rest
    by (simp add: prod_eq_iff split split_beta Let_def handle_frames_append)
qed



section \<open>The buffers stay bounded\<close>

definition qh_inv :: "query_handler \<Rightarrow> bool" where
  "qh_inv h \<longleftrightarrow> (\<forall>k c. peers h k = Some c \<longrightarrow> qh_cut (qc_buf c) = Need_more \<and> length (qc_buf c) \<le> max_buf h)"

lemma need_more_length: "qh_cut b = Need_more \<Longrightarrow> length b < 65535"
proof -
  assume n: "qh_cut b = Need_more"
  have "unat (r16 b) \<le> 65535" using u16_unat_less [of "r16 b"] by linarith
  then show ?thesis using n by (auto simp: qh_cut_def Let_def split: if_splits)
qed

lemma drain_rest_need: "qh_cut (fst (snd (qh_drain b))) = Need_more"
proof (induction b rule: qhd.drain_induct)
  case (bad b)
  then show ?case by (simp add: qh_cut_def)
next
  case (cut b f r)
  then show ?case by (simp add: qhd.drain_cut [OF cut(1)])
qed simp_all

lemma qh_inv_step: "qh_inv h \<Longrightarrow> qh_inv (fst (query_step kf alive h e))"
proof (cases e)
  case (Peer_data s b)
  assume inv: "qh_inv h"
  show ?thesis
  proof (cases "peers h (Some s)")
    case None
    then show ?thesis using inv Peer_data by (simp add: qh_on_data_def)
  next
    case (Some c)
    show ?thesis
    proof (cases "length (qc_buf c) + length b > max_buf h")
      case True
      then show ?thesis using inv Peer_data Some by (auto simp: qh_on_data_def qh_inv_def qh_cut_def)
    next
      case False
      have "length (fst (snd (qh_drain (qc_buf c @ b)))) \<le> max_buf h"
        using length_drain_rest [of "qc_buf c @ b"] False by simp
      then show ?thesis
        using inv Peer_data False
        by (auto simp: qh_inv_def qh_on_data_ok [OF Some] split_beta Let_def drain_rest_need)
    qed
  qed
qed (auto simp: qh_inv_def qh_on_connect_def qh_on_disconnect_def qh_cut_def Let_def split_beta)

interpretation query_machine: invariant_machine "query_step kf alive" qh_inv
  by unfold_locales (rule qh_inv_step)

lemma max_buf_step [simp]: "max_buf (fst (query_step kf alive h e)) = max_buf h"
  by (cases e) (simp_all add: qh_on_connect_def qh_on_disconnect_def qh_on_data_def split_beta Let_def
      split: option.splits)

lemma max_buf_run [simp]: "max_buf (fst (run (query_step kf alive) h es)) = max_buf h"
  by (induction es arbitrary: h) simp_all

lemma qh_inv_new: "qh_inv (new_query_handler n)"
  by (simp add: qh_inv_def new_query_handler_def)

text \<open>
  No peer can make the server hold more than the configured limit, nor a whole frame. After
  any sequence of events, each connection's buffer is within \<open>max_buf_\<close>, below the 65535 bytes of
  the largest frame, and no complete frame is left in it unhandled.
\<close>

theorem query_buffers_bounded:
  assumes "peers (fst (run (query_step kf alive) (new_query_handler n) es)) k = Some c"
  shows "length (qc_buf c) \<le> n \<and> length (qc_buf c) < 65535 \<and> qh_cut (qc_buf c) = Need_more"
proof -
  let ?h = "fst (run (query_step kf alive) (new_query_handler n) es)"
  have "qh_inv ?h" using query_machine.inv_run [OF qh_inv_new] .
  moreover have "max_buf ?h = n" by (simp add: new_query_handler_def)
  ultimately show ?thesis using assms need_more_length by (auto simp: qh_inv_def)
qed

lemma query_buffers_bounded_witness:
  "\<exists>c :: qconn. length (qc_buf c) \<le> 64 \<and> length (qc_buf c) < 65535 \<and> qh_cut (qc_buf c) = Need_more \<and> qc_buf c = [5, 0]"
proof -
  have d: "qh_drain [5, 0] = ([], [5, 0], False)" by (simp add: qh_drain.simps qh_cut_def)
  have "peers (fst (run (query_step True (\<lambda>_. True)) (new_query_handler 64)
      [Peer_connect 3, Peer_data 3 [5, 0]])) (Some 3) = Some \<lparr>qc_session = 3, qc_buf = [5, 0]\<rparr>"
    by (simp add: new_query_handler_def qh_on_connect_def qh_on_data_def on_data_loop_drain d Let_def)
  note b = query_buffers_bounded [OF this]
  show ?thesis by (rule exI [of _ "\<lparr>qc_session = 3, qc_buf = [5, 0]\<rparr>"]) (use b in simp)
qed

section \<open>A whole exchange\<close>

lemma drain_one_frame:
  assumes "4 + length p < 65536"
  shows "qh_drain (frame m p) = ([frame m p], [], False)"
proof -
  have "qh_cut (frame m p) = Cut (frame m p) []" using qh_cut_frame [OF assms, of m "[]"] by simp
  then show ?thesis by (simp add: qhd.drain_cut qh_cut_def)
qed

lemma handle_query_frame:
  assumes "6 + length b < 65536" and "get_active_client alive reg = Some cli"
  shows "handle_frame alive reg s (frame MSG_THANATOS_QUERY (encode_blob b))
       = (wait_next_c2s reg (\<lambda>_. True) s, [Send cli b])"
proof -
  let ?f = "frame MSG_THANATOS_QUERY (encode_blob b)"
  have s: "unat (r16 ?f) = 4 + length (encode_blob b)"
    using frame_size [of MSG_THANATOS_QUERY "encode_blob b" "[]"] assms(1)
    by (simp only: append_Nil2 length_encode_blob) (rule of_nat_u16_inverse, simp)
  have "take (unat (r16 ?f) - 4) (drop 4 ?f) = encode_blob b" by (simp add: s frame_payload)
  moreover have "decode_blob (encode_blob b) = Some b"
    using decode_encode_blob [of b "[]"] assms(1) by simp
  moreover have "r16 (drop 2 ?f) = MSG_THANATOS_QUERY" using frame_id [of _ _ "[]"] by simp
  ultimately show ?thesis using assms(2) by (simp add: handle_frame_def Let_def)
qed

lemma notify_waiting:
  "notify_c2s (wait_next_c2s reg (\<lambda>_. True) s) r = (drop_waiter (wait_next_c2s reg (\<lambda>_. True) s), [(s, r)])"
  by (simp add: notify_c2s_def)



section \<open>The order of evaluation in \<open>on_connect\<close>\<close>

definition qh_null_keyed :: "query_handler \<Rightarrow> bool" where
  "qh_null_keyed h \<longleftrightarrow> dom (peers h) \<subseteq> {None} \<and> peek_waiter (qh_registry h) = None"

lemma null_keyed_step:
  "qh_null_keyed h \<Longrightarrow> qh_null_keyed (fst (query_step False alive h e)) \<and> snd (query_step False alive h e) = []"
proof (cases e)
  case (Peer_data s b)
  assume "qh_null_keyed h"
  then have "peers h (Some s) = None" by (auto simp: qh_null_keyed_def)
  then show ?thesis using Peer_data \<open>qh_null_keyed h\<close> by (simp add: qh_on_data_def)
qed (auto simp: qh_null_keyed_def qh_on_connect_def qh_on_disconnect_def notify_c2s_def Let_def split: if_splits)

interpretation null_machine: output_machine "query_step False alive" qh_null_keyed "\<lambda>_. False"
  by unfold_locales (simp_all add: null_keyed_step)

text \<open>
  With the other order of evaluation the endpoint is mute. If the compiler moves the session
  into the connection before it reads the key, every peer is filed under the null pointer, no
  data of any peer is ever looked at, and over every sequence of events nothing at all is sent.
\<close>

theorem query_mute_when_moved_first:
  "snd (run (query_step False alive) (new_query_handler n) es) = []"
proof -
  have "qh_null_keyed (new_query_handler n)"
    by (simp add: qh_null_keyed_def new_query_handler_def empty_registry_def peek_waiter_def)
  then have "x \<notin> set (snd (run (query_step False alive) (new_query_handler n) es))" for x
    using null_machine.out_run by blast
  then show ?thesis by (metis last_in_set)
qed

end
