(* ===== verification/GG_Bridge.thy ===== *)
theory GG_Bridge
  imports Codec "HOL-Library.Signed_Division"
begin

text \<open>
  The GameGuard bridge, \<open>application/services/GameGuardBridge.hpp\<close> and \<open>.cpp\<close>: one outstanding
  challenge between OpenKore and the game client, resent on a timeout that is noticed when the
  client sends something. Instants are nanoseconds of the steady clock and durations
  milliseconds, both as unbounded integers: the 64-bit counts do not wrap within the life of a
  process. What a call reads from outside (the two clock reads, the percentage drawn, whether the
  wire took the packet) is the record \<open>gg_env\<close>; what it does to its two neighbours is its output.
  The packets sent to the client go through the wire pointer, which is a value of any type.
\<close>

section \<open>State\<close>

datatype GGStrategy = FULL_FRAME | BODY_TRUNC_18 | BODY_LEN | AUTO

record 'w bridge =
  g_wire :: "'w option"
  g_pending :: bool
  g_deadline :: int
  g_sent_at :: int
  g_min_len :: nat
  g_max_len :: nat
  g_timeout :: int
  g_greedy_window :: int
  g_strategy :: GGStrategy
  g_last_request_len :: nat
  g_retry_count :: int
  g_max_retries :: int
  g_last_query :: bytes
  g_base_timeout :: int
  g_randomize :: bool
  g_min_percent :: int
  g_max_percent :: int

definition kDefaultMinPayloadLen :: nat where "kDefaultMinPayloadLen = 2"
definition kDefaultMaxPayloadLen :: nat where "kDefaultMaxPayloadLen = 2048"
definition kConfiguredMaxPayloadLen :: nat where "kConfiguredMaxPayloadLen = 4096"
definition kDefaultTimeout :: int where "kDefaultTimeout = 1500"
definition kConfiguredTimeout :: int where "kConfiguredTimeout = 3000"
definition kDefaultGreedyWindow :: int where "kDefaultGreedyWindow = 200"
definition kConfiguredGreedyWindow :: int where "kConfiguredGreedyWindow = 150"
definition kDefaultMaxRetries :: int where "kDefaultMaxRetries = 3"
definition kDefaultTimeoutMinPercent :: int where "kDefaultTimeoutMinPercent = 80"
definition kDefaultTimeoutMaxPercent :: int where "kDefaultTimeoutMaxPercent = 120"

definition new_bridge :: "'w bridge" where
  "new_bridge =
     \<lparr>g_wire = None, g_pending = False, g_deadline = 0, g_sent_at = 0,
      g_min_len = kDefaultMinPayloadLen, g_max_len = kDefaultMaxPayloadLen,
      g_timeout = kDefaultTimeout, g_greedy_window = kDefaultGreedyWindow,
      g_strategy = FULL_FRAME, g_last_request_len = 0, g_retry_count = 0,
      g_max_retries = kDefaultMaxRetries, g_last_query = [], g_base_timeout = kDefaultTimeout,
      g_randomize = False, g_min_percent = kDefaultTimeoutMinPercent,
      g_max_percent = kDefaultTimeoutMaxPercent\<rparr>"

definition set_timeout :: "int \<Rightarrow> 'w bridge \<Rightarrow> 'w bridge" where
  "set_timeout ms g = g\<lparr>g_base_timeout := ms, g_timeout := ms\<rparr>"

definition set_size_bounds :: "nat \<Rightarrow> nat \<Rightarrow> 'w bridge \<Rightarrow> 'w bridge" where
  "set_size_bounds mn mx g = g\<lparr>g_min_len := mn, g_max_len := mx\<rparr>"

definition set_greedy_window :: "int \<Rightarrow> 'w bridge \<Rightarrow> 'w bridge" where
  "set_greedy_window ms g = g\<lparr>g_greedy_window := ms\<rparr>"

definition set_strategy :: "GGStrategy \<Rightarrow> 'w bridge \<Rightarrow> 'w bridge" where
  "set_strategy s g = g\<lparr>g_strategy := s\<rparr>"

definition set_max_retries :: "int \<Rightarrow> 'w bridge \<Rightarrow> 'w bridge" where
  "set_max_retries n g = g\<lparr>g_max_retries := n\<rparr>"

definition set_timeout_randomization :: "bool \<Rightarrow> int \<Rightarrow> int \<Rightarrow> 'w bridge \<Rightarrow> 'w bridge" where
  "set_timeout_randomization enabled min_percent max_percent g =
     g\<lparr>g_randomize := enabled, g_min_percent := min_percent, g_max_percent := max_percent\<rparr>"

definition bindClientWire :: "'w option \<Rightarrow> 'w bridge \<Rightarrow> 'w bridge" where
  "bindClientWire w g = g\<lparr>g_wire := w\<rparr>"

section \<open>Operations\<close>

record gg_env =
  e_now :: int
  e_now2 :: int
  e_percent :: int
  e_send_ok :: bool

datatype 'w gg_action =
    To_client 'w bytes
  | To_kore bytes
  | To_flow bytes

definition trim_to_pkt_len :: "bytes \<Rightarrow> nat" where
  "trim_to_pkt_len data =
     (let L = length data in
      if L \<ge> 4 then
        (let pkt_len = unat (rd16le (drop 2 data))
         in if pkt_len \<ge> 4 \<and> pkt_len \<le> L then pkt_len else L)
      else L)"

definition get_randomized_timeout :: "gg_env \<Rightarrow> 'w bridge \<Rightarrow> int" where
  "get_randomized_timeout e g =
     (if \<not> g_randomize g then g_base_timeout g
      else (g_base_timeout g * e_percent e) sdiv 100)"

definition after_ms :: "int \<Rightarrow> int \<Rightarrow> int" where
  "after_ms t ms = t + 1000000 * ms"

text \<open>The two input shapes of a query: framed already, or a raw payload to be wrapped.\<close>

definition frame_gg_query :: "bytes \<Rightarrow> bytes \<times> u16" where
  "frame_gg_query gg_query =
     (if length gg_query \<ge> 4 \<and> rd16le gg_query = gg_opcode Challenge then
        (let pkt_len = rd16le (drop 2 gg_query) in
         if unat pkt_len \<ge> 4 \<and> unat pkt_len \<le> length gg_query \<and> unat pkt_len \<noteq> length gg_query
         then (take (unat pkt_len) gg_query, pkt_len)
         else (gg_query, pkt_len))
      else
        (let pkt_len = (of_nat (4 + length gg_query) :: u16);
             framed = wr16le [] (gg_opcode Challenge);
             framed = wr16le framed pkt_len
         in (framed @ gg_query, pkt_len)))"

definition on_query_from_kore :: "gg_env \<Rightarrow> 'w bridge \<Rightarrow> bytes \<Rightarrow> 'w bridge \<times> 'w gg_action list" where
  "on_query_from_kore e g gg_query =
     (if g_pending g then (g, [])
      else case g_wire g of
        None \<Rightarrow> (g, [])
      | Some w \<Rightarrow>
          (let g = g\<lparr>g_retry_count := 0, g_pending := True\<rparr>;
               g = g\<lparr>g_timeout := get_randomized_timeout e g\<rparr>;
               g = g\<lparr>g_deadline := after_ms (e_now e) (g_timeout g)\<rparr>;
               g = g\<lparr>g_sent_at := e_now2 e\<rparr>;
               (gg_query, pkt_len) = frame_gg_query gg_query;
               g = g\<lparr>g_last_request_len := unat pkt_len\<rparr>;
               g = g\<lparr>g_last_query := gg_query\<rparr>
           in if \<not> e_send_ok e then (g\<lparr>g_pending := False\<rparr>, [To_client w gg_query])
              else (g, [To_client w gg_query])))"

definition gg_idle :: "'w bridge \<Rightarrow> 'w bridge" where
  "gg_idle g = g\<lparr>g_pending := False, g_retry_count := 0, g_last_query := []\<rparr>"

text \<open>The branch of \<open>maybe_consume_c2s\<close> taken when the deadline has passed.\<close>

definition retry_or_give_up :: "gg_env \<Rightarrow> 'w bridge \<Rightarrow> 'w bridge \<times> 'w gg_action list" where
  "retry_or_give_up e g =
     (if g_retry_count g < g_max_retries g then
        (let g = g\<lparr>g_retry_count := g_retry_count g + 1\<rparr>;
             g = g\<lparr>g_timeout := get_randomized_timeout e g\<rparr>;
             g = g\<lparr>g_deadline := after_ms (e_now2 e) (g_timeout g)\<rparr>
         in case g_wire g of
              None \<Rightarrow> (gg_idle g, [])
            | Some w \<Rightarrow>
                if g_last_query g = [] then (gg_idle g, [])
                else if e_send_ok e then (g, [To_client w (g_last_query g)])
                else (gg_idle g, [To_client w (g_last_query g)]))
      else (gg_idle g, []))"

definition maybe_consume_c2s ::
  "gg_env \<Rightarrow> 'w bridge \<Rightarrow> bytes \<Rightarrow> 'w bridge \<times> bool \<times> 'w gg_action list" where
  "maybe_consume_c2s e g data =
     (if \<not> g_pending g then
        (if length data \<ge> 2 \<and> rd16le data = gg_opcode Response then (g, True, [])
         else (g, False, []))
      else if e_now e > g_deadline g then
        (let (g, acts) = retry_or_give_up e g in (g, False, acts))
      else if length data < 2 then (g, False, [])
      else
        (let op = rd16le data in
         if op = gg_opcode Response \<or> op = gg_opcode ResponseLegacy then
           (if length data < 4 then (g, False, [])
            else (let reply = take (trim_to_pkt_len data) data
                  in (gg_idle g, True, [To_kore reply])))
         else (g, False, [])))"

text \<open>
  The bridge as a machine: the wire is bound, a query arrives, or the client sends a packet, which
  goes on to the flow unless the bridge consumed it.
\<close>

datatype 'w gg_event =
    Gg_bind "'w option"
  | Gg_query gg_env bytes
  | Gg_c2s gg_env bytes

fun gg_step :: "'w bridge \<Rightarrow> 'w gg_event \<Rightarrow> 'w bridge \<times> 'w gg_action list" where
  "gg_step g (Gg_bind w) = (bindClientWire w g, [])"
| "gg_step g (Gg_query e q) = on_query_from_kore e g q"
| "gg_step g (Gg_c2s e b) =
     (let (g', consumed, acts) = maybe_consume_c2s e g b
      in (g', acts @ (if consumed then [] else [To_flow b])))"

section \<open>The cases of each operation\<close>

lemma randomized_timeout_updates [simp]:
  "get_randomized_timeout e (g\<lparr>g_retry_count := n\<rparr>) = get_randomized_timeout e g"
  "get_randomized_timeout e (g\<lparr>g_pending := p\<rparr>) = get_randomized_timeout e g"
  by (simp_all add: get_randomized_timeout_def)

lemma idle_fields [simp]:
  "g_pending (gg_idle g) = False" "g_retry_count (gg_idle g) = 0" "g_last_query (gg_idle g) = []"
  "g_wire (gg_idle g) = g_wire g" "g_max_retries (gg_idle g) = g_max_retries g"
  by (simp_all add: gg_idle_def)

lemma on_query_cases:
  obtains (dropped) "g_pending g \<or> g_wire g = None" and "on_query_from_kore e g q = (g, [])"
  | (sent) w g' where "\<not> g_pending g" and "g_wire g = Some w"
      and "on_query_from_kore e g q = (g', [To_client w (fst (frame_gg_query q))])"
      and "g_pending g' = e_send_ok e" and "g_retry_count g' = 0"
      and "g_last_query g' = fst (frame_gg_query q)" and "g_max_retries g' = g_max_retries g"
      and "g_wire g' = g_wire g"
      and "g_deadline g' = after_ms (e_now e) (get_randomized_timeout e g)"
proof (cases "g_pending g \<or> g_wire g = None")
  case True
  then show ?thesis
    by (intro dropped) (auto simp: on_query_from_kore_def split: option.splits)
next
  case False
  then obtain w where w: "g_wire g = Some w" and p: "\<not> g_pending g" by auto
  show ?thesis
    by (rule sent [OF p w, of "fst (on_query_from_kore e g q)"])
       (simp_all add: on_query_from_kore_def w p Let_def split_beta)
qed

lemma retry_cases:
  obtains (give_up) g' where "retry_or_give_up e g = (gg_idle g', [])" and "g_wire g' = g_wire g"
      and "g_max_retries g' = g_max_retries g"
      and "g_max_retries g \<le> g_retry_count g \<or> g_wire g = None \<or> g_last_query g = []"
  | (lost) g' w where "retry_or_give_up e g = (gg_idle g', [To_client w (g_last_query g)])"
      and "g_wire g = Some w" and "\<not> e_send_ok e" and "g_wire g' = g_wire g"
      and "g_max_retries g' = g_max_retries g" and "g_retry_count g < g_max_retries g"
      and "g_last_query g \<noteq> []"
  | (resent) g' w where "retry_or_give_up e g = (g', [To_client w (g_last_query g)])"
      and "g_wire g = Some w" and "e_send_ok e" and "g_retry_count g < g_max_retries g"
      and "g_wire g' = g_wire g" and "g_max_retries g' = g_max_retries g"
      and "g_pending g' = g_pending g" and "g_last_query g' = g_last_query g"
      and "g_retry_count g' = g_retry_count g + 1" and "g_last_query g \<noteq> []"
      and "g_deadline g' = after_ms (e_now2 e) (get_randomized_timeout e g)"
proof -
  let ?g = "g\<lparr>g_retry_count := g_retry_count g + 1,
      g_timeout := get_randomized_timeout e g,
      g_deadline := after_ms (e_now2 e) (get_randomized_timeout e g)\<rparr>"
  have unfold: "retry_or_give_up e g =
     (if g_retry_count g < g_max_retries g then
        (case g_wire g of
           None \<Rightarrow> (gg_idle ?g, [])
         | Some w \<Rightarrow>
             if g_last_query g = [] then (gg_idle ?g, [])
             else if e_send_ok e then (?g, [To_client w (g_last_query g)])
             else (gg_idle ?g, [To_client w (g_last_query g)]))
      else (gg_idle g, []))"
    by (cases "g_wire g") (simp_all add: retry_or_give_up_def Let_def)
  show ?thesis
  proof (cases "g_retry_count g < g_max_retries g")
    case False
    then show ?thesis by (intro give_up [of g]) (simp_all add: unfold)
  next
    case True
    show ?thesis
    proof (cases "g_wire g = None \<or> g_last_query g = []")
      case gone: True
      then show ?thesis using True by (intro give_up [of ?g]) (auto simp: unfold split: option.splits)
    next
      case False
      then obtain w where w: "g_wire g = Some w" by auto
      show ?thesis
      proof (cases "e_send_ok e")
        case ok: True
        then show ?thesis using True False w by (intro resent [of ?g w]) (simp_all add: unfold)
      next
        case bad: False
        then show ?thesis using True False w by (intro lost [of ?g w]) (simp_all add: unfold)
      qed
    qed
  qed
qed

definition gg_response :: "bytes \<Rightarrow> bool" where
  "gg_response b \<longleftrightarrow> length b \<ge> 4 \<and> (rd16le b = gg_opcode Response \<or> rd16le b = gg_opcode ResponseLegacy)"

lemma consume_cases:
  obtains (late) "\<not> g_pending g" and "length b \<ge> 2" and "rd16le b = gg_opcode Response"
      and "maybe_consume_c2s e g b = (g, True, [])"
  | (unrelated) "\<not> g_pending g \<or> e_now e \<le> g_deadline g" and "maybe_consume_c2s e g b = (g, False, [])"
  | (expired) "g_pending g" and "g_deadline g < e_now e"
      and "maybe_consume_c2s e g b = (fst (retry_or_give_up e g), False, snd (retry_or_give_up e g))"
  | (answered) "g_pending g" and "e_now e \<le> g_deadline g" and "gg_response b"
      and "maybe_consume_c2s e g b = (gg_idle g, True, [To_kore (take (trim_to_pkt_len b) b)])"
proof (cases "g_pending g")
  case False
  show ?thesis
  proof (cases "length b \<ge> 2 \<and> rd16le b = gg_opcode Response")
    case True
    then show ?thesis using False by (intro late) (simp_all add: maybe_consume_c2s_def)
  next
    case no: False
    then show ?thesis using False by (intro unrelated) (auto simp: maybe_consume_c2s_def)
  qed
next
  case True
  show ?thesis
  proof (cases "g_deadline g < e_now e")
    case late: True
    then show ?thesis using True by (intro expired) (simp_all add: maybe_consume_c2s_def split_beta Let_def)
  next
    case intime: False
    show ?thesis
    proof (cases "gg_response b")
      case resp: True
      then show ?thesis using True intime
        by (intro answered) (auto simp: maybe_consume_c2s_def gg_response_def Let_def)
    next
      case no: False
      have "maybe_consume_c2s e g b = (g, False, [])"
        using True intime no by (simp add: maybe_consume_c2s_def gg_response_def Let_def)
      then show ?thesis using intime by (intro unrelated) simp_all
    qed
  qed
qed

section \<open>The invariant and the shape of the traffic\<close>

definition gg_challenge :: "bytes \<Rightarrow> bool" where
  "gg_challenge b \<longleftrightarrow> length b \<ge> 4 \<and> rd16le b = gg_opcode Challenge"

definition gg_inv :: "int \<Rightarrow> 'w bridge \<Rightarrow> bool" where
  "gg_inv m g \<longleftrightarrow> g_max_retries g = m \<and> 0 \<le> g_retry_count g
     \<and> (g_pending g \<longrightarrow> gg_challenge (g_last_query g) \<and> g_retry_count g \<le> max 0 m)
     \<and> (\<not> g_pending g \<longrightarrow> g_retry_count g = 0)"

fun gg_good :: "'w gg_action \<Rightarrow> bool" where
  "gg_good (To_client w b) = gg_challenge b"
| "gg_good (To_kore b) = gg_response b"
| "gg_good (To_flow b) = True"

lemma rd16le_take: "2 \<le> n \<Longrightarrow> rd16le (take n b) = rd16le b"
  by (simp add: rd16le_def)

lemma rd16le_challenge [simp]: "rd16le (0xCF # 0x09 # r) = 0x09CF"
  by (simp add: rd16le_def)

lemma frame_gg_query_challenge: "gg_challenge (fst (frame_gg_query q))"
  by (auto simp: frame_gg_query_def gg_challenge_def Let_def rd16le_take wire_simps)

lemma trim_bounds: "4 \<le> length b \<Longrightarrow> 4 \<le> trim_to_pkt_len b \<and> trim_to_pkt_len b \<le> length b"
  by (simp add: trim_to_pkt_len_def Let_def)

lemma trimmed_response: "gg_response b \<Longrightarrow> gg_response (take (trim_to_pkt_len b) b)"
  using trim_bounds [of b] by (simp add: gg_response_def rd16le_take)

lemma gg_inv_retry:
  assumes "gg_inv m g" and "g_pending g"
  shows "gg_inv m (fst (retry_or_give_up e g))"
  by (cases rule: retry_cases [of e g]) (use assms in \<open>simp_all add: gg_inv_def\<close>)

lemma gg_inv_step: "gg_inv m g \<Longrightarrow> gg_inv m (fst (gg_step g ev))"
proof (cases ev)
  case (Gg_bind w)
  assume "gg_inv m g"
  then show ?thesis by (simp add: Gg_bind bindClientWire_def gg_inv_def)
next
  case (Gg_query e q)
  assume inv: "gg_inv m g"
  show ?thesis
    by (cases rule: on_query_cases [of g e q])
       (use inv in \<open>simp_all add: Gg_query gg_inv_def frame_gg_query_challenge\<close>)
next
  case (Gg_c2s e b)
  assume inv: "gg_inv m g"
  show ?thesis
    by (cases rule: consume_cases [of g b e])
       (use inv gg_inv_retry [OF inv, of e] in \<open>simp_all add: Gg_c2s gg_inv_def\<close>)
qed

lemma gg_out_step:
  assumes "gg_inv m g" and "out \<in> set (snd (gg_step g ev))"
  shows "gg_good out"
proof (cases ev)
  case (Gg_query e q)
  show ?thesis
    by (cases rule: on_query_cases [of g e q])
       (use assms(2) in \<open>simp_all add: Gg_query frame_gg_query_challenge\<close>)
next
  case (Gg_c2s e b)
  have retry: "x \<in> set (snd (retry_or_give_up e g)) \<Longrightarrow> g_pending g \<Longrightarrow> gg_good x" for x
    by (cases rule: retry_cases [of e g]) (use assms(1) in \<open>simp_all add: gg_inv_def\<close>)
  show ?thesis
    by (cases rule: consume_cases [of g b e])
       (use assms(2) retry trimmed_response [of b] in \<open>auto simp: Gg_c2s\<close>)
qed (use assms(2) in simp)

interpretation gg_machine: output_machine gg_step "gg_inv m" gg_good
  by unfold_locales (rule gg_inv_step, assumption, rule gg_out_step)

text \<open>The bridge as it is built and set up, before any traffic.\<close>

definition fresh_bridge :: "int \<Rightarrow> int \<Rightarrow> bool \<Rightarrow> int \<Rightarrow> int \<Rightarrow> 'w bridge" where
  "fresh_bridge retries ms enabled lo hi =
     set_max_retries retries (set_timeout_randomization enabled lo hi (set_timeout ms new_bridge))"

lemma gg_inv_fresh: "gg_inv m (fresh_bridge m ms en lo hi)"
  by (simp add: gg_inv_def fresh_bridge_def set_max_retries_def set_timeout_randomization_def
      set_timeout_def new_bridge_def)

text \<open>
  Only GameGuard traffic crosses the bridge. Whatever the events, every packet it sends to the
  client is a challenge (opcode 09CF with its four-byte header) and every packet it sends to
  OpenKore a response (opcode 09D0 or 099F with its header).
\<close>

theorem gg_traffic_shape:
  assumes "out \<in> set (snd (run gg_step (fresh_bridge m ms en lo hi) es))"
  shows "case out of To_client w b \<Rightarrow> 4 \<le> length b \<and> rd16le b = gg_opcode Challenge
       | To_kore b \<Rightarrow> 4 \<le> length b \<and> (rd16le b = gg_opcode Response \<or> rd16le b = gg_opcode ResponseLegacy)
       | To_flow b \<Rightarrow> True"
  using gg_machine.out_run [OF gg_inv_fresh assms]
  by (cases out) (simp_all add: gg_challenge_def gg_response_def)

text \<open>A concrete session: one raw query, answered in time.\<close>

definition env_at :: "int \<Rightarrow> gg_env" where
  "env_at t = \<lparr>e_now = t, e_now2 = t, e_percent = 100, e_send_ok = True\<rparr>"

lemma env_at_fields [simp]:
  "e_now (env_at t) = t" "e_now2 (env_at t) = t" "e_percent (env_at t) = 100" "e_send_ok (env_at t)"
  by (simp_all add: env_at_def)

lemmas gg_eval = fresh_bridge_def set_max_retries_def set_timeout_randomization_def set_timeout_def
  new_bridge_def bindClientWire_def on_query_from_kore_def get_randomized_timeout_def after_ms_def
  frame_gg_query_def rd16le_def wire_simps maybe_consume_c2s_def trim_to_pkt_len_def gg_idle_def
  retry_or_give_up_def Let_def

lemma gg_traffic_shape_witness:
  "4 \<le> length [0xCF, 0x09, 0x06, 0x00, 1, 2 :: u8]
   \<and> rd16le [0xCF, 0x09, 0x06, 0x00, 1, 2] = gg_opcode Challenge"
proof -
  have "To_client () [0xCF, 0x09, 0x06, 0x00, 1, 2]
     \<in> set (snd (run gg_step (fresh_bridge 3 3000 False 80 120)
          [Gg_bind (Some ()), Gg_query (env_at 0) [1, 2]]))"
    by (simp add: gg_eval)
  from gg_traffic_shape [OF this] show ?thesis by simp
qed

section \<open>Budgets\<close>

fun is_to_client :: "'w gg_action \<Rightarrow> bool" where
  "is_to_client (To_client w b) = True"
| "is_to_client _ = False"

fun is_to_kore :: "'w gg_action \<Rightarrow> bool" where
  "is_to_kore (To_kore b) = True"
| "is_to_kore _ = False"

fun is_gg_query :: "'w gg_event \<Rightarrow> bool" where
  "is_gg_query (Gg_query e q) = True"
| "is_gg_query _ = False"

definition retries_left :: "'w bridge \<Rightarrow> nat" where
  "retries_left g = (if g_pending g then nat (g_max_retries g - g_retry_count g) else 0)"

interpretation gg_sends: budget_machine gg_step "gg_inv m" "\<lambda>a. of_bool (is_to_client a)"
  retries_left "\<lambda>e. of_bool (is_gg_query e) * (1 + nat m)"
proof unfold_locales
  fix g :: "'w bridge" and ev
  assume inv: "gg_inv m g"
  have m: "g_max_retries g = m" using inv by (simp add: gg_inv_def)
  show "sum_list (map (\<lambda>a. of_bool (is_to_client a)) (snd (gg_step g ev))) + retries_left (fst (gg_step g ev))
      \<le> retries_left g + of_bool (is_gg_query ev) * (1 + nat m)"
  proof (cases ev)
    case (Gg_bind w)
    then show ?thesis by (simp add: bindClientWire_def retries_left_def)
  next
    case (Gg_query e q)
    show ?thesis
      by (cases rule: on_query_cases [of g e q]) (simp_all add: Gg_query retries_left_def m)
  next
    case (Gg_c2s e b)
    have retry: "sum_list (map (\<lambda>a. of_bool (is_to_client a)) (snd (retry_or_give_up e g)))
        + retries_left (fst (retry_or_give_up e g)) \<le> retries_left g" if "g_pending g"
      by (cases rule: retry_cases [of e g]) (simp_all add: retries_left_def that)
    show ?thesis
      by (cases rule: consume_cases [of g b e]) (use retry in \<open>simp_all add: Gg_c2s retries_left_def\<close>)
  qed
qed

interpretation gg_replies: budget_machine gg_step "gg_inv m" "\<lambda>a. of_bool (is_to_kore a)"
  "\<lambda>g. of_bool (g_pending g)" "\<lambda>e. of_bool (is_gg_query e)"
proof unfold_locales
  fix g :: "'w bridge" and ev
  show "sum_list (map (\<lambda>a. of_bool (is_to_kore a)) (snd (gg_step g ev))) + of_bool (g_pending (fst (gg_step g ev)))
      \<le> of_bool (g_pending g) + (of_bool (is_gg_query ev) :: nat)"
  proof (cases ev)
    case (Gg_bind w)
    then show ?thesis by (simp add: bindClientWire_def)
  next
    case (Gg_query e q)
    show ?thesis by (cases rule: on_query_cases [of g e q]) (simp_all add: Gg_query)
  next
    case (Gg_c2s e b)
    have retry: "sum_list (map (\<lambda>a. of_bool (is_to_kore a)) (snd (retry_or_give_up e g))) = (0 :: nat)"
      by (cases rule: retry_cases [of e g]) simp_all
    show ?thesis by (cases rule: consume_cases [of g b e]) (simp_all add: Gg_c2s retry)
  qed
qed

lemma retries_left_fresh [simp]: "retries_left (fresh_bridge m ms en lo hi) = 0"
  and pending_fresh [simp]: "\<not> g_pending (fresh_bridge m ms en lo hi)"
  by (simp_all add: gg_eval retries_left_def)

text \<open>
  C13: Retransmission is bounded. Over any interleaving of queries, client packets and wire
  changes, the challenges sent to clients number at most one plus the retry limit for each query,
  and the replies sent to OpenKore at most one for each query.
\<close>

theorem gg_budget:
  "length (filter is_to_client (snd (run gg_step (fresh_bridge m ms en lo hi) es)))
     \<le> length (filter is_gg_query es) * (1 + nat m)
   \<and> length (filter is_to_kore (snd (run gg_step (fresh_bridge m ms en lo hi) es)))
     \<le> length (filter is_gg_query es)"
  using gg_sends.pay_run [OF gg_inv_fresh, of m ms en lo hi es]
    gg_replies.pay_run [OF gg_inv_fresh, of m ms en lo hi es]
  unfolding sum_list_of_bool sum_list_of_bool_times by simp

section \<open>When OpenKore gets a reply\<close>

lemma retry_never_replies: "To_kore r \<notin> set (snd (retry_or_give_up e g))"
  by (cases rule: retry_cases [of e g]) simp_all

text \<open>
  C2: A reply reaches OpenKore in exactly one situation: the client packet is a response with its
  four-byte header, a query is outstanding and its deadline has not passed. The reply is that
  packet, cut to its own length field when other frames were coalesced behind it.
\<close>

theorem gg_reply_exactly:
  "To_kore r \<in> set (snd (gg_step g ev)) \<longleftrightarrow>
     (\<exists>e b. ev = Gg_c2s e b \<and> g_pending g \<and> e_now e \<le> g_deadline g \<and> gg_response b
        \<and> r = take (trim_to_pkt_len b) b)"
proof (cases ev)
  case (Gg_query e q)
  then show ?thesis by (cases rule: on_query_cases [of g e q]) simp_all
next
  case (Gg_c2s e b)
  show ?thesis
  proof (cases rule: consume_cases [of g b e])
    case unrelated
    then show ?thesis
      using Gg_c2s by (auto simp: maybe_consume_c2s_def gg_response_def Let_def split: if_splits)
  qed (auto simp: Gg_c2s retry_never_replies)
qed simp

text \<open>
  C25: A response that arrives after the deadline is not used. Whatever it contains, it is not sent
  to OpenKore and it is passed on to the login or char flow; with retries left and a live wire
  the challenge is sent again and the query stays outstanding.
\<close>

theorem gg_late_response_is_not_delivered:
  assumes "g_pending g" and "g_deadline g < e_now e"
  shows "To_kore r \<notin> set (snd (gg_step g (Gg_c2s e b)))
    \<and> last (snd (gg_step g (Gg_c2s e b))) = To_flow b
    \<and> (g_retry_count g < g_max_retries g \<and> g_wire g = Some w \<and> g_last_query g \<noteq> [] \<and> e_send_ok e
       \<longrightarrow> snd (gg_step g (Gg_c2s e b)) = [To_client w (g_last_query g), To_flow b]
          \<and> g_pending (fst (gg_step g (Gg_c2s e b))))"
proof (cases rule: consume_cases [of g b e])
  case expired
  then show ?thesis
    using assms(1) retry_never_replies [of r e g]
    by (cases rule: retry_cases [of e g]) (auto simp: expired(3))
qed (use assms in simp_all)

lemma gg_late_response_is_not_delivered_witness:
  "let g = fst (run gg_step (fresh_bridge 3 3000 False 80 120) [Gg_bind (Some ()), Gg_query (env_at 0) [1]]);
       b = [0xD0, 0x09, 0x06, 0x00, 7, 7]; e = env_at 3000000001
   in snd (gg_step g (Gg_c2s e b)) = [To_client () [0xCF, 0x09, 0x05, 0x00, 1], To_flow b]"
proof -
  define g :: "unit bridge" where
    "g = fst (run gg_step (fresh_bridge 3 3000 False 80 120) [Gg_bind (Some ()), Gg_query (env_at 0) [1]])"
  have f: "g_pending g" "g_deadline g = 3000000000" "g_retry_count g = 0" "g_max_retries g = 3"
      "g_wire g = Some ()" "g_last_query g = [0xCF, 0x09, 0x05, 0x00, 1]"
    by (simp_all add: g_def gg_eval)
  have "g_deadline g < e_now (env_at 3000000001)" by (simp add: f)
  from gg_late_response_is_not_delivered [OF f(1) this, of _ "[0xD0, 0x09, 0x06, 0x00, 7, 7]" "()"]
  show ?thesis unfolding Let_def g_def [symmetric] by (simp add: f)
qed

section \<open>A complete exchange\<close>

definition gg_client_reads :: "bytes \<Rightarrow> (u16 \<times> nat \<times> bytes) option" where
  "gg_client_reads p =
     (if length p < 4 then None
      else Some (rd16le p, unat (rd16le (drop 2 p)), drop 4 p))"

lemma frame_gg_query_raw:
  assumes "rd16le q \<noteq> gg_opcode Challenge" and "length q < 65532"
  shows "gg_client_reads (fst (frame_gg_query q)) = Some (gg_opcode Challenge, 4 + length q, q)"
proof -
  have "unat (of_nat (4 + length q) :: u16) = 4 + length q"
    by (rule of_nat_u16_inverse) (use assms in simp)
  then show ?thesis
    using assms(1) unfolding frame_gg_query_def gg_client_reads_def by (simp add: wire_simps Let_def)
qed

text \<open>
  The exchange the bridge exists for. From an idle bridge with a live wire, a raw query is put
  on the wire as one challenge frame whose payload is the query; if the client's response comes
  within the timeout, OpenKore is sent that response cut to its length field, nothing else is
  sent to anyone, and the bridge is idle again.
\<close>

theorem gg_exchange:
  assumes "\<not> g_pending g" and "g_wire g = Some w" and "\<not> g_randomize g" and "e_send_ok e"
    and "rd16le q \<noteq> gg_opcode Challenge" and "length q < 65532"
    and "gg_response r" and "e_now e' \<le> after_ms (e_now e) (g_base_timeout g)"
  shows "\<exists>p g'. run gg_step g [Gg_query e q, Gg_c2s e' r] = (g', [To_client w p, To_kore (take (trim_to_pkt_len r) r)])
    \<and> gg_client_reads p = Some (gg_opcode Challenge, 4 + length q, q) \<and> \<not> g_pending g'"
proof (cases rule: on_query_cases [of g e q])
  case dropped
  then show ?thesis using assms by simp
next
  case (sent w' g1)
  have w: "w' = w" using sent(2) assms(2) by simp
  have d: "g_deadline g1 = after_ms (e_now e) (g_base_timeout g)"
    using sent(9) assms(3) by (simp add: get_randomized_timeout_def)
  have "maybe_consume_c2s e' g1 r = (gg_idle g1, True, [To_kore (take (trim_to_pkt_len r) r)])"
    using sent(4) assms(4,7,8) d
    by (auto simp: maybe_consume_c2s_def gg_response_def Let_def)
  then show ?thesis
    using sent(3) frame_gg_query_raw [OF assms(5,6)] by (simp add: run.simps(2) w)
qed

lemma gg_exchange_witness:
  "\<exists>p g'. run gg_step (fst (run gg_step (fresh_bridge 3 3000 False 80 120) [Gg_bind (Some ())]))
      [Gg_query (env_at 0) [1, 2], Gg_c2s (env_at 100) [0xD0, 0x09, 0x06, 0x00, 7, 7]]
      = (g', [To_client () p, To_kore (take (trim_to_pkt_len [0xD0, 0x09, 0x06, 0x00, 7, 7]) [0xD0, 0x09, 0x06, 0x00, 7, 7])])
    \<and> gg_client_reads p = Some (gg_opcode Challenge, 4 + length [1, 2 :: u8], [1, 2]) \<and> \<not> g_pending g'"
  by (rule gg_exchange) (simp_all add: gg_eval gg_response_def)

section \<open>Time only passes with client traffic\<close>

fun is_gg_c2s :: "'w gg_event \<Rightarrow> bool" where
  "is_gg_c2s (Gg_c2s e b) = True"
| "is_gg_c2s _ = False"

lemma pending_ignores:
  "g_pending g \<Longrightarrow> \<not> is_gg_c2s ev \<Longrightarrow> g_pending (fst (gg_step g ev)) \<and> snd (gg_step g ev) = []"
  by (cases ev) (simp_all add: bindClientWire_def on_query_from_kore_def)

text \<open>
  C27: The timeout is noticed only when the client speaks. Once a query is outstanding, any number
  of further queries and wire changes, however late, produce no output and leave it outstanding:
  without a packet from the client there is no retry, no reply and no new query.
\<close>

theorem gg_stuck_without_client_traffic:
  assumes "g_pending g" and "list_all (\<lambda>ev. \<not> is_gg_c2s ev) es"
  shows "snd (run gg_step g es) = [] \<and> g_pending (fst (run gg_step g es))"
  using assms by (induction es arbitrary: g) (simp_all add: pending_ignores)

lemma gg_stuck_without_client_traffic_witness:
  "let g = fst (run gg_step (fresh_bridge 3 3000 False 80 120) [Gg_bind (Some ()), Gg_query (env_at 0) [1]])
   in snd (run gg_step g [Gg_query (env_at 9000000000) [2]]) = []
      \<and> g_pending (fst (run gg_step g [Gg_query (env_at 9000000000) [2]]))"
  unfolding Let_def
  by (rule gg_stuck_without_client_traffic) (simp_all add: gg_eval)

section \<open>Giving up\<close>

text \<open>Client packets each of which arrives after the deadline that is then in force.\<close>

fun late_packets :: "int \<Rightarrow> int \<Rightarrow> (gg_env \<times> bytes) list \<Rightarrow> bool" where
  "late_packets ms d [] = True"
| "late_packets ms d ((e, b) # ps) =
     (d < e_now e \<and> e_send_ok e \<and> late_packets ms (after_ms (e_now2 e) ms) ps)"

definition c2s_events :: "(gg_env \<times> bytes) list \<Rightarrow> 'w gg_event list" where
  "c2s_events ps = map (\<lambda>(e, b). Gg_c2s e b) ps"

lemma retry_exhausted: "g_max_retries g \<le> g_retry_count g \<Longrightarrow> retry_or_give_up e g = (gg_idle g, [])"
  by (simp add: retry_or_give_up_def)

lemma retry_resends:
  assumes "g_retry_count g < g_max_retries g" "g_wire g = Some w" "g_last_query g \<noteq> []" "e_send_ok e"
  shows "retry_or_give_up e g =
    (g\<lparr>g_retry_count := g_retry_count g + 1, g_timeout := get_randomized_timeout e g,
       g_deadline := after_ms (e_now2 e) (get_randomized_timeout e g)\<rparr>, [To_client w (g_last_query g)])"
  using assms by (simp add: retry_or_give_up_def Let_def)

lemma gives_up:
  assumes "g_pending g" "\<not> g_randomize g" "g_wire g = Some w" "g_last_query g \<noteq> []"
    and "late_packets (g_base_timeout g) (g_deadline g) ps"
    and "nat (g_max_retries g - g_retry_count g) = n" and "length ps = n + 1"
  shows "\<not> g_pending (fst (run gg_step g (c2s_events ps)))
    \<and> filter is_to_client (snd (run gg_step g (c2s_events ps))) = replicate n (To_client w (g_last_query g))"
  using assms
proof (induction n arbitrary: g ps)
  case 0
  then obtain e b where ps: "ps = [(e, b)]" by (cases ps) auto
  have "maybe_consume_c2s e g b = (gg_idle g, False, [])"
    using 0 by (simp add: ps maybe_consume_c2s_def retry_exhausted)
  then show ?case by (simp add: ps c2s_events_def)
next
  case (Suc n)
  obtain e b ps' where ps: "ps = (e, b) # ps'" using Suc.prems(7) by (cases ps) auto
  let ?g = "g\<lparr>g_retry_count := g_retry_count g + 1, g_timeout := get_randomized_timeout e g,
       g_deadline := after_ms (e_now2 e) (get_randomized_timeout e g)\<rparr>"
  have r: "retry_or_give_up e g = (?g, [To_client w (g_last_query g)])"
    using Suc.prems by (intro retry_resends) (auto simp: ps)
  have step: "gg_step g (Gg_c2s e b) = (?g, [To_client w (g_last_query g), To_flow b])"
    using Suc.prems(1,5) by (simp add: ps maybe_consume_c2s_def r)
  have "\<not> g_pending (fst (run gg_step ?g (c2s_events ps')))
    \<and> filter is_to_client (snd (run gg_step ?g (c2s_events ps'))) = replicate n (To_client w (g_last_query ?g))"
    using Suc.prems by (intro Suc.IH) (auto simp: ps get_randomized_timeout_def)
  then show ?case using step by (simp add: ps c2s_events_def)
qed

text \<open>
  C26: The bridge gives up. If the client keeps sending packets but each arrives after the deadline
  then in force, an outstanding query is resent once for each retry that is left, and with the
  next packet the bridge is idle and takes new queries again.
\<close>

theorem gg_gives_up:
  assumes "g_pending g" and "\<not> g_randomize g" and "g_wire g = Some w" and "g_last_query g \<noteq> []"
    and "late_packets (g_base_timeout g) (g_deadline g) ps"
    and "length ps = nat (g_max_retries g - g_retry_count g) + 1"
  shows "\<not> g_pending (fst (run gg_step g (c2s_events ps)))
    \<and> filter is_to_client (snd (run gg_step g (c2s_events ps)))
      = replicate (nat (g_max_retries g - g_retry_count g)) (To_client w (g_last_query g))"
  using gives_up [OF assms(1-5) refl assms(6)] .

lemma gg_gives_up_witness:
  "let g = fst (run gg_step (fresh_bridge 1 3000 False 80 120) [Gg_bind (Some ()), Gg_query (env_at 0) [1]]);
       ps = [(env_at 4000000000, [0x7D, 0, 1]), (env_at 8000000000, [0x7D, 0, 1])]
   in filter is_to_client (snd (run gg_step g (c2s_events ps))) = [To_client () [0xCF, 0x09, 0x05, 0x00, 1]]"
proof -
  define g :: "unit bridge" where
    "g = fst (run gg_step (fresh_bridge 1 3000 False 80 120) [Gg_bind (Some ()), Gg_query (env_at 0) [1]])"
  have f: "g_pending g" "\<not> g_randomize g" "g_wire g = Some ()" "g_last_query g = [0xCF, 0x09, 0x05, 0x00, 1]"
      "g_deadline g = 3000000000" "g_base_timeout g = 3000" "g_max_retries g = 1" "g_retry_count g = 0"
    by (simp_all add: g_def gg_eval)
  let ?ps = "[(env_at 4000000000, [0x7D, 0, 1]), (env_at 8000000000, [0x7D, 0, 1 :: u8])]"
  have "late_packets (g_base_timeout g) (g_deadline g) ?ps" by (simp add: f after_ms_def)
  from gg_gives_up [OF f(1-3) _ this] show ?thesis
    unfolding Let_def g_def [symmetric] by (simp add: f)
qed

section \<open>Settings without effect, and the timeout\<close>

definition gg_tuned :: "GGStrategy \<Rightarrow> nat \<Rightarrow> nat \<Rightarrow> int \<Rightarrow> 'w bridge \<Rightarrow> 'w bridge" where
  "gg_tuned st mn mx gw g = set_strategy st (set_size_bounds mn mx (set_greedy_window gw g))"

lemmas gg_tuned_defs = gg_tuned_def set_strategy_def set_size_bounds_def set_greedy_window_def

lemma gg_step_tuned:
  "gg_step (gg_tuned st mn mx gw g) ev
     = (gg_tuned st mn mx gw (fst (gg_step g ev)), snd (gg_step g ev))"
proof (cases ev)
  case (Gg_bind w)
  then show ?thesis by (simp add: bindClientWire_def gg_tuned_defs)
next
  case (Gg_query e q)
  have "on_query_from_kore e (gg_tuned st mn mx gw g) q
      = (gg_tuned st mn mx gw (fst (on_query_from_kore e g q)), snd (on_query_from_kore e g q))"
    by (cases "g_wire g")
       (simp_all add: on_query_from_kore_def get_randomized_timeout_def gg_tuned_defs Let_def split_beta)
  then show ?thesis by (simp add: Gg_query)
next
  case (Gg_c2s e b)
  have r: "retry_or_give_up e (gg_tuned st mn mx gw g)
      = (gg_tuned st mn mx gw (fst (retry_or_give_up e g)), snd (retry_or_give_up e g))"
    by (cases "g_wire g")
       (simp_all add: retry_or_give_up_def get_randomized_timeout_def gg_tuned_defs gg_idle_def Let_def)
  have f: "g_pending (gg_tuned st mn mx gw g) = g_pending g"
      "g_deadline (gg_tuned st mn mx gw g) = g_deadline g"
      "gg_idle (gg_tuned st mn mx gw g) = gg_tuned st mn mx gw (gg_idle g)"
    by (simp_all add: gg_tuned_defs gg_idle_def)
  show ?thesis
    by (simp add: Gg_c2s maybe_consume_c2s_def r f split_beta Let_def)
qed

text \<open>
  The response strategy, the size bounds and the greedy window are never consulted. A bridge
  set up with any values for them sends, over every run, exactly what one set up with any other
  values sends; in particular \<open>AUTO\<close>, which the server selects, behaves as \<open>FULL_FRAME\<close>.
\<close>

theorem gg_settings_without_effect:
  "snd (run gg_step (set_strategy st (set_size_bounds mn mx (set_greedy_window gw g))) es) = snd (run gg_step g es)"
proof -
  have "snd (run gg_step (gg_tuned st mn mx gw g) es) = snd (run gg_step g es)"
    by (induction es arbitrary: g) (simp_all add: gg_step_tuned)
  then show ?thesis by (simp add: gg_tuned_def)
qed

text \<open>
  A randomised timeout stays within its percentages of the base timeout: for a percentage drawn
  between the configured bounds, it lies between the two truncated scalings of the base.
\<close>

theorem gg_timeout_range:
  assumes "0 \<le> g_base_timeout g" and "0 \<le> g_min_percent g"
    and "g_min_percent g \<le> e_percent e" and "e_percent e \<le> g_max_percent g" and "g_randomize g"
  shows "g_base_timeout g * g_min_percent g div 100 \<le> get_randomized_timeout e g
    \<and> get_randomized_timeout e g \<le> g_base_timeout g * g_max_percent g div 100"
proof -
  have "0 \<le> g_base_timeout g * e_percent e" using assms by simp
  then have "get_randomized_timeout e g = g_base_timeout g * e_percent e div 100"
    using assms(5) by (auto simp: get_randomized_timeout_def signed_divide_int_def sgn_if)
  then show ?thesis using assms by (simp add: zdiv_mono1 mult_left_mono)
qed

lemma gg_timeout_range_witness:
  "let g = fresh_bridge 3 3000 True 80 120; e = env_at 0 in
   g_base_timeout g * g_min_percent g div 100 \<le> get_randomized_timeout e g
   \<and> get_randomized_timeout e g \<le> g_base_timeout g * g_max_percent g div 100"
  unfolding Let_def by (rule gg_timeout_range) (simp_all add: gg_eval)

end
