(* ===== verification/Query_Server.thy ===== *)
theory Query_Server
  imports Bus Framing
begin

text \<open>
  The TCP endpoint towards OpenKore, \<open>interface/query/QueryServer.cpp\<close>. The object arms at most a
  few asynchronous operations at a time (accept, read the length, read the rest, write the
  reply); what is outstanding is part of the state, and the completion of one of them with an
  error or a result is an event, which runs its handler. Socket objects are numbered, since
  \<open>async_accept\<close> replaces the socket and so destroys the previous one. An exception that leaves a
  handler ends \<open>io_context::run\<close> in \<open>main\<close>, hence the process: it sets \<open>qs_crashed\<close>.
\<close>

section \<open>State\<close>

datatype qs_op =
    Accept_op nat
  | Read_len_op nat
  | Read_rest_op nat nat
  | Write_op nat bytes

record query_server =
  qs_listening :: bool
  qs_sock :: "(nat \<times> bool) option"
  qs_next :: nat
  qs_on_query :: bool
  qs_hdr :: bytes
  qs_frame :: bytes
  qs_ops :: "qs_op list"
  qs_crashed :: bool

text \<open>\<open>sock\<close> is a null pointer, or a socket with its number and whether it is open.\<close>

definition new_query_server :: query_server where
  "new_query_server =
     \<lparr>qs_listening = False, qs_sock = None, qs_next = 0, qs_on_query = False,
      qs_hdr = [0, 0, 0, 0], qs_frame = [], qs_ops = [], qs_crashed = False\<rparr>"

datatype completion =
    C_error
  | C_accepted bool
  | C_bytes bytes
  | C_written

datatype qs_output =
    Deliver_query bytes
  | Reply_written nat bytes

section \<open>Operations\<close>

definition arm :: "qs_op \<Rightarrow> query_server \<Rightarrow> query_server" where
  "arm x s = s\<lparr>qs_ops := qs_ops s @ [x]\<rparr>"

definition current_sock :: "query_server \<Rightarrow> nat" where
  "current_sock s = (case qs_sock s of Some (k, open) \<Rightarrow> k | None \<Rightarrow> 0)"

definition async_accept :: "query_server \<Rightarrow> query_server" where
  "async_accept s =
     (let k = qs_next s; s = s\<lparr>qs_sock := Some (k, False), qs_next := k + 1\<rparr>
      in arm (Accept_op k) s)"

definition read_len :: "query_server \<Rightarrow> query_server" where
  "read_len s = arm (Read_len_op (current_sock s)) s"

definition read_rest :: "nat \<Rightarrow> query_server \<Rightarrow> query_server" where
  "read_rest remain s = arm (Read_rest_op (current_sock s) remain) s"

definition recycle :: "query_server \<Rightarrow> query_server" where
  "recycle s =
     async_accept (case qs_sock s of None \<Rightarrow> s | Some (k, open) \<Rightarrow> s\<lparr>qs_sock := Some (k, False)\<rparr>)"

text \<open>\<open>start\<close>: the outcomes of parsing the address and of open, bind and listen are given.\<close>

definition qs_start :: "bool \<Rightarrow> bool \<Rightarrow> bool \<Rightarrow> bool \<Rightarrow> query_server \<Rightarrow> query_server" where
  "qs_start addr_ok open_ok bind_ok listen_ok s =
     (if \<not> addr_ok then s
      else if \<not> open_ok then s
      else if \<not> bind_ok then s
      else if \<not> listen_ok then s
      else async_accept (s\<lparr>qs_listening := True\<rparr>))"

definition qs_stop :: "query_server \<Rightarrow> query_server" where
  "qs_stop s =
     (let s = s\<lparr>qs_listening := False\<rparr>
      in case qs_sock s of None \<Rightarrow> s | Some (k, open) \<Rightarrow> s\<lparr>qs_sock := Some (k, False)\<rparr>)"

definition onQuery :: "query_server \<Rightarrow> query_server" where
  "onQuery s = s\<lparr>qs_on_query := True\<rparr>"

definition on_accept :: "nat \<Rightarrow> completion \<Rightarrow> query_server \<Rightarrow> query_server \<times> qs_output list" where
  "on_accept k c s =
     (case c of
        C_accepted has_remote \<Rightarrow>
          (let s = s\<lparr>qs_sock := Some (k, True)\<rparr>
           in if has_remote then (read_len s, []) else (s\<lparr>qs_crashed := True\<rparr>, []))
      | _ \<Rightarrow> (async_accept s, []))"

definition set_prefix :: "bytes \<Rightarrow> bytes \<Rightarrow> bytes" where
  "set_prefix p b = p @ drop (length p) b"

definition resize :: "nat \<Rightarrow> bytes \<Rightarrow> bytes" where
  "resize n b = take n b @ replicate (n - length b) 0"

definition on_read_len :: "completion \<Rightarrow> query_server \<Rightarrow> query_server \<times> qs_output list" where
  "on_read_len c s =
     (case c of
        C_bytes b \<Rightarrow>
          if length b \<noteq> 4 then (recycle s, [])
          else
            (let s = s\<lparr>qs_hdr := b\<rparr>;
                 len = unat (rd_be32 (qs_hdr s))
             in if len < 6 \<or> len > 16 * 2 ^ 20 then (recycle s, [])
                else (let s = s\<lparr>qs_frame := resize len (qs_frame s)\<rparr>;
                          s = s\<lparr>qs_frame := set_prefix (qs_hdr s) (qs_frame s)\<rparr>
                      in (read_rest (len - 4) s, [])))
      | _ \<Rightarrow> (recycle s, []))"

text \<open>What the query callback is given, if anything: the binary \<open>packet\<close> argument of a query.\<close>

definition query_of :: "bus_message \<Rightarrow> bytes option" where
  "query_of msg =
     (if m_options msg = MapOptions \<and> m_messageID msg = QueryId
      then case map_of (m_args_map msg) PacketKey of
             Some v \<Rightarrow> if v_type v = VT_Binary then Some (v_bin v) else None
           | None \<Rightarrow> None
      else None)"

definition on_read_rest :: "nat \<Rightarrow> completion \<Rightarrow> query_server \<Rightarrow> query_server \<times> qs_output list" where
  "on_read_rest expected c s =
     (case c of
        C_bytes b \<Rightarrow>
          if length b \<noteq> expected then (recycle s, [])
          else
            (let s = s\<lparr>qs_frame := take 4 (qs_frame s) @ b\<rparr>
             in case decode (qs_frame s) of
                  Inl e \<Rightarrow> (s, [])
                | Inr (msg, n) \<Rightarrow>
                    (case query_of msg of
                       Some blob \<Rightarrow> (s, if qs_on_query s then [Deliver_query blob] else [])
                     | None \<Rightarrow> (s, [])))
      | _ \<Rightarrow> (recycle s, []))"

definition on_write :: "nat \<Rightarrow> bytes \<Rightarrow> completion \<Rightarrow> query_server \<Rightarrow> query_server \<times> qs_output list" where
  "on_write k buf c s =
     (case c of C_written \<Rightarrow> (recycle s, [Reply_written k buf]) | _ \<Rightarrow> (recycle s, []))"

definition send_reply_bin :: "bytes \<Rightarrow> query_server \<Rightarrow> query_server" where
  "send_reply_bin payload s =
     (case qs_sock s of
        None \<Rightarrow> s
      | Some (k, open) \<Rightarrow>
          if \<not> open then s
          else
            (let msg = packet_message ReplyId payload
             in case encode msg of
                  Inl e \<Rightarrow> s\<lparr>qs_crashed := True\<rparr>
                | Inr buf \<Rightarrow> arm (Write_op k buf) s))"

text \<open>
  Which completions can happen: an accept succeeds only on a listening acceptor, a read or a write
  only on the socket that is current and open. A completion of any other kind is not an event of
  the program and leaves the state alone. Completing an accept into a socket object that was
  destroyed meanwhile is undefined behaviour, recorded as a crash.
\<close>

fun completes :: "query_server \<Rightarrow> qs_op \<Rightarrow> completion \<Rightarrow> bool" where
  "completes s x C_error = True"
| "completes s (Accept_op k) (C_accepted r) = qs_listening s"
| "completes s (Read_len_op k) (C_bytes b) = (qs_sock s = Some (k, True))"
| "completes s (Read_rest_op k n) (C_bytes b) = (qs_sock s = Some (k, True))"
| "completes s (Write_op k buf) C_written = (qs_sock s = Some (k, True))"
| "completes s x c = False"

fun handler :: "qs_op \<Rightarrow> completion \<Rightarrow> query_server \<Rightarrow> query_server \<times> qs_output list" where
  "handler (Accept_op k) c s =
     (if c \<noteq> C_error \<and> current_sock s \<noteq> k then (s\<lparr>qs_crashed := True\<rparr>, []) else on_accept k c s)"
| "handler (Read_len_op k) c s = on_read_len c s"
| "handler (Read_rest_op k n) c s = on_read_rest n c s"
| "handler (Write_op k buf) c s = on_write k buf c s"

definition sendReply :: "bytes \<Rightarrow> query_server \<Rightarrow> query_server" where
  [simp]: "sendReply gg_reply s = send_reply_bin gg_reply s"

datatype qs_event =
    Complete nat completion
  | Send_reply bytes
  | Stop

fun qs_step :: "query_server \<Rightarrow> qs_event \<Rightarrow> query_server \<times> qs_output list" where
  "qs_step s (Complete i c) =
     (if \<not> qs_crashed s \<and> i < length (qs_ops s) \<and> completes s (qs_ops s ! i) c
      then handler (qs_ops s ! i) c (s\<lparr>qs_ops := take i (qs_ops s) @ drop (i + 1) (qs_ops s)\<rparr>)
      else (s, []))"
| "qs_step s (Send_reply r) = (if qs_crashed s then s else sendReply r s, [])"
| "qs_step s Stop = (if qs_crashed s then s else qs_stop s, [])"

definition started_server :: query_server where
  "started_server = qs_start True True True True (onQuery new_query_server)"

lemmas qs_defs = arm_def async_accept_def read_len_def read_rest_def recycle_def on_accept_def
  on_read_len_def on_read_rest_def on_write_def send_reply_bin_def qs_stop_def current_sock_def

section \<open>The frames of the bus on a stream\<close>

text \<open>The tests of \<open>read_len\<close> as a cutter of the connection's byte stream.\<close>

definition bus_cut :: "bytes \<Rightarrow> cut_result" where
  "bus_cut b =
     (if length b < 4 then Need_more
      else let len = unat (rd_be32 b) in
        if len < 6 \<or> len > 16 * 2 ^ 20 then Bad_header
        else if length b < len then Need_more
        else Cut (take len b) (drop len b))"

lemma rd_be32_append: "4 \<le> length p \<Longrightarrow> rd_be32 (p @ x) = rd_be32 p"
  by (cases p) (auto simp: rd_be32_def nth_append)

interpretation bus: cutter bus_cut
proof
  fix b f r x :: bytes
  show "bus_cut b = Cut f r \<Longrightarrow> b = f @ r \<and> f \<noteq> []"
    by (auto simp: bus_cut_def Let_def split: if_splits)
  show "bus_cut b = Cut f r \<Longrightarrow> bus_cut (b @ x) = Cut f (r @ x)"
    by (auto simp: bus_cut_def Let_def rd_be32_append split: if_splits)
  show "bus_cut b = Bad_header \<Longrightarrow> bus_cut (b @ x) = Bad_header"
    by (auto simp: bus_cut_def Let_def rd_be32_append split: if_splits)
qed

lemma bus_cut_lengths:
  assumes "bus_cut b = Cut f r"
  shows "6 \<le> length f" and "length f = unat (rd_be32 (take 4 f))" and "length f \<le> 16777216"
proof -
  have b: "b = f @ r" using bus.cut_split [OF assms] by simp
  have "unat (rd_be32 b) = length f" and "6 \<le> length f" and "length f \<le> 16777216"
    using assms by (auto simp: bus_cut_def Let_def split: if_splits)
  moreover have "rd_be32 b = rd_be32 (take 4 f)"
  proof -
    have "rd_be32 f = rd_be32 (take 4 f)" by (simp add: rd_be32_def)
    then show ?thesis using \<open>6 \<le> length f\<close> by (simp add: b rd_be32_append)
  qed
  ultimately show "6 \<le> length f" and "length f = unat (rd_be32 (take 4 f))" and "length f \<le> 16777216"
    by simp_all
qed

section \<open>Receiving a query\<close>

text \<open>What a complete frame delivers.\<close>

definition delivered :: "bool \<Rightarrow> bytes \<Rightarrow> qs_output list" where
  "delivered subscribed f =
     (case decode f of
        Inl e \<Rightarrow> []
      | Inr (msg, n) \<Rightarrow>
          (case query_of msg of Some q \<Rightarrow> if subscribed then [Deliver_query q] else [] | None \<Rightarrow> []))"

lemma read_len_step:
  assumes "qs_ops s = [Read_len_op k]" and "qs_sock s = Some (k, True)" and "\<not> qs_crashed s"
    and "length h = 4" and "6 \<le> unat (rd_be32 h)" and "unat (rd_be32 h) \<le> 16777216"
  shows "qs_step s (Complete 0 (C_bytes h)) =
    (s\<lparr>qs_hdr := h, qs_frame := h @ drop 4 (resize (unat (rd_be32 h)) (qs_frame s)),
       qs_ops := [Read_rest_op k (unat (rd_be32 h) - 4)]\<rparr>, [])"
  using assms by (simp add: qs_defs set_prefix_def Let_def)

lemma read_rest_step:
  assumes "qs_ops s = [Read_rest_op k n]" and "qs_sock s = Some (k, True)" and "\<not> qs_crashed s"
    and "length b = n" and "4 \<le> length (qs_frame s)"
  shows "qs_step s (Complete 0 (C_bytes b)) =
    (s\<lparr>qs_frame := take 4 (qs_frame s) @ b, qs_ops := []\<rparr>,
     delivered (qs_on_query s) (take 4 (qs_frame s) @ b))"
  using assms by (auto simp: qs_defs delivered_def Let_def split: sum.split option.split)

text \<open>The two reads of one frame, from a connection on which the length read is armed.\<close>

definition reads_of :: "bytes \<Rightarrow> qs_event list" where
  "reads_of f = [Complete 0 (C_bytes (take 4 f)), Complete 0 (C_bytes (drop 4 f))]"

lemma reads_of_frame:
  assumes "qs_ops s = [Read_len_op k]" and "qs_sock s = Some (k, True)" and "\<not> qs_crashed s"
    and "bus_cut stream = Cut f r"
  shows "run qs_step s (reads_of f) =
    (s\<lparr>qs_hdr := take 4 f, qs_frame := f, qs_ops := []\<rparr>,
     delivered (qs_on_query s) f)"
proof -
  note l = bus_cut_lengths [OF assms(4)]
  let ?n = "unat (rd_be32 (take 4 f))"
  let ?s1 = "s\<lparr>qs_hdr := take 4 f, qs_frame := take 4 f @ drop 4 (resize ?n (qs_frame s)),
       qs_ops := [Read_rest_op k (?n - 4)]\<rparr>"
  have 1: "qs_step s (Complete 0 (C_bytes (take 4 f))) = (?s1, [])"
    by (rule read_len_step [OF assms(1-3)]) (use l in simp_all)
  have t: "take 4 (qs_frame ?s1) = take 4 f" using l by simp
  have 2: "qs_step ?s1 (Complete 0 (C_bytes (drop 4 f))) =
    (?s1\<lparr>qs_frame := f, qs_ops := []\<rparr>,
     delivered (qs_on_query s) f)"
    by (subst read_rest_step) (use assms l t in simp_all)
  show ?thesis using 1 2 by (simp add: prod_eq_iff reads_of_def)
qed

text \<open>
  A query is delivered. On a connection whose byte stream begins with a frame of the bus that
  decodes to a query with a binary packet, the two reads deliver exactly that packet, whatever
  bytes come after the frame, and afterwards no operation at all is outstanding.
\<close>

theorem query_is_delivered:
  assumes "qs_ops s = [Read_len_op k]" and "qs_sock s = Some (k, True)" and "\<not> qs_crashed s"
    and "qs_on_query s" and "bus_cut stream = Cut f r" and "decode f = Inr (msg, n)"
    and "query_of msg = Some q"
  shows "snd (run qs_step s (reads_of f)) = [Deliver_query q]
    \<and> qs_ops (fst (run qs_step s (reads_of f))) = []"
  using reads_of_frame [OF assms(1-3,5)] assms by (simp add: delivered_def)

lemma query_of_packet: "query_of (packet_message QueryId q) = Some q"
  by (simp add: query_of_def packet_message_def emplace_def VT_Binary_def)

lemma packet_frame:
  assumes "length mid \<le> 255" and "length q \<le> 0xFFFFFF" and "length q + length mid + 17 \<le> 16777216"
  obtains f where "encode (packet_message mid q) = Inr f" and "length f = length q + length mid + 17"
    and "decode f = Inr (packet_message mid q, length f)" and "\<And>r. bus_cut (f @ r) = Cut f r"
proof -
  let ?n = "length q + length mid + 17"
  let ?f = "be32 (of_nat ?n) @ body_bytes (packet_message mid q)"
  have e: "encode (packet_message mid q) = Inr ?f" and l: "length ?f = ?n"
    using encode_packet_message [OF assms(1,2)] by simp_all
  have d: "decode (?f @ []) = Inr (packet_message mid q, length ?f)"
    by (rule decode_encode [OF e packet_message_wf]) (use assms(3) l in simp)
  have rd: "rd_be32 (?f @ r) = of_nat ?n" for r
    using rd_be32_append [of "be32 (of_nat ?n)" "body_bytes (packet_message mid q) @ r"] by simp
  have u: "unat (of_nat ?n :: u32) = ?n"
    using assms(3) by (subst unat_of_nat) simp
  have "bus_cut (?f @ r) = Cut ?f r" for r
  proof -
    have "bus_cut (?f @ r) = Cut (take ?n (?f @ r)) (drop ?n (?f @ r))"
      unfolding bus_cut_def rd u Let_def using l assms(3) by simp
    then show ?thesis using l by (metis append_eq_conv_conj)
  qed
  then show ?thesis using that [of ?f] e l d by simp
qed

lemma short_packet_frame:
  assumes "length mid \<le> 255" and "length q \<le> 16000000"
  shows "\<exists>f. encode (packet_message mid q) = Inr f \<and> decode f = Inr (packet_message mid q, length f)
    \<and> (\<forall>r. bus_cut (f @ r) = Cut f r)"
proof -
  obtain f where "encode (packet_message mid q) = Inr f" and "length f = length q + length mid + 17"
    and "decode f = Inr (packet_message mid q, length f)" and "\<And>r. bus_cut (f @ r) = Cut f r"
    by (rule packet_frame [of mid q]) (use assms in simp_all)
  then show ?thesis by auto
qed

lemma poseidon_ids [simp]: "length QueryId \<le> 255" "length ReplyId \<le> 255"
  by (simp_all add: QueryId_def ReplyId_def)

text \<open>A connected peer: the server has accepted and reads the length.\<close>

lemma accept_step:
  assumes "qs_ops s = [Accept_op k]" and "qs_sock s = Some (k, False)" and "\<not> qs_crashed s" and "qs_listening s"
  shows "qs_step s (Complete 0 (C_accepted True)) =
    (s\<lparr>qs_sock := Some (k, True), qs_ops := [Read_len_op k]\<rparr>, [])"
  using assms by (simp add: qs_defs Let_def)

lemma started_server_fields:
  "qs_ops started_server = [Accept_op 0]" "qs_sock started_server = Some (0, False)"
  "\<not> qs_crashed started_server" "qs_listening started_server" "qs_on_query started_server"
  "qs_next started_server = 1"
  by (simp_all add: started_server_def qs_start_def onQuery_def new_query_server_def qs_defs Let_def)

definition connected_server :: query_server where
  "connected_server = started_server\<lparr>qs_sock := Some (0, True), qs_ops := [Read_len_op 0]\<rparr>"

lemma connected_server_fields:
  "qs_ops connected_server = [Read_len_op 0]" "qs_sock connected_server = Some (0, True)"
  "\<not> qs_crashed connected_server" "qs_listening connected_server" "qs_on_query connected_server"
  "qs_next connected_server = 1"
  by (simp_all add: connected_server_def started_server_fields)

lemma connect_started: "qs_step started_server (Complete 0 (C_accepted True)) = (connected_server, [])"
  unfolding connected_server_def by (rule accept_step) (simp_all add: started_server_fields)

lemma query_is_delivered_witness:
  "\<exists>f. encode (packet_message QueryId [1, 2]) = Inr f \<and>
     snd (run qs_step connected_server (reads_of f)) = [Deliver_query [1, 2]]"
proof -
  obtain f where f: "encode (packet_message QueryId [1, 2]) = Inr f"
      "decode f = Inr (packet_message QueryId [1, 2], length f)" "\<And>r. bus_cut (f @ r) = Cut f r"
    using short_packet_frame [of QueryId "[1, 2]"] by auto
  show ?thesis
    using query_is_delivered [OF connected_server_fields(1-3,5) f(3) [of "[]"] f(2) query_of_packet] f(1)
    by blast
qed

section \<open>Deafness\<close>

definition is_send_reply :: "qs_event \<Rightarrow> bool" where
  "is_send_reply ev \<longleftrightarrow> (\<exists>r. ev = Send_reply r)"

lemma deaf_step:
  "qs_ops s = [] \<Longrightarrow> \<not> is_send_reply ev \<Longrightarrow> qs_ops (fst (qs_step s ev)) = [] \<and> snd (qs_step s ev) = []"
  by (cases ev) (auto simp: is_send_reply_def qs_stop_def Let_def split: option.splits)

lemma deaf_run:
  "qs_ops s = [] \<Longrightarrow> list_all (\<lambda>ev. \<not> is_send_reply ev) es \<Longrightarrow>
     qs_ops (fst (run qs_step s es)) = [] \<and> snd (run qs_step s es) = []"
  by (induction es arbitrary: s) (simp_all add: deaf_step)

text \<open>
  C12: After one complete frame the endpoint is deaf. Once the server has read a whole frame, be it a
  query, another message or garbage that does not decode, it has nothing armed: no sequence of
  connections, bytes, errors or stops makes it accept, read or deliver anything, until the
  application sends a reply. The handler's comment promises to close and accept again.
\<close>

theorem query_server_deaf_after_frame:
  assumes "qs_ops s = [Read_len_op k]" and "qs_sock s = Some (k, True)" and "\<not> qs_crashed s"
    and "bus_cut stream = Cut f r" and "list_all (\<lambda>ev. \<not> is_send_reply ev) es"
  shows "qs_ops (fst (run qs_step s (reads_of f @ es))) = []
    \<and> snd (run qs_step s (reads_of f @ es)) = snd (run qs_step s (reads_of f))"
  using reads_of_frame [OF assms(1-4)] deaf_run [OF _ assms(5)] by (simp add: run_append)

lemma query_server_deaf_after_frame_witness:
  "snd (run qs_step connected_server (reads_of [0, 0, 0, 6, 9, 0]
      @ [Complete 0 (C_accepted True), Complete 0 (C_bytes [0, 0, 0, 6]), Stop, Complete 0 C_error]))
   = snd (run qs_step connected_server (reads_of [0, 0, 0, 6, 9, 0]))"
proof -
  have "bus_cut [0, 0, 0, 6, 9, 0] = Cut [0, 0, 0, 6, 9, 0] []"
    by (simp add: bus_cut_def rd_be32_def Let_def)
  moreover have "list_all (\<lambda>ev. \<not> is_send_reply ev)
      [Complete 0 (C_accepted True), Complete 0 (C_bytes [0, 0, 0, 6]), Stop, Complete 0 C_error]"
    by (simp add: is_send_reply_def)
  ultimately show ?thesis
    using query_server_deaf_after_frame [OF connected_server_fields(1-3)] by blast
qed

section \<open>The reply\<close>

text \<open>
  C9: A whole exchange with OpenKore. From a freshly started server, a peer connects and sends one
  query frame; the query is delivered; a reply handed to the server is written to that peer as
  one frame that decodes to a reply message with exactly the reply's bytes; then the connection
  is closed and the server accepts again, ready for the next peer.
\<close>

theorem query_server_exchange:
  assumes "encode (packet_message QueryId q) = Inr f" and "length q \<le> 16000000" and "length r \<le> 16000000"
  shows "\<exists>w s'. encode (packet_message ReplyId r) = Inr w
     \<and> run qs_step started_server
         ([Complete 0 (C_accepted True)] @ reads_of f @ [Send_reply r, Complete 0 C_written])
       = (s', [Deliver_query q, Reply_written 0 w])
     \<and> decode w = Inr (packet_message ReplyId r, length w)
     \<and> qs_ops s' = [Accept_op 1] \<and> qs_sock s' = Some (1, False) \<and> qs_listening s' \<and> \<not> qs_crashed s'"
proof -
  obtain f' where f': "encode (packet_message QueryId q) = Inr f'"
      "decode f' = Inr (packet_message QueryId q, length f')" "\<forall>r. bus_cut (f' @ r) = Cut f' r"
    using short_packet_frame [of QueryId q] assms(2) by auto
  then have f: "decode f = Inr (packet_message QueryId q, length f)" "bus_cut (f @ []) = Cut f []"
    using assms(1) spec [OF f'(3), of "[]"] by simp_all
  obtain w where w: "encode (packet_message ReplyId r) = Inr w"
      "decode w = Inr (packet_message ReplyId r, length w)"
    using short_packet_frame [of ReplyId r] assms(3) by auto
  let ?s2 = "connected_server\<lparr>qs_hdr := take 4 f, qs_frame := f, qs_ops := []\<rparr>"
  let ?s3 = "?s2\<lparr>qs_ops := [Write_op 0 w]\<rparr>"
  let ?s4 = "?s2\<lparr>qs_sock := Some (1, False), qs_next := 2, qs_ops := [Accept_op 1]\<rparr>"
  have reads: "run qs_step connected_server (reads_of f) = (?s2, [Deliver_query q])"
    using reads_of_frame [OF connected_server_fields(1-3) f(2)] f(1)
    by (simp add: delivered_def query_of_packet connected_server_fields)
  have send: "qs_step ?s2 (Send_reply r) = (?s3, [])"
    by (simp add: send_reply_bin_def connected_server_fields w arm_def)
  have written: "qs_step ?s3 (Complete 0 C_written) = (?s4, [Reply_written 0 w])"
    by (simp add: connected_server_fields qs_defs Let_def)
  have tail: "run qs_step ?s2 [Send_reply r, Complete 0 C_written] = (?s4, [Reply_written 0 w])"
    by (simp only: prod_eq_iff run_fst_Cons run_snd_Cons send written run.simps(1) fst_conv snd_conv append.simps)
  have head: "run qs_step started_server [Complete 0 (C_accepted True)] = (connected_server, [])"
    by (simp only: prod_eq_iff run_fst_Cons run_snd_Cons connect_started run.simps(1) fst_conv snd_conv append.simps)
  have "run qs_step started_server
         ([Complete 0 (C_accepted True)] @ reads_of f @ [Send_reply r, Complete 0 C_written])
       = (?s4, [Deliver_query q, Reply_written 0 w])"
    by (simp only: run_append head reads tail fst_conv snd_conv) simp
  then show ?thesis
    using w by (intro exI [of _ w] exI [of _ ?s4]) (simp add: connected_server_fields)
qed

lemma query_server_exchange_witness:
  "\<exists>f w s'. encode (packet_message QueryId [1, 2]) = Inr f \<and> run qs_step started_server
         ([Complete 0 (C_accepted True)] @ reads_of f @ [Send_reply [3], Complete 0 C_written])
       = (s', [Deliver_query [1, 2], Reply_written 0 w])"
proof -
  obtain f where f: "encode (packet_message QueryId [1, 2]) = Inr f"
    using short_packet_frame [of QueryId "[1, 2]"] by auto
  then show ?thesis using query_server_exchange [OF f, of "[3]"] by auto
qed

section \<open>Memory and shutdown\<close>

definition qs_bounded :: "query_server \<Rightarrow> bool" where
  "qs_bounded s \<longleftrightarrow> length (qs_frame s) \<le> 16777216
     \<and> (\<forall>k n. Read_rest_op k n \<in> set (qs_ops s) \<longrightarrow> n + 4 \<le> 16777216)"

lemma bounded_drop_op:
  "qs_bounded s \<Longrightarrow> qs_bounded (s\<lparr>qs_ops := take i (qs_ops s) @ drop j (qs_ops s)\<rparr>)"
proof -
  have "set (take i (qs_ops s) @ drop j (qs_ops s)) \<subseteq> set (qs_ops s)"
    by (auto dest: in_set_takeD in_set_dropD)
  then show "qs_bounded s \<Longrightarrow> qs_bounded (s\<lparr>qs_ops := take i (qs_ops s) @ drop j (qs_ops s)\<rparr>)"
    unfolding qs_bounded_def by (simp del: set_append) blast
qed

lemma bounded_arm: "qs_bounded s \<Longrightarrow> \<forall>k n. x = Read_rest_op k n \<longrightarrow> n + 4 \<le> 16777216 \<Longrightarrow> qs_bounded (arm x s)"
  by (auto simp: qs_bounded_def arm_def)

lemma bounded_sock [simp]:
  "qs_bounded (s\<lparr>qs_sock := k\<rparr>) = qs_bounded s" "qs_bounded (s\<lparr>qs_next := n\<rparr>) = qs_bounded s"
  "qs_bounded (s\<lparr>qs_hdr := h\<rparr>) = qs_bounded s" "qs_bounded (s\<lparr>qs_crashed := c\<rparr>) = qs_bounded s"
  "qs_bounded (s\<lparr>qs_listening := l\<rparr>) = qs_bounded s"
  by (simp_all add: qs_bounded_def)

lemma bounded_accept: "qs_bounded s \<Longrightarrow> qs_bounded (async_accept s)"
  by (simp add: async_accept_def Let_def bounded_arm)

lemma bounded_recycle: "qs_bounded s \<Longrightarrow> qs_bounded (recycle s)"
  by (auto simp: recycle_def bounded_accept split: option.split)

lemma bounded_handler:
  assumes b: "qs_bounded s" and n: "\<And>k n. x = Read_rest_op k n \<Longrightarrow> n + 4 \<le> 16777216"
  shows "qs_bounded (fst (handler x c s))"
proof (cases x)
  case (Accept_op k)
  show ?thesis
    using b by (cases c) (simp_all add: Accept_op on_accept_def read_len_def bounded_arm bounded_accept Let_def)
next
  case (Read_len_op k)
  have frame: "qs_bounded (read_rest (m - 4) (s\<lparr>qs_hdr := h, qs_frame := set_prefix h (resize m fr)\<rparr>))"
    if "6 \<le> m" "m \<le> 16777216" "length h = 4" for h m fr
    unfolding read_rest_def using that b
    by (intro bounded_arm) (auto simp: qs_bounded_def set_prefix_def resize_def)
  show ?thesis
  proof (cases c)
    case (C_bytes h)
    then show ?thesis
      using b frame [of "unat (rd_be32 h)" h "qs_frame s"]
      by (auto simp: Read_len_op on_read_len_def Let_def bounded_recycle not_less)
  qed (use b in \<open>simp_all add: Read_len_op on_read_len_def bounded_recycle\<close>)
next
  case (Read_rest_op k m)
  have "qs_bounded (s\<lparr>qs_frame := take 4 (qs_frame s) @ h\<rparr>)" if "length h = m" for h
    using b n [OF Read_rest_op] that by (simp add: qs_bounded_def)
  then show ?thesis
    using b by (cases c) (auto simp: Read_rest_op on_read_rest_def Let_def bounded_recycle
        split: sum.split option.split)
next
  case (Write_op k buf)
  show ?thesis using b by (cases c) (simp_all add: Write_op on_write_def bounded_recycle)
qed

lemma qs_bounded_step: "qs_bounded s \<Longrightarrow> qs_bounded (fst (qs_step s ev))"
proof (cases ev)
  case (Complete i c)
  assume b: "qs_bounded s"
  have "n + 4 \<le> 16777216" if "qs_ops s ! i = Read_rest_op k n" "i < length (qs_ops s)" for k n
    using b that nth_mem unfolding qs_bounded_def by metis
  then show ?thesis
    using b bounded_handler [OF bounded_drop_op [OF b]] by (simp add: Complete)
next
  case (Send_reply r)
  assume "qs_bounded s"
  then show ?thesis
    by (auto simp: Send_reply send_reply_bin_def Let_def bounded_arm split: option.split sum.split)
qed (auto simp: qs_stop_def Let_def split: option.split)

interpretation qs_machine: invariant_machine qs_step qs_bounded
  by unfold_locales (rule qs_bounded_step)

text \<open>
  Whatever peers announce, the frame buffer never exceeds 16 MiB: the length prefix is checked
  before the buffer is resized, over every sequence of completions, replies and stops.
\<close>

theorem query_server_frame_bounded:
  "length (qs_frame (fst (run qs_step started_server es))) \<le> 16 * 2 ^ 20"
proof -
  have "qs_bounded started_server"
    by (simp add: qs_bounded_def started_server_fields)
       (simp add: started_server_def qs_start_def onQuery_def new_query_server_def async_accept_def arm_def Let_def)
  then show ?thesis using qs_machine.inv_run by (simp add: qs_bounded_def)
qed

text \<open>
  Stopping does not quiesce. After \<open>stop\<close> the aborted accept arms the next one, and so does
  each failure of that one on the closed acceptor: however many have failed, exactly one accept is
  still outstanding, on one more new socket object.
\<close>

theorem query_server_stop_rearms:
  "qs_ops (fst (run qs_step started_server (Stop # replicate n (Complete 0 C_error)))) = [Accept_op n]"
proof -
  have step: "qs_step s (Complete 0 C_error) =
      (s\<lparr>qs_sock := Some (qs_next s, False), qs_next := qs_next s + 1, qs_ops := [Accept_op (qs_next s)]\<rparr>, [])"
    if "qs_ops s = [Accept_op k]" "\<not> qs_crashed s" for s k
    using that by (simp add: qs_defs Let_def)
  have loop: "qs_ops (fst (run qs_step s (replicate n (Complete 0 C_error)))) = [Accept_op (k + n)]"
    if "qs_ops s = [Accept_op k]" "\<not> qs_crashed s" "qs_next s = k + 1" for s k
    using that
  proof (induction n arbitrary: s k)
    case (Suc n)
    then show ?case using step [OF Suc.prems(1,2)] Suc.IH [of _ "k + 1"] by simp
  qed simp
  let ?s = "fst (qs_step started_server Stop)"
  have "qs_ops ?s = [Accept_op 0]" "\<not> qs_crashed ?s" "qs_next ?s = 0 + 1"
    by (simp_all add: started_server_fields qs_stop_def Let_def)
  then have "qs_ops (fst (run qs_step ?s (replicate n (Complete 0 C_error)))) = [Accept_op (0 + n)]"
    by (rule loop)
  then show ?thesis by simp
qed

end
