(* ===== verification/Token.thy ===== *)
theory Token
  imports Prelude
begin

text \<open>
  The login token: \<open>infrastructure/crypto/Base64Url.hpp\<close> (base64url of twelve bytes),
  \<open>Random16TokenGenerator.hpp\<close> and the portable random source of \<open>login/LoginHandler.hpp\<close>. The
  bytes a random source fills in, and whether it succeeded, are arguments; the thrown
  \<open>runtime_error\<close> of the generator is \<open>None\<close>.
\<close>

section \<open>Definitions\<close>

definition b64_table :: string where
  "b64_table = ''ABCDEFGHIJKLMNOPQRSTUVWXYZabcdefghijklmnopqrstuvwxyz0123456789-_''"

definition b64url_12 :: "bytes \<Rightarrow> string" where
  "b64url_12 inp =
     foldl (\<lambda>out i.
        let v = push_bit 16 (ucast (inp ! i) :: u32) OR push_bit 8 (ucast (inp ! (i + 1))) OR ucast (inp ! (i + 2));
            out = out @ [b64_table ! unat (drop_bit 18 v AND 0x3F)];
            out = out @ [b64_table ! unat (drop_bit 12 v AND 0x3F)];
            out = out @ [b64_table ! unat (drop_bit 6 v AND 0x3F)]
        in out @ [b64_table ! unat (drop_bit 0 v AND 0x3F)]) [] [0, 3, 6, 9]"

text \<open>\<open>PortableRng::random\<close>: each byte is the low byte of one draw of the random device.\<close>

definition portable_random :: "u32 list \<Rightarrow> bool \<times> bytes" where
  "portable_random draws = (True, map (\<lambda>d. ucast d) draws)"

text \<open>\<open>makeLoginToken\<close>, given what the random source returned and left in the buffer.\<close>

definition makeLoginToken :: "bool \<times> bytes \<Rightarrow> string option" where
  "makeLoginToken rng = (case rng of (ok, buf) \<Rightarrow> if \<not> ok then None else Some (b64url_12 buf))"

section \<open>Reference decoder\<close>

text \<open>RFC 4648: four characters, each the index of six bits, make three bytes.\<close>

definition b64_index :: "char \<Rightarrow> u32" where
  "b64_index c = of_nat (length (takeWhile (\<lambda>x. x \<noteq> c) b64_table))"

fun b64_decode :: "string \<Rightarrow> bytes" where
  "b64_decode (a # b # c # d # r) =
     (let v = push_bit 18 (b64_index a) OR push_bit 12 (b64_index b) OR push_bit 6 (b64_index c) OR b64_index d
      in [ucast (drop_bit 16 v), ucast (drop_bit 8 v), ucast v] @ b64_decode r)"
| "b64_decode _ = []"

lemma length_b64_table [simp]: "length b64_table = 64"
  by (simp add: b64_table_def)

lemma distinct_b64_table: "distinct b64_table"
  by (simp add: b64_table_def)

lemma takeWhile_nth: "distinct xs \<Longrightarrow> i < length xs \<Longrightarrow> length (takeWhile (\<lambda>x. x \<noteq> xs ! i) xs) = i"
proof (induction xs arbitrary: i)
  case (Cons a xs)
  then show ?case by (cases i) auto
qed simp

lemma word_and_63: "(v :: u32) AND 63 = take_bit 6 v"
proof -
  have "(63 :: u32) = mask 6" by (simp add: mask_eq_exp_minus_1)
  then show ?thesis by (simp only: take_bit_eq_mask)
qed

lemma sextet_less: "unat (v AND 63 :: u32) < 64"
proof -
  have "unat (take_bit 6 v) = take_bit 6 (unat v)" by (rule unsigned_take_bit_eq)
  also have "\<dots> < 64" using take_bit_nat_less_exp [of 6 "unat v"] by simp
  finally show ?thesis by (simp only: word_and_63)
qed

lemma b64_index_nth: "b64_index (b64_table ! unat (v AND 63)) = v AND 63"
  using takeWhile_nth [OF distinct_b64_table, of "unat (v AND 63)"] sextet_less [of v]
  by (simp add: b64_index_def)

lemma sextets_join:
  fixes v :: u32
  assumes "\<And>n. 24 \<le> n \<Longrightarrow> \<not> bit v n"
  shows "push_bit 18 (drop_bit 18 v AND 63) OR push_bit 12 (drop_bit 12 v AND 63)
      OR push_bit 6 (drop_bit 6 v AND 63) OR (v AND 63) = v"
  unfolding word_and_63
proof (rule bit_word_eqI)
  fix n assume "n < LENGTH(32)"
  consider "n < 6" | "6 \<le> n" "n < 12" | "12 \<le> n" "n < 18" | "18 \<le> n" "n < 24" | "24 \<le> n" by linarith
  then show "bit (push_bit 18 (take_bit 6 (drop_bit 18 v)) OR push_bit 12 (take_bit 6 (drop_bit 12 v))
      OR push_bit 6 (take_bit 6 (drop_bit 6 v)) OR take_bit 6 v) n = bit v n"
    using assms [of n] \<open>n < LENGTH(32)\<close> by cases (auto simp: bit_simps)
qed

lemma triple_bits:
  fixes a b c :: u8
  defines "v \<equiv> push_bit 16 (ucast a :: u32) OR push_bit 8 (ucast b) OR ucast c"
  shows "24 \<le> n \<Longrightarrow> \<not> bit v n"
    and "ucast (drop_bit 16 v) = a" and "ucast (drop_bit 8 v) = b" and "ucast v = c"
proof -
  show "24 \<le> n \<Longrightarrow> \<not> bit v n" by (auto simp: v_def bit_simps dest: bit_imp_le_length)
  show "ucast (drop_bit 16 v) = a"
    by (rule bit_word_eqI) (auto simp: v_def bit_simps dest: bit_imp_le_length)
  show "ucast (drop_bit 8 v) = b"
    by (rule bit_word_eqI) (auto simp: v_def bit_simps dest: bit_imp_le_length)
  show "ucast v = c"
    by (rule bit_word_eqI) (auto simp: v_def bit_simps)
qed

lemma b64_decode_Nil: "b64_decode [] = []"
  by simp

lemma b64_unquad:
  "b64_decode (b64_table ! unat (drop_bit 18 v AND 63) # b64_table ! unat (drop_bit 12 v AND 63)
    # b64_table ! unat (drop_bit 6 v AND 63) # b64_table ! unat (v AND 63) # r) = [a, b, c] @ b64_decode r"
  if "v = push_bit 16 (ucast a :: u32) OR push_bit 8 (ucast b) OR ucast c" for a b c :: u8
proof -
  have "24 \<le> n \<Longrightarrow> \<not> bit v n" for n unfolding that by (rule triple_bits(1))
  then have j: "push_bit 18 (drop_bit 18 v AND 63) OR push_bit 12 (drop_bit 12 v AND 63)
      OR push_bit 6 (drop_bit 6 v AND 63) OR (v AND 63) = v"
    by (rule sextets_join)
  show ?thesis
    unfolding b64_decode.simps b64_index_nth j Let_def unfolding that triple_bits(2-4) ..
qed

lemma b64url_12_list:
  "b64url_12 [x0, x1, x2, x3, x4, x5, x6, x7, x8, x9, x10, x11] =
     concat (map (\<lambda>(a, b, c). let v = push_bit 16 (ucast a :: u32) OR push_bit 8 (ucast b) OR ucast c
       in [b64_table ! unat (drop_bit 18 v AND 63), b64_table ! unat (drop_bit 12 v AND 63),
           b64_table ! unat (drop_bit 6 v AND 63), b64_table ! unat (v AND 63)])
      [(x0, x1, x2), (x3, x4, x5), (x6, x7, x8), (x9, x10, x11)])"
  by (simp add: b64url_12_def Let_def)

lemma twelve_bytes:
  assumes "length b = 12"
  obtains x0 x1 x2 x3 x4 x5 x6 x7 x8 x9 x10 x11
    where "b = [x0, x1, x2, x3, x4, x5, x6, x7, x8, x9, x10, x11 :: u8]"
  using assms by (auto simp: numeral_eq_Suc length_Suc_conv)

lemma b64_decode_encode:
  assumes "length b = 12" shows "b64_decode (b64url_12 b) = b"
proof -
  obtain x0 x1 x2 x3 x4 x5 x6 x7 x8 x9 x10 x11
    where b: "b = [x0, x1, x2, x3, x4, x5, x6, x7, x8, x9, x10, x11]"
    using twelve_bytes [OF assms] .
  show ?thesis
    unfolding b b64url_12_list
    by (simp only: list.map concat.simps prod.case Let_def append.simps append_Nil2 b64_unquad [OF refl] b64_decode_Nil)
qed

lemma length_b64url_12 [simp]: "length (b64url_12 b) = 16"
  by (simp add: b64url_12_def Let_def)

lemma set_b64url_12: "set (b64url_12 b) \<subseteq> set b64_table"
proof -
  have "b64_table ! unat (v AND 63 :: u32) \<in> set b64_table" for v
    using sextet_less [of v] by (intro nth_mem) simp
  then show ?thesis by (simp add: b64url_12_def Let_def)
qed

section \<open>Token generators\<close>

text \<open>
  What the login flow relies on: a generator that returns at all returns sixteen characters that
  survive a C string and a URL unescaped.
\<close>

locale token_generator =
  fixes gen :: "'r \<Rightarrow> string option"
  assumes token_length: "gen r = Some t \<Longrightarrow> length t = 16"
    and token_chars: "gen r = Some t \<Longrightarrow> set t \<subseteq> set b64_table"
begin

lemma token_no_nul: "gen r = Some t \<Longrightarrow> CHR 0x00 \<notin> set t"
  using token_chars [of r t] by (auto simp: b64_table_def)

end

interpretation random16: token_generator makeLoginToken
proof
  fix r t
  assume g: "makeLoginToken r = Some t"
  then obtain buf where t: "t = b64url_12 buf" by (auto simp: makeLoginToken_def split: prod.splits if_splits)
  show "length t = 16" by (simp add: t)
  show "set t \<subseteq> set b64_table" unfolding t by (rule set_b64url_12)
qed

text \<open>
  The token carries all the randomness. For any twelve bytes the random source produced, the
  token is sixteen characters of the URL-safe alphabet, and decoding it as base64url returns
  those twelve bytes, so distinct random values give distinct tokens.
\<close>

theorem login_token_roundtrip:
  assumes "length buf = 12"
  shows "\<exists>t. makeLoginToken (True, buf) = Some t \<and> length t = 16 \<and> set t \<subseteq> set b64_table \<and> b64_decode t = buf"
  using assms set_b64url_12 [of buf] by (simp add: makeLoginToken_def b64_decode_encode)

lemma login_token_roundtrip_witness:
  "\<exists>t. makeLoginToken (portable_random [0, 1, 2, 3, 4, 5, 6, 7, 8, 9, 10, 11]) = Some t
     \<and> length t = 16 \<and> b64_decode t = [0, 1, 2, 3, 4, 5, 6, 7, 8, 9, 10, 11]"
  using login_token_roundtrip [of "[0, 1, 2, 3, 4, 5, 6, 7, 8, 9, 10, 11]"]
  by (auto simp: portable_random_def)

end
