(* ===== verification/Login_Flow.thy ===== *)
theory Login_Flow
  imports Login_Mapper Token
begin

text \<open>
  The login handshake, \<open>login/LoginFlow.hpp\<close> and \<open>.cpp\<close>, with the two process-wide variables it
  touches: the account counter and the phase signal of \<open>model/PhaseSignal.hpp\<close>. One call of
  \<open>handle\<close> is given the outcome of the random source and the two session ids it may draw; its
  output is the list of packets passed to the send function. An exception of the token generator
  propagates to \<open>io_context::run\<close> and ends the process.
\<close>

section \<open>State\<close>

record LoginCfg =
  lc_hostIp :: bytes
  lc_hostPortLE :: u16
  lc_serverName :: string
  lc_usersOnline :: u32
  lc_male :: bool
  lc_prefer0069 :: bool

definition default_LoginCfg :: LoginCfg where
  "default_LoginCfg =
     \<lparr>lc_hostIp = [127, 0, 0, 1], lc_hostPortLE = 6900, lc_serverName = ''Arkan Software'',
      lc_usersOnline = 77, lc_male = True, lc_prefer0069 = True\<rparr>"

text \<open>\<open>LoginState\<close> and the gate of \<open>LoginFlow\<close>.\<close>

record login_flow =
  lf_accountID :: bytes
  lf_sessionID :: bytes
  lf_sessionID2 :: bytes
  lf_lastMasterOpcode :: u16
  lf_awaiting_master :: bool

definition new_login_flow :: login_flow where
  "new_login_flow =
     \<lparr>lf_accountID = [0, 0, 0, 0], lf_sessionID = [0, 0, 0, 0], lf_sessionID2 = [0, 0, 0, 0],
      lf_lastMasterOpcode = 0, lf_awaiting_master = False\<rparr>"

record process_globals =
  next_account_id :: u32
  expect_char_on_next_connect :: bool

definition initial_globals :: process_globals where
  "initial_globals = \<lparr>next_account_id = 2000001, expect_char_on_next_connect = False\<rparr>"

record login_env =
  le_rng :: "bool \<times> bytes"
  le_draw1 :: "u32 \<Rightarrow> u32 \<Rightarrow> u32"
  le_draw2 :: "u32 \<Rightarrow> u32 \<Rightarrow> u32"

datatype login_error = Rng_failure

text \<open>A draw of the uniform distribution of the standard library, given its two bounds.\<close>

definition generate_session_id :: "(u32 \<Rightarrow> u32 \<Rightarrow> u32) \<Rightarrow> u32" where
  "generate_session_id dis = dis 1000000000 4000000000"

section \<open>Operations\<close>

definition requiresModernAccountServerInfo :: "u16 \<Rightarrow> bool" where
  "requiresModernAccountServerInfo opcode \<longleftrightarrow>
     opcode = client_opcode MasterLogin0825 \<or> opcode = client_opcode MasterLogin2085 \<or>
     opcode = client_opcode MasterLogin2B0D \<or> opcode = client_opcode MasterLogin1DD5"

definition onSecureHandshake :: "packet list" where
  "onSecureHandshake = [secure_login_key_packet]"

definition onTokenRequest :: "login_env \<Rightarrow> login_flow \<Rightarrow> login_error + (login_flow \<times> packet list)" where
  "onTokenRequest e f =
     (case makeLoginToken (le_rng e) of
        None \<Rightarrow> Inl Rng_failure
      | Some t \<Rightarrow>
          (let tok = \<lparr>lt_token = t\<rparr>
           in Inr (f\<lparr>lf_awaiting_master := True\<rparr>, [login_token_packet tok])))"

definition onMasterLogin ::
  "login_env \<Rightarrow> LoginCfg \<Rightarrow> process_globals \<Rightarrow> login_flow \<Rightarrow> u16
    \<Rightarrow> login_flow \<times> process_globals \<times> packet list" where
  "onMasterLogin e cfg g f opcode =
     (if \<not> lf_awaiting_master f then (f, g, [])
      else
        (let f = f\<lparr>lf_awaiting_master := False\<rparr>;
             f = f\<lparr>lf_lastMasterOpcode := opcode\<rparr>;
             account_id_num = next_account_id g;
             g = g\<lparr>next_account_id := account_id_num + 1\<rparr>;
             f = f\<lparr>lf_accountID := to_le_bytes account_id_num\<rparr>;
             f = f\<lparr>lf_sessionID := to_le_bytes (generate_session_id (le_draw1 e))\<rparr>;
             f = f\<lparr>lf_sessionID2 := to_le_bytes (generate_session_id (le_draw2 e))\<rparr>;
             needs_0AC4 = requiresModernAccountServerInfo opcode;
             info = \<lparr>si_session_id = lf_sessionID f, si_account_id = lf_accountID f,
                     si_session_id2 = lf_sessionID2 f, si_host_ip = lc_hostIp cfg,
                     si_host_port = lc_hostPortLE cfg, si_server_name = lc_serverName cfg,
                     si_users_online = lc_usersOnline cfg, si_is_male = lc_male cfg,
                     si_use_modern_format = (needs_0AC4 \<or> \<not> lc_prefer0069 cfg)\<rparr>;
             g' = g\<lparr>expect_char_on_next_connect := True\<rparr>
         in (f, g', [server_info_packet info])))"

definition secure_opcodes :: "u16 list" where
  "secure_opcodes = map client_opcode [SecureLoginRequest, SecureLoginRequestAlt]"

definition token_opcodes :: "u16 list" where
  "token_opcodes = map client_opcode [LoginTokenRequest, LoginTokenRequestAlt]"

definition master_opcodes :: "u16 list" where
  "master_opcodes = map client_opcode
     [MasterLoginClassic, MasterLogin01DD, MasterLogin01FA, MasterLogin0AAC, MasterLogin0B04,
      MasterLogin0987, MasterLogin0A76, MasterLogin2085, MasterLogin2B0D, MasterLogin1DD5,
      MasterLogin0825]"

definition login_handle ::
  "login_env \<Rightarrow> LoginCfg \<Rightarrow> process_globals \<Rightarrow> login_flow \<Rightarrow> u16
    \<Rightarrow> login_error + (login_flow \<times> process_globals \<times> packet list)" where
  "login_handle e cfg g f opcode =
     (if opcode \<in> set secure_opcodes then Inr (f, g, onSecureHandshake)
      else if opcode \<in> set token_opcodes then
        (case onTokenRequest e f of Inl err \<Rightarrow> Inl err | Inr (f', ps) \<Rightarrow> Inr (f', g, ps))
      else if opcode \<in> set master_opcodes then Inr (onMasterLogin e cfg g f opcode)
      else Inr (f, g, []))"

section \<open>What each call does\<close>

definition is_token_packet :: "packet \<Rightarrow> bool" where
  "is_token_packet p \<longleftrightarrow> rd16le p = server_opcode LoginToken"

definition is_info_packet :: "packet \<Rightarrow> bool" where
  "is_info_packet p \<longleftrightarrow>
     rd16le p = server_opcode AccountServerInfo \<or> rd16le p = server_opcode AccountServerInfoV2"

text \<open>The account id stands at offset 8 of either form of the server list.\<close>

definition account_field :: "packet \<Rightarrow> bytes" where
  "account_field p = slice 8 4 p"

definition master_info :: "login_env \<Rightarrow> LoginCfg \<Rightarrow> process_globals \<Rightarrow> u16 \<Rightarrow> AccountServerInfo" where
  "master_info e cfg g opcode =
     \<lparr>si_session_id = to_le_bytes (generate_session_id (le_draw1 e)), si_account_id = to_le_bytes (next_account_id g),
      si_session_id2 = to_le_bytes (generate_session_id (le_draw2 e)), si_host_ip = lc_hostIp cfg,
      si_host_port = lc_hostPortLE cfg, si_server_name = lc_serverName cfg,
      si_users_online = lc_usersOnline cfg, si_is_male = lc_male cfg,
      si_use_modern_format = (requiresModernAccountServerInfo opcode \<or> \<not> lc_prefer0069 cfg)\<rparr>"

lemma onMasterLogin_awaiting:
  assumes "lf_awaiting_master f"
  shows "onMasterLogin e cfg g f opcode =
    (\<lparr>lf_accountID = to_le_bytes (next_account_id g), lf_sessionID = to_le_bytes (generate_session_id (le_draw1 e)),
      lf_sessionID2 = to_le_bytes (generate_session_id (le_draw2 e)), lf_lastMasterOpcode = opcode, lf_awaiting_master = False\<rparr>,
     \<lparr>next_account_id = next_account_id g + 1, expect_char_on_next_connect = True\<rparr>,
     [server_info_packet (master_info e cfg g opcode)])"
  using assms by (simp add: onMasterLogin_def Let_def master_info_def)

lemma login_handle_cases:
  obtains (key) "login_handle e cfg g f op = Inr (f, g, [secure_login_key_packet])"
  | (failure) "op \<in> set token_opcodes" and "login_handle e cfg g f op = Inl Rng_failure"
  | (token) t where "makeLoginToken (le_rng e) = Some t"
      and "login_handle e cfg g f op = Inr (f\<lparr>lf_awaiting_master := True\<rparr>, g, [login_token_packet \<lparr>lt_token = t\<rparr>])"
  | (master) f' where "lf_awaiting_master f" and "\<not> lf_awaiting_master f'"
      and "login_handle e cfg g f op = Inr (f',
        \<lparr>next_account_id = next_account_id g + 1, expect_char_on_next_connect = True\<rparr>,
        [server_info_packet (master_info e cfg g op)])"
  | (ignored) "login_handle e cfg g f op = Inr (f, g, [])"
proof -
  consider "op \<in> set secure_opcodes" | "op \<notin> set secure_opcodes" "op \<in> set token_opcodes"
    | "op \<notin> set secure_opcodes" "op \<notin> set token_opcodes" "op \<in> set master_opcodes"
    | "op \<notin> set secure_opcodes" "op \<notin> set token_opcodes" "op \<notin> set master_opcodes" by blast
  then show ?thesis
  proof cases
    case 1
    then show ?thesis by (intro key) (simp add: login_handle_def onSecureHandshake_def)
  next
    case 2
    show ?thesis
    proof (cases "makeLoginToken (le_rng e)")
      case None
      then show ?thesis using 2 by (intro failure) (simp_all add: login_handle_def onTokenRequest_def)
    next
      case (Some t)
      then show ?thesis using 2
        by (intro token [of t]) (simp_all add: login_handle_def onTokenRequest_def)
    qed
  next
    case 3
    show ?thesis
    proof (cases "lf_awaiting_master f")
      case True
      show ?thesis
        by (rule master [OF True, of "fst (onMasterLogin e cfg g f op)"])
           (use 3 in \<open>simp_all add: onMasterLogin_awaiting [OF True] login_handle_def\<close>)
    next
      case False
      show ?thesis by (rule ignored) (use 3 False in \<open>simp add: login_handle_def onMasterLogin_def\<close>)
    qed
  next
    case 4
    show ?thesis by (rule ignored) (use 4 in \<open>simp add: login_handle_def\<close>)
  qed
qed

lemma opcode_of_key: "rd16le secure_login_key_packet = server_opcode SecureLoginKey"
  by (simp add: secure_login_key_eq rd16le_def)

lemma opcode_of_token: "rd16le (login_token_packet t) = server_opcode LoginToken"
  by (simp add: login_token_eq token_packet_with_def rd16le_def)

lemma opcode_of_info:
  "server_info_wf i \<Longrightarrow> rd16le (server_info_packet i) =
     server_opcode (if si_use_modern_format i then AccountServerInfoV2 else AccountServerInfo)"
  by (simp add: server_info_packet_def server_info_modern_eq server_info_classic_eq rd16le_def)

lemmas packet_kinds = is_token_packet_def is_info_packet_def opcode_of_key opcode_of_token opcode_of_info

lemma account_field_info: "server_info_wf i \<Longrightarrow> account_field (server_info_packet i) = si_account_id i"
  by (simp add: account_field_def slice_def server_info_packet_def server_info_modern_eq
      server_info_classic_eq server_info_wf_def)

section \<open>The flow as a machine\<close>

text \<open>
  The flow with the process variables it shares; \<open>lm_dead\<close> is set when an exception has left the
  handler, after which nothing is handled any more.
\<close>

record login_machine =
  lm_flow :: login_flow
  lm_globals :: process_globals
  lm_dead :: bool

definition start_login :: login_machine where
  "start_login = \<lparr>lm_flow = new_login_flow, lm_globals = initial_globals, lm_dead = False\<rparr>"

fun login_step :: "LoginCfg \<Rightarrow> login_machine \<Rightarrow> login_env \<times> u16 \<Rightarrow> login_machine \<times> packet list" where
  "login_step cfg m (e, op) =
     (if lm_dead m then (m, [])
      else case login_handle e cfg (lm_globals m) (lm_flow m) op of
             Inl err \<Rightarrow> (m\<lparr>lm_dead := True\<rparr>, [])
           | Inr (f, g, ps) \<Rightarrow> (m\<lparr>lm_flow := f, lm_globals := g\<rparr>, ps))"

lemma login_step_cases:
  obtains (idle) m' where "login_step cfg m (e, op) = (m', [])"
      and "lm_flow m' = lm_flow m" and "lm_globals m' = lm_globals m"
  | (key) "login_step cfg m (e, op) = (m, [secure_login_key_packet])"
  | (token) m' t where "login_step cfg m (e, op) = (m', [login_token_packet t])"
      and "lf_awaiting_master (lm_flow m')" and "lm_globals m' = lm_globals m"
  | (master) m' where "lf_awaiting_master (lm_flow m)" and "\<not> lf_awaiting_master (lm_flow m')"
      and "next_account_id (lm_globals m') = next_account_id (lm_globals m) + 1"
      and "login_step cfg m (e, op) = (m', [server_info_packet (master_info e cfg (lm_globals m) op)])"
proof (cases "lm_dead m")
  case True
  then show ?thesis by (intro idle [of m]) simp_all
next
  case False
  show ?thesis
  proof (cases rule: login_handle_cases [of e cfg "lm_globals m" "lm_flow m" op])
    case key
    then show ?thesis using False by (intro that(2)) simp
  next
    case failure
    then show ?thesis using False by (intro idle [of "m\<lparr>lm_dead := True\<rparr>"]) simp_all
  next
    case (token t)
    then show ?thesis using False
      by (intro that(3) [of "m\<lparr>lm_flow := (lm_flow m)\<lparr>lf_awaiting_master := True\<rparr>\<rparr>" "\<lparr>lt_token = t\<rparr>"]) simp_all
  next
    case (master f')
    then show ?thesis using False
      by (intro that(4) [of "m\<lparr>lm_flow := f', lm_globals := \<lparr>next_account_id = next_account_id (lm_globals m) + 1,
            expect_char_on_next_connect = True\<rparr>\<rparr>"]) simp_all
  next
    case ignored
    then show ?thesis using False by (intro idle [of m]) simp_all
  qed
qed

lemma master_info_wf: "length (lc_hostIp cfg) = 4 \<Longrightarrow> server_info_wf (master_info e cfg g op)"
  by (simp add: server_info_wf_def master_info_def)

section \<open>The gate\<close>

text \<open>
  A packet sequence is gated when each server list is preceded by a token sent since the previous
  server list.
\<close>

fun gated :: "bool \<Rightarrow> packet list \<Rightarrow> bool" where
  "gated aw [] = True"
| "gated aw (p # ps) =
     (if is_token_packet p then gated True ps
      else if is_info_packet p then aw \<and> gated False ps
      else gated aw ps)"

lemma packet_kind_token: "is_token_packet (login_token_packet t)"
  by (simp add: packet_kinds)

lemma packet_kind_key: "\<not> is_token_packet secure_login_key_packet" "\<not> is_info_packet secure_login_key_packet"
  by (simp_all add: packet_kinds)

lemma packet_kind_info:
  "server_info_wf i \<Longrightarrow> is_info_packet (server_info_packet i) \<and> \<not> is_token_packet (server_info_packet i)"
  by (simp add: packet_kinds)

lemma token_not_info: "\<not> is_info_packet (login_token_packet t)"
  by (simp add: packet_kinds)

lemmas packet_kind = packet_kind_token packet_kind_key packet_kind_info token_not_info

lemma gated_run:
  assumes "length (lc_hostIp cfg) = 4" and "lf_awaiting_master (lm_flow m) \<longrightarrow> aw"
  shows "gated aw (snd (run (login_step cfg) m es))"
  using assms(2)
proof (induction es arbitrary: m aw)
  case (Cons ev es)
  obtain e op where ev: "ev = (e, op)" by fastforce
  show ?case
    by (cases rule: login_step_cases [of cfg m e op])
       (use Cons in \<open>simp_all add: ev packet_kind master_info_wf assms(1) del: login_step.simps\<close>)
qed simp

text \<open>
  C20: No server list without a token. Whatever opcodes arrive in whatever order, every server-list
  packet the flow sends is preceded by a login token sent since the last one: a master login that
  comes first, or is repeated, is ignored.
\<close>

theorem login_gate:
  assumes "length (lc_hostIp cfg) = 4"
  shows "gated False (snd (run (login_step cfg) start_login es))"
  using gated_run [OF assms, of start_login False] by (simp add: start_login_def new_login_flow_def)

definition sample_login_env :: login_env where
  "sample_login_env = \<lparr>le_rng = (True, replicate 12 7), le_draw1 = (\<lambda>lo hi. lo), le_draw2 = (\<lambda>lo hi. lo + 1)\<rparr>"

lemma login_gate_witness:
  "gated False (snd (run (login_step default_LoginCfg) start_login
     [(sample_login_env, 0x0064), (sample_login_env, 0x0ACF), (sample_login_env, 0x0064)]))"
  by (rule login_gate) (simp add: default_LoginCfg_def)

section \<open>Account identifiers\<close>

lemma account_ids_run:
  assumes "length (lc_hostIp cfg) = 4"
  shows "map account_field (filter is_info_packet (snd (run (login_step cfg) m es)))
    = map (\<lambda>i. to_le_bytes (next_account_id (lm_globals m) + of_nat i))
        [0..<length (filter is_info_packet (snd (run (login_step cfg) m es)))]"
proof (induction es arbitrary: m)
  case (Cons ev es)
  obtain e op where ev: "ev = (e, op)" by fastforce
  have shift: "map (\<lambda>i. to_le_bytes (a + of_nat i)) [0..<Suc n]
      = to_le_bytes a # map (\<lambda>i. to_le_bytes (a + 1 + of_nat i)) [0..<n]" for a :: u32 and n
    by (simp add: upt_conv_Cons map_Suc_upt [symmetric] comp_def algebra_simps del: upt_Suc)
  show ?case
  proof (cases rule: login_step_cases [of cfg m e op])
    case (master m')
    have wf: "server_info_wf (master_info e cfg (lm_globals m) op)" by (rule master_info_wf [OF assms])
    have "account_field (server_info_packet (master_info e cfg (lm_globals m) op))
        = to_le_bytes (next_account_id (lm_globals m))"
      using account_field_info [OF wf] by (simp add: master_info_def)
    then show ?thesis
      using Cons [of m'] master(3)
      by (simp add: ev master(4) packet_kind_info [OF wf] shift del: login_step.simps upt_Suc)
  qed (use Cons in \<open>simp_all add: ev packet_kind del: login_step.simps\<close>)
qed simp

text \<open>
  C22: Account identifiers are unique. The account ids in the server lists sent over any run are
  2000001, 2000002, ... in the order of sending, as 32-bit little-endian numbers; as long as at
  most 2 ^ 32 are sent they are pairwise distinct.
\<close>

theorem account_ids_consecutive:
  assumes "length (lc_hostIp cfg) = 4"
    and "ps = filter is_info_packet (snd (run (login_step cfg) start_login es))"
  shows "map account_field ps = map (\<lambda>i. to_le_bytes (2000001 + of_nat i)) [0..<length ps]
    \<and> (length ps \<le> 2 ^ 32 \<longrightarrow> distinct (map account_field ps))"
proof -
  have eq: "map account_field ps = map (\<lambda>i. to_le_bytes (2000001 + of_nat i)) [0..<length ps]"
    using account_ids_run [OF assms(1), of start_login es] assms(2)
    by (simp add: start_login_def initial_globals_def)
  have "inj_on (\<lambda>i. to_le_bytes (2000001 + of_nat i)) {0..<length ps}" if "length ps \<le> 2 ^ 32"
  proof (rule inj_onI)
    fix i j assume i: "i \<in> {0..<length ps}" and j: "j \<in> {0..<length ps}"
      and e: "to_le_bytes (2000001 + of_nat i) = to_le_bytes (2000001 + of_nat j)"
    have "(of_nat i :: u32) = of_nat j" using e by (simp add: to_le_bytes_inject)
    then have "unat (of_nat i :: u32) = unat (of_nat j :: u32)" by simp
    moreover have "i < 4294967296" "j < 4294967296" using i j that by auto
    ultimately show "i = j" by (simp add: unat_of_nat)
  qed
  then show ?thesis by (simp add: eq distinct_map)
qed

lemma account_ids_consecutive_witness:
  "let ps = filter is_info_packet (snd (run (login_step default_LoginCfg) start_login
     [(sample_login_env, 0x0ACF), (sample_login_env, 0x0064), (sample_login_env, 0x0ACF), (sample_login_env, 0x0825)]))
   in length ps = 2 \<and> map account_field ps = [to_le_bytes 2000001, to_le_bytes 2000002] \<and> distinct (map account_field ps)"
proof -
  let ?es = "[(sample_login_env, 0x0ACF), (sample_login_env, 0x0064), (sample_login_env, 0x0ACF), (sample_login_env, 0x0825 :: u16)]"
  define ps where "ps = filter is_info_packet (snd (run (login_step default_LoginCfg) start_login ?es))"
  have cfg: "length (lc_hostIp default_LoginCfg) = 4" by (simp add: default_LoginCfg_def)
  note k = packet_kind_info [OF master_info_wf [OF cfg]] packet_kind_token token_not_info
  have l: "length ps = 2"
    by (simp add: ps_def start_login_def new_login_flow_def login_handle_def secure_opcodes_def token_opcodes_def
        master_opcodes_def onTokenRequest_def makeLoginToken_def sample_login_env_def onMasterLogin_awaiting k)
  have "[0..<length ps] = [0, 1]" by (simp add: l numeral_2_eq_2)
  then show ?thesis
    using account_ids_consecutive [OF cfg ps_def] l
    unfolding ps_def [symmetric] by (simp add: Let_def to_le_bytes_inject)
qed

section \<open>The server list\<close>

text \<open>
  C21: What the client learns from a master login. With the gate open and a configured name without
  NUL bytes, one packet is sent, from which the client reads the drawn session ids, the next
  account id, the configured address, the advertised port and the name cut to 20 bytes; it is of
  the modern form exactly for the four opcodes that need it or when the classic form is not
  preferred; the gate is closed, the counter advanced and the char phase signalled.
\<close>

theorem master_login_server_list:
  assumes "op \<in> set master_opcodes" and "lf_awaiting_master f"
    and "length (lc_hostIp cfg) = 4" and "CHR 0x00 \<notin> set (lc_serverName cfg)"
  shows "\<exists>f' g' p. login_handle e cfg g f op = Inr (f', g', [p])
    \<and> client_server_info p =
       \<lparr>si_session_id = to_le_bytes (generate_session_id (le_draw1 e)), si_account_id = to_le_bytes (next_account_id g),
        si_session_id2 = to_le_bytes (generate_session_id (le_draw2 e)), si_host_ip = lc_hostIp cfg,
        si_host_port = lc_hostPortLE cfg, si_server_name = take 20 (lc_serverName cfg),
        si_users_online = (if lc_usersOnline cfg \<noteq> 0 then lc_usersOnline cfg else 100),
        si_is_male = lc_male cfg,
        si_use_modern_format = (op \<in> {0x0825, 0x2085, 0x2B0D, 0x1DD5} \<or> \<not> lc_prefer0069 cfg)\<rparr>
    \<and> \<not> lf_awaiting_master f' \<and> next_account_id g' = next_account_id g + 1 \<and> expect_char_on_next_connect g'"
proof -
  let ?i = "master_info e cfg g op"
  have "op \<notin> set secure_opcodes" "op \<notin> set token_opcodes"
    using assms(1) by (auto simp: master_opcodes_def secure_opcodes_def token_opcodes_def)
  then have "login_handle e cfg g f op = Inr (onMasterLogin e cfg g f op)"
    using assms(1) by (simp add: login_handle_def)
  moreover have "client_server_info (server_info_packet ?i) = normal_server_info ?i"
    using client_view [of ?i] master_info_wf [OF assms(3)] assms(4) by (simp add: master_info_def)
  ultimately show ?thesis
    by (simp add: onMasterLogin_awaiting [OF assms(2)] normal_server_info_def master_info_def
        requiresModernAccountServerInfo_def)
qed

lemma master_login_server_list_witness:
  "\<exists>f' g' p. login_handle sample_login_env default_LoginCfg initial_globals
      (new_login_flow\<lparr>lf_awaiting_master := True\<rparr>) 0x0825 = Inr (f', g', [p])
    \<and> si_use_modern_format (client_server_info p) \<and> si_account_id (client_server_info p) = to_le_bytes 2000001"
proof -
  have "(0x0825 :: u16) \<in> set master_opcodes" by (simp add: master_opcodes_def)
  from master_login_server_list [OF this, of "new_login_flow\<lparr>lf_awaiting_master := True\<rparr>" default_LoginCfg
      sample_login_env initial_globals]
  show ?thesis by (auto simp: default_LoginCfg_def initial_globals_def)
qed

end
