(* ===== verification/Char_Flow.thy ===== *)
theory Char_Flow
  imports Game_Mapper
begin

text \<open>
  The character and map phase: \<open>char/CharFlow.hpp\<close> and \<open>.cpp\<close> with the spawn table of
  \<open>model/SpawnTable.hpp\<close> and the configuration and state structs of \<open>char/CharHandler.hpp\<close>. One
  call of \<open>handle\<close> is given the two readings of the clock behind \<open>tick_ms\<close>; its output is the list
  of packets passed to the send function, in order.
\<close>

section \<open>State\<close>

record CharConfig =
  cc_mapIp :: bytes
  cc_mapPortLE :: u16
  cc_charBlockSize :: u16
  cc_initialMap :: string
  cc_sex :: u8

definition default_CharConfig :: CharConfig where
  "default_CharConfig =
     \<lparr>cc_mapIp = [127, 0, 0, 1], cc_mapPortLE = 6900, cc_charBlockSize = of_nat kCharListBlockBytes,
      cc_initialMap = ''moc_pryd03.gat'', cc_sex = 1\<rparr>"

record Spawn =
  sp_x :: u16
  sp_y :: u16
  sp_dir :: u8

record SpawnOverride =
  so_map :: string
  so_x :: u16
  so_y :: u16
  so_dir :: u8

text \<open>\<open>CharState\<close> and the members of \<open>CharFlow\<close>.\<close>

record char_flow =
  cf_accountID :: bytes
  cf_selectedCharID :: bytes
  cf_awaiting_charlist_req :: bool
  cf_expecting_map_login :: bool
  cf_first_packet_after_redirect :: bool
  cf_spawn_override :: "SpawnOverride option"

definition new_char_flow :: char_flow where
  "new_char_flow =
     \<lparr>cf_accountID = [0x81, 0x84, 0x1E, 0x00], cf_selectedCharID = [0xE9, 0x03, 0x00, 0x00],
      cf_awaiting_charlist_req = False, cf_expecting_map_login = False,
      cf_first_packet_after_redirect = False, cf_spawn_override = None\<rparr>"

definition safeSpawnFor :: "string \<Rightarrow> Spawn" where
  "safeSpawnFor m =
     (case map_of
        [(''new_1-1.gat'', \<lparr>sp_x = 49, sp_y = 113, sp_dir = 0\<rparr>),
         (''moc_pryd03.gat'', \<lparr>sp_x = 100, sp_y = 87, sp_dir = 0\<rparr>),
         (''lhz_dun_n.gat'', \<lparr>sp_x = 263, sp_y = 139, sp_dir = 0\<rparr>)] m of
        Some s \<Rightarrow> s
      | None \<Rightarrow> \<lparr>sp_x = 49, sp_y = 113, sp_dir = 0\<rparr>)"

definition kProjectName :: string where "kProjectName = ''Thanatos''"
definition kDemoCharId :: u32 where "kDemoCharId = 1001"
definition kDemoCharSlot :: u8 where "kDemoCharSlot = 0"
definition kPostSelectSpawnX :: u16 where "kPostSelectSpawnX = 49"
definition kPostSelectSpawnY :: u16 where "kPostSelectSpawnY = 113"
definition kPostSelectSpawnDir :: u8 where "kPostSelectSpawnDir = 0"

section \<open>Operations\<close>

definition select_server_opcodes :: "u16 list" where
  "select_server_opcodes = map client_opcode
     [CharSelectServer, CharSelectServer0275, CharSelectServer0825, CharSelectServer0B1D,
      CharSelectServer1DD6, CharSelectServer2B0F, CharSelectServer0101]"

definition isSelectServerOpcode :: "u16 \<Rightarrow> bool" where
  "isSelectServerOpcode op \<longleftrightarrow> op \<in> set select_server_opcodes"

definition isCharSelectOpcode :: "u16 \<Rightarrow> bool" where
  "isCharSelectOpcode op \<longleftrightarrow> op \<in> set (map client_opcode
     [CharSelect, CharSelect08A9, CharSelect0B19, CharSelect1DD7, CharSelect2B10])"

definition isEnterOpcode :: "u16 \<Rightarrow> bool" where
  "isEnterOpcode op \<longleftrightarrow>
     (op = client_opcode MapEnter2844 \<or> op = client_opcode MapEnter0436 \<or>
      op = client_opcode MapEnter0072 \<or> op = client_opcode MapEnter009B)"

definition makeDemoCharList :: "CharConfig \<Rightarrow> CharListInfo" where
  "makeDemoCharList cfg =
     default_char_list\<lparr>cl_char_id := kDemoCharId, cl_slot := kDemoCharSlot, cl_name := kProjectName,
       cl_map_name := cc_initialMap cfg, cl_is_male := (cc_sex cfg \<noteq> 0)\<rparr>"

definition armExpectingMapLogin :: "char_flow \<Rightarrow> char_flow" where
  "armExpectingMapLogin f = f\<lparr>cf_expecting_map_login := True, cf_first_packet_after_redirect := True\<rparr>"

definition setFixedSpawn :: "string \<Rightarrow> u16 \<Rightarrow> u16 \<Rightarrow> u8 \<Rightarrow> char_flow \<Rightarrow> char_flow" where
  "setFixedSpawn m x y dir f =
     f\<lparr>cf_spawn_override := Some \<lparr>so_map = m, so_x = x, so_y = y, so_dir = dir\<rparr>\<rparr>"

definition onServerSelected :: "CharConfig \<Rightarrow> bytes \<Rightarrow> char_flow \<Rightarrow> char_flow \<times> packet list" where
  "onServerSelected cfg data f =
     (let f = (if length data \<ge> 4 then f\<lparr>cf_accountID := take 4 data\<rparr> else f);
          ps = [preamble_account_id_packet \<lparr>pa_account_id = cf_accountID f\<rparr>, preamble_082D_packet,
                preamble_09A0_packet \<lparr>pc_value = 1\<rparr>, char_list_packet (makeDemoCharList cfg)]
      in (f\<lparr>cf_awaiting_charlist_req := True\<rparr>, ps))"

definition onCharListReq :: "CharConfig \<Rightarrow> char_flow \<Rightarrow> char_flow \<times> packet list" where
  "onCharListReq cfg f =
     (if cf_awaiting_charlist_req f
      then (f\<lparr>cf_awaiting_charlist_req := False\<rparr>, [char_list_packet (makeDemoCharList cfg)])
      else (f, []))"

definition onCharSelected :: "CharConfig \<Rightarrow> bytes \<Rightarrow> char_flow \<Rightarrow> char_flow \<times> packet list" where
  "onCharSelected cfg data f =
     (let f = (if length data \<ge> 4 then f\<lparr>cf_selectedCharID := take 4 data\<rparr> else f);
          rd = \<lparr>rd_char_id = cf_selectedCharID f, rd_map_name = cc_initialMap cfg, rd_ip = cc_mapIp cfg,
                rd_port = cc_mapPortLE cfg, rd_account_id = [0, 0, 0, 0], rd_session_a = [0, 0, 0, 0],
                rd_session_b = [0, 0, 0, 0], rd_sex = 0, rd_use_full_redirect = False\<rparr>;
          p1 = redirect_packet rd;
          rd = rd\<lparr>rd_account_id := cf_accountID f, rd_session_a := [0x00, 0x5E, 0xD0, 0xB2],
                  rd_session_b := [0xFF, 0x00, 0x00, 0x00], rd_sex := cc_sex cfg,
                  rd_use_full_redirect := True\<rparr>;
          p2 = redirect_packet rd;
          f = setFixedSpawn (cc_initialMap cfg) kPostSelectSpawnX kPostSelectSpawnY kPostSelectSpawnDir f
      in (armExpectingMapLogin f, [p1, p2]))"

text \<open>Where the character spawns: the override, else the client's packed coordinates, else the table.\<close>

definition spawn_point :: "CharConfig \<Rightarrow> bytes \<Rightarrow> char_flow \<Rightarrow> u16 \<times> u16 \<times> u8" where
  "spawn_point cfg data f =
     (let d = safeSpawnFor (cc_initialMap cfg); x = sp_x d; y = sp_y d; dir = sp_dir d
      in case cf_spawn_override f of
           Some s \<Rightarrow> (so_x s, so_y s, so_dir s)
         | None \<Rightarrow>
             if length data \<ge> 19 then
               (let a3 = clamp1023 (decodeA3 (drop 16 data))
                in if a3_x a3 \<noteq> 0 \<or> a3_y a3 \<noteq> 0 then (a3_x a3, a3_y a3, a3_dir a3) else (x, y, dir))
             else (x, y, dir))"

definition map_enter_packets ::
  "CharConfig \<Rightarrow> u32 \<Rightarrow> bytes \<Rightarrow> u16 \<Rightarrow> u16 \<Rightarrow> u8 \<Rightarrow> packet list" where
  "map_enter_packets cfg tick account x y dir =
     [sync_packet \<lparr>sy_account_id = account\<rparr>,
      map_loaded_packet \<lparr>ml_tick = tick, ml_x = x, ml_y = y, ml_dir = dir, ml_x_size = 14, ml_y_size = 14\<rparr>,
      accept_enter_packet \<lparr>ae_x = x, ae_y = y, ae_dir = dir\<rparr>,
      warp_packet \<lparr>wp_map_name = cc_initialMap cfg, wp_x = x, wp_y = y\<rparr>,
      attack_range_packet \<lparr>ar_range = 1\<rparr>,
      stats_packet default_stats,
      hp_sp_packet \<lparr>hs_hp = 40, hs_max_hp = 40, hs_sp = 9, hs_max_sp = 11\<rparr>,
      load_confirm_packet,
      look_to_packet \<lparr>lt_account_id = account, lt_head_direction = 4\<rparr>,
      system_chat_packet \<lparr>sc_message = ''Welcome to Thanatos!''\<rparr>,
      actor_info_packet \<lparr>ad_account_id = account, ad_name = kProjectName, ad_party_name = [],
        ad_guild_name = [], ad_title = []\<rparr>,
      actor_name_packet \<lparr>an_account_id = account, an_name = kProjectName\<rparr>]"

definition onEnter :: "CharConfig \<Rightarrow> u32 \<Rightarrow> bytes \<Rightarrow> char_flow \<Rightarrow> char_flow \<times> packet list" where
  "onEnter cfg tick data f =
     (let f = f\<lparr>cf_expecting_map_login := False, cf_first_packet_after_redirect := False\<rparr>;
          (x, y, dir) = spawn_point cfg data f;
          f = f\<lparr>cf_spawn_override := None\<rparr>
      in (f, map_enter_packets cfg tick (cf_accountID f) x y dir))"

definition char_handle ::
  "CharConfig \<Rightarrow> u32 \<Rightarrow> u16 \<Rightarrow> bytes \<Rightarrow> char_flow \<Rightarrow> char_flow \<times> packet list" where
  "char_handle cfg tick opcode data f =
     (if cf_expecting_map_login f \<and> isEnterOpcode opcode then onEnter cfg tick data f
      else if cf_expecting_map_login f \<and> cf_first_packet_after_redirect f
      then onEnter cfg tick data (f\<lparr>cf_first_packet_after_redirect := False\<rparr>)
      else if isSelectServerOpcode opcode then onServerSelected cfg data f
      else if opcode = client_opcode CharListRequest then onCharListReq cfg f
      else if isCharSelectOpcode opcode then onCharSelected cfg data f
      else (f, []))"

section \<open>The invariant\<close>

text \<open>
  The two flags and the override move together, and the override is always the fixed point, so
  the client's coordinates and the spawn table are never used.
\<close>

definition fixed_spawn :: "CharConfig \<Rightarrow> SpawnOverride" where
  "fixed_spawn cfg = \<lparr>so_map = cc_initialMap cfg, so_x = 49, so_y = 113, so_dir = 0\<rparr>"

definition char_inv :: "CharConfig \<Rightarrow> char_flow \<Rightarrow> bool" where
  "char_inv cfg f \<longleftrightarrow>
     cf_first_packet_after_redirect f = cf_expecting_map_login f
     \<and> cf_spawn_override f = (if cf_expecting_map_login f then Some (fixed_spawn cfg) else None)
     \<and> length (cf_accountID f) = 4 \<and> length (cf_selectedCharID f) = 4"

lemma char_inv_new: "char_inv cfg new_char_flow"
  by (simp add: char_inv_def new_char_flow_def)

lemma onEnter_expecting:
  assumes "char_inv cfg f" and "cf_expecting_map_login f"
  shows "onEnter cfg tick data (f\<lparr>cf_first_packet_after_redirect := b\<rparr>) =
    (f\<lparr>cf_expecting_map_login := False, cf_first_packet_after_redirect := False, cf_spawn_override := None\<rparr>,
     map_enter_packets cfg tick (cf_accountID f) 49 113 0)"
  using assms by (simp add: onEnter_def spawn_point_def char_inv_def fixed_spawn_def Let_def)

lemma char_handle_expecting:
  assumes "char_inv cfg f" and "cf_expecting_map_login f"
  shows "char_handle cfg tick op data f =
    (f\<lparr>cf_expecting_map_login := False, cf_first_packet_after_redirect := False, cf_spawn_override := None\<rparr>,
     map_enter_packets cfg tick (cf_accountID f) 49 113 0)"
proof -
  have "f\<lparr>cf_first_packet_after_redirect := cf_first_packet_after_redirect f\<rparr> = f" by simp
  then have "onEnter cfg tick data f =
    (f\<lparr>cf_expecting_map_login := False, cf_first_packet_after_redirect := False, cf_spawn_override := None\<rparr>,
     map_enter_packets cfg tick (cf_accountID f) 49 113 0)"
    using onEnter_expecting [OF assms, of tick data "cf_first_packet_after_redirect f"] by simp
  moreover have "cf_first_packet_after_redirect f" using assms by (simp add: char_inv_def)
  ultimately show ?thesis
    using assms(2) onEnter_expecting [OF assms, of tick data False] by (simp add: char_handle_def)
qed

definition redirect_info :: "CharConfig \<Rightarrow> bytes \<Rightarrow> bytes \<Rightarrow> bool \<Rightarrow> RedirectInfo" where
  "redirect_info cfg account charid full =
     \<lparr>rd_char_id = charid, rd_map_name = cc_initialMap cfg, rd_ip = cc_mapIp cfg,
      rd_port = cc_mapPortLE cfg, rd_account_id = (if full then account else [0, 0, 0, 0]),
      rd_session_a = (if full then [0x00, 0x5E, 0xD0, 0xB2] else [0, 0, 0, 0]),
      rd_session_b = (if full then [0xFF, 0x00, 0x00, 0x00] else [0, 0, 0, 0]),
      rd_sex = (if full then cc_sex cfg else 0), rd_use_full_redirect = full\<rparr>"

definition replace4 :: "bytes \<Rightarrow> bytes \<Rightarrow> bytes" where
  "replace4 data old = (if length data \<ge> 4 then take 4 data else old)"

lemma length_replace4: "length old = 4 \<Longrightarrow> length (replace4 data old) = 4"
  by (simp add: replace4_def)

lemma onServerSelected_eq:
  "onServerSelected cfg data f =
    (f\<lparr>cf_accountID := replace4 data (cf_accountID f), cf_awaiting_charlist_req := True\<rparr>,
     [replace4 data (cf_accountID f), preamble_082D_packet, preamble_09A0_packet \<lparr>pc_value = 1\<rparr>,
      char_list_packet (makeDemoCharList cfg)])"
  by (simp add: onServerSelected_def replace4_def Let_def preamble_account_id_packet_def putFixed_eq)

lemma onCharSelected_eq:
  "onCharSelected cfg data f =
    (f\<lparr>cf_selectedCharID := replace4 data (cf_selectedCharID f), cf_expecting_map_login := True,
       cf_first_packet_after_redirect := True, cf_spawn_override := Some (fixed_spawn cfg)\<rparr>,
     [redirect_packet (redirect_info cfg (cf_accountID f) (replace4 data (cf_selectedCharID f)) False),
      redirect_packet (redirect_info cfg (cf_accountID f) (replace4 data (cf_selectedCharID f)) True)])"
  by (simp add: onCharSelected_def replace4_def Let_def redirect_info_def setFixedSpawn_def
      armExpectingMapLogin_def fixed_spawn_def kPostSelectSpawnX_def kPostSelectSpawnY_def kPostSelectSpawnDir_def)

lemma char_handle_cases:
  assumes "char_inv cfg f"
  obtains (enter) "cf_expecting_map_login f"
      and "char_handle cfg tick op data f =
        (f\<lparr>cf_expecting_map_login := False, cf_first_packet_after_redirect := False, cf_spawn_override := None\<rparr>,
         map_enter_packets cfg tick (cf_accountID f) 49 113 0)"
  | (server) "\<not> cf_expecting_map_login f" and "isSelectServerOpcode op"
      and "char_handle cfg tick op data f = onServerSelected cfg data f"
  | (again) "\<not> cf_expecting_map_login f" and "cf_awaiting_charlist_req f"
      and "char_handle cfg tick op data f =
        (f\<lparr>cf_awaiting_charlist_req := False\<rparr>, [char_list_packet (makeDemoCharList cfg)])"
  | (select) "\<not> cf_expecting_map_login f" and "isCharSelectOpcode op"
      and "char_handle cfg tick op data f = onCharSelected cfg data f"
  | (ignored) "\<not> cf_expecting_map_login f" and "char_handle cfg tick op data f = (f, [])"
proof (cases "cf_expecting_map_login f")
  case True
  then show ?thesis using char_handle_expecting [OF assms True] by (rule enter)
next
  case False
  consider "isSelectServerOpcode op" | "\<not> isSelectServerOpcode op" "op = client_opcode CharListRequest"
    | "\<not> isSelectServerOpcode op" "op \<noteq> client_opcode CharListRequest" "isCharSelectOpcode op"
    | "\<not> isSelectServerOpcode op" "op \<noteq> client_opcode CharListRequest" "\<not> isCharSelectOpcode op" by blast
  then show ?thesis
  proof cases
    case 1
    show ?thesis by (rule server [OF False 1]) (use False 1 in \<open>simp add: char_handle_def\<close>)
  next
    case 2
    have h: "char_handle cfg tick op data f = onCharListReq cfg f"
      using False 2 by (simp add: char_handle_def)
    show ?thesis
    proof (cases "cf_awaiting_charlist_req f")
      case True
      show ?thesis by (rule again [OF False True]) (simp add: h onCharListReq_def True)
    next
      case no: False
      show ?thesis by (rule ignored) (use False h no in \<open>simp_all add: onCharListReq_def\<close>)
    qed
  next
    case 3
    show ?thesis by (rule select [OF False 3(3)]) (use False 3 in \<open>simp add: char_handle_def\<close>)
  next
    case 4
    show ?thesis by (rule ignored [OF False]) (use False 4 in \<open>simp add: char_handle_def\<close>)
  qed
qed

section \<open>The flow as a machine\<close>

text \<open>One event is one call of \<open>handle\<close>; its output is the burst of packets the call sent.\<close>

type_synonym char_event = "u32 \<times> u16 \<times> bytes"

fun char_step :: "CharConfig \<Rightarrow> char_flow \<Rightarrow> char_event \<Rightarrow> char_flow \<times> packet list list" where
  "char_step cfg f (tick, op, data) = (let (f', ps) = char_handle cfg tick op data f in (f', [ps]))"

lemma char_inv_handle:
  assumes "char_inv cfg f" shows "char_inv cfg (fst (char_handle cfg tick op data f))"
  by (cases rule: char_handle_cases [OF assms, of tick op data])
     (use assms in \<open>simp_all add: char_inv_def onServerSelected_eq onCharSelected_eq length_replace4\<close>)

definition good_burst :: "CharConfig \<Rightarrow> packet list \<Rightarrow> bool" where
  "good_burst cfg ps \<longleftrightarrow>
     length ps \<in> {0, 1, 2, 4} \<or> (\<exists>tick account. ps = map_enter_packets cfg tick account 49 113 0)"

lemma good_burst_handle:
  assumes "char_inv cfg f" shows "good_burst cfg (snd (char_handle cfg tick op data f))"
  by (cases rule: char_handle_cases [OF assms, of tick op data])
     (auto simp: good_burst_def onServerSelected_eq onCharSelected_eq)

interpretation char_machine: output_machine "char_step cfg" "char_inv cfg" "good_burst cfg"
proof unfold_locales
  fix f out and ev :: char_event
  assume inv: "char_inv cfg f"
  obtain tick op data where ev: "ev = (tick, op, data)" by (cases ev) auto
  show "char_inv cfg (fst (char_step cfg f ev))"
    using char_inv_handle [OF inv, of tick op data] by (simp add: ev split_beta Let_def)
  assume "out \<in> set (snd (char_step cfg f ev))"
  then show "good_burst cfg out"
    using good_burst_handle [OF inv, of tick op data] by (simp add: ev split_beta Let_def)
qed

section \<open>Where the client enters the map\<close>

text \<open>
  The client takes its position from the second, third and fourth packet of the burst: packed in
  \<open>MapLoaded\<close>, plain in \<open>AcceptEnter\<close>, and with the map's name in \<open>Warp\<close>.
\<close>

definition client_map_entry :: "packet list \<Rightarrow> A3 \<times> (u16 \<times> u16) \<times> (string \<times> u16 \<times> u16)" where
  "client_map_entry ps =
     (decodeA3 (drop 6 (ps ! 1)),
      (rd16le (slice 2 2 (ps ! 2)), rd16le (slice 4 2 (ps ! 2))),
      (c_string (slice 2 16 (ps ! 3)), rd16le (slice 18 2 (ps ! 3)), rd16le (slice 20 2 (ps ! 3))))"

lemma putCoordsA3_append: "putCoordsA3 p x y d = p @ putCoordsA3 [] x y d"
  by (simp add: putCoordsA3_def Let_def)

lemma map_loaded_coords:
  "decodeA3 (drop 6 (map_loaded_packet i))
    = \<lparr>a3_x = take_bit 10 (ml_x i), a3_y = take_bit 10 (ml_y i), a3_dir = take_bit 4 (ml_dir i)\<rparr>"
proof -
  have "map_loaded_packet i = put32 (put16 [] (server_opcode MapLoaded)) (ml_tick i)
      @ putCoordsA3 [] (ml_x i) (ml_y i) (ml_dir i) @ ([ml_x_size i, ml_y_size i] @ [0, 0])"
    unfolding map_loaded_packet_def Let_def
    by (subst putCoordsA3_append) (simp add: wire_simps)
  then have "drop 6 (map_loaded_packet i)
      = putCoordsA3 [] (ml_x i) (ml_y i) (ml_dir i) @ ([ml_x_size i, ml_y_size i] @ [0, 0])"
    by simp
  then show ?thesis by (simp only: decodeA3_putCoordsA3)
qed

lemma accept_enter_coords:
  "rd16le (slice 2 2 (accept_enter_packet i)) = ae_x i" "rd16le (slice 4 2 (accept_enter_packet i)) = ae_y i"
  by (simp_all add: accept_enter_packet_def Let_def wire_simps slice_def)

lemma warp_target:
  assumes "CHR 0x00 \<notin> set m"
  shows "c_string (slice 2 16 (warp_packet \<lparr>wp_map_name = m, wp_x = x, wp_y = y\<rparr>)) = take 16 m"
    "rd16le (slice 18 2 (warp_packet \<lparr>wp_map_name = m, wp_x = x, wp_y = y\<rparr>)) = x" "rd16le (slice 20 2 (warp_packet \<lparr>wp_map_name = m, wp_x = x, wp_y = y\<rparr>)) = y"
proof -
  have e: "warp_packet \<lparr>wp_map_name = m, wp_x = x, wp_y = y\<rparr> = [0x91, 0x00]
      @ (take 16 (bytes_of_string m) @ replicate (16 - length m) 0)
      @ [ucast (take_bit 8 x), ucast (drop_bit 8 x)] @ [ucast (take_bit 8 y), ucast (drop_bit 8 y)]"
    by (cases "length m \<le> 16")
       (simp_all add: warp_packet_def Let_def wire_simps bytes_of_string_def take_map min_def)
  note l = length_map_field [of m]
  show "c_string (slice 2 16 (warp_packet \<lparr>wp_map_name = m, wp_x = x, wp_y = y\<rparr>)) = take 16 m"
    unfolding e by (subst slice_hit) (simp_all add: l c_string_putZ [OF assms] del: length_append)
  have "slice 18 2 (warp_packet \<lparr>wp_map_name = m, wp_x = x, wp_y = y\<rparr>) = [ucast (take_bit 8 x), ucast (drop_bit 8 x)]"
    unfolding e using l by (simp add: slice_def)
  then show "rd16le (slice 18 2 (warp_packet \<lparr>wp_map_name = m, wp_x = x, wp_y = y\<rparr>)) = x" by simp
  have "slice 20 2 (warp_packet \<lparr>wp_map_name = m, wp_x = x, wp_y = y\<rparr>) = [ucast (take_bit 8 y), ucast (drop_bit 8 y)]"
    unfolding e using l by (simp add: slice_def)
  then show "rd16le (slice 20 2 (warp_packet \<lparr>wp_map_name = m, wp_x = x, wp_y = y\<rparr>)) = y" by simp
qed

lemma client_map_entry_packets:
  assumes "CHR 0x00 \<notin> set (cc_initialMap cfg)"
  shows "client_map_entry (map_enter_packets cfg tick account x y d) =
    (\<lparr>a3_x = take_bit 10 x, a3_y = take_bit 10 y, a3_dir = take_bit 4 d\<rparr>, (x, y),
     (take 16 (cc_initialMap cfg), x, y))"
  by (simp add: client_map_entry_def map_enter_packets_def map_loaded_coords accept_enter_coords
      warp_target [OF assms])

text \<open>
  C18: Every map entry is at the fixed point. Whatever packets arrive, in whatever order and with
  whatever contents, each burst that enters the map puts the client at (49, 113) facing 0 on the
  configured map, in all three packets that carry a position: the coordinates a client sends and
  the spawn table are never used.
\<close>

theorem map_entry_is_fixed:
  assumes "ps \<in> set (snd (run (char_step cfg) new_char_flow es))" and "length ps = 12"
    and "CHR 0x00 \<notin> set (cc_initialMap cfg)"
  shows "client_map_entry ps =
    (\<lparr>a3_x = 49, a3_y = 113, a3_dir = 0\<rparr>, (49, 113), (take 16 (cc_initialMap cfg), 49, 113))"
proof -
  have "good_burst cfg ps" by (rule char_machine.out_run [OF char_inv_new assms(1)])
  then obtain tick account where "ps = map_enter_packets cfg tick account 49 113 0"
    using assms(2) by (auto simp: good_burst_def)
  then show ?thesis by (simp add: client_map_entry_packets [OF assms(3)])
qed

lemma length_map_enter [simp]: "length (map_enter_packets cfg tick account x y d) = 12"
  by (simp add: map_enter_packets_def)

lemma map_entry_is_fixed_witness:
  "\<exists>ps \<in> set (snd (run (char_step default_CharConfig) new_char_flow [(0, 0x0066, [0]), (5, 0x0436, replicate 19 9)])).
     client_map_entry ps = (\<lparr>a3_x = 49, a3_y = 113, a3_dir = 0\<rparr>, (49, 113), (''moc_pryd03.gat'', 49, 113))"
proof -
  let ?es = "[(0, 0x0066, [0 :: u8]), (5, 0x0436, replicate 19 9)]"
  let ?ps = "map_enter_packets default_CharConfig 5 [0x81, 0x84, 0x1E, 0x00] 49 113 0"
  have i: "char_inv default_CharConfig new_char_flow" by (rule char_inv_new)
  have 1: "char_handle default_CharConfig 0 0x0066 [0] new_char_flow = onCharSelected default_CharConfig [0] new_char_flow"
    by (simp add: char_handle_def new_char_flow_def isSelectServerOpcode_def select_server_opcodes_def isCharSelectOpcode_def)
  let ?f = "fst (onCharSelected default_CharConfig [0] new_char_flow)"
  have e: "char_inv default_CharConfig ?f" "cf_expecting_map_login ?f" "cf_accountID ?f = [0x81, 0x84, 0x1E, 0x00]"
    using char_inv_handle [OF i, of 0 "0x0066" "[0]"] 1 by (simp_all add: onCharSelected_eq new_char_flow_def)
  have "?ps \<in> set (snd (run (char_step default_CharConfig) new_char_flow ?es))"
    using char_handle_expecting [OF e(1,2), of 5 "0x0436" "replicate 19 9"] e(3) by (simp add: 1 split_beta Let_def)
  from map_entry_is_fixed [OF this] this show ?thesis
    by (intro bexI [of _ ?ps]) (simp_all add: default_CharConfig_def)
qed

section \<open>Redirect, then enter\<close>

lemma redirect_info_wf:
  assumes "length account = 4" "length charid = 4" "length (cc_mapIp cfg) = 4"
  shows "redirect_wf (redirect_info cfg account charid full)"
  using assms by (simp add: redirect_wf_def redirect_info_def)

lemma char_select_not_server: "isCharSelectOpcode op \<Longrightarrow> \<not> isSelectServerOpcode op \<and> op \<noteq> client_opcode CharListRequest"
  by (auto simp: isCharSelectOpcode_def isSelectServerOpcode_def select_server_opcodes_def)

text \<open>
  C19: Choosing a character redirects, and the next packet enters the map. In any reachable state
  that is not waiting for the map login, a character selection is answered with the short and the
  full redirect, which both tell the client the chosen character, the configured address and
  port, and the map; then whatever packet comes next, with any opcode and contents, is answered
  with the map-entry sequence for the account, and the flow waits for nothing any more.
\<close>

theorem select_then_enter:
  assumes "f = fst (run (char_step cfg) new_char_flow es)" and "\<not> cf_expecting_map_login f"
    and "isCharSelectOpcode op" and "4 \<le> length data"
    and "length (cc_mapIp cfg) = 4" and "CHR 0x00 \<notin> set (cc_initialMap cfg)"
  shows "\<exists>r1 r2 f'. run (char_step cfg) f [(t, op, data), (t', op', data')]
      = (f', [[r1, r2], map_enter_packets cfg t' (cf_accountID f) 49 113 0])
    \<and> client_redirect_target r1 = (take 4 data, cc_mapIp cfg, cc_mapPortLE cfg, take 16 (cc_initialMap cfg))
    \<and> client_redirect_target r2 = (take 4 data, cc_mapIp cfg, cc_mapPortLE cfg, take 16 (cc_initialMap cfg))
    \<and> \<not> cf_expecting_map_login f'"
proof -
  have inv: "char_inv cfg f" unfolding assms(1) by (rule char_machine.inv_run [OF char_inv_new])
  have sel: "char_handle cfg t op data f = onCharSelected cfg data f"
    using assms(2,3) char_select_not_server [OF assms(3)] by (simp add: char_handle_def)
  let ?f = "fst (onCharSelected cfg data f)"
  let ?r = "\<lambda>full. redirect_info cfg (cf_accountID f) (take 4 data) full"
  have inv': "char_inv cfg ?f" using char_inv_handle [OF inv, of t op data] sel by simp
  have exp: "cf_expecting_map_login ?f" "cf_accountID ?f = cf_accountID f"
    by (simp_all add: onCharSelected_eq)
  have out: "snd (onCharSelected cfg data f) = [redirect_packet (?r False), redirect_packet (?r True)]"
    using assms(4) by (simp add: onCharSelected_eq replace4_def)
  have wf: "redirect_wf (?r full)" for full
    using inv assms(4,5) by (intro redirect_info_wf) (simp_all add: char_inv_def)
  have target: "client_redirect_target (redirect_packet (?r full))
      = (take 4 data, cc_mapIp cfg, cc_mapPortLE cfg, take 16 (cc_initialMap cfg))" for full
    using client_redirect_target_packet [OF wf, of full] assms(6) by (simp add: redirect_info_def)
  show ?thesis
    using target char_handle_expecting [OF inv' exp(1), of t' op' data']
    by (simp add: run.simps(2) sel out exp split_beta Let_def)
qed

lemma select_then_enter_witness:
  "\<exists>r1 r2 f'. run (char_step default_CharConfig) new_char_flow [(0, 0x0066, [0xE9, 3, 0, 0]), (9, 0x1234, [])]
      = (f', [[r1, r2], map_enter_packets default_CharConfig 9 (cf_accountID new_char_flow) 49 113 0])
    \<and> client_redirect_target r2 = ([0xE9, 3, 0, 0], [127, 0, 0, 1], 6900, ''moc_pryd03.gat'')"
proof -
  have "new_char_flow = fst (run (char_step default_CharConfig) new_char_flow [])" by simp
  moreover have "\<not> cf_expecting_map_login new_char_flow" by (simp add: new_char_flow_def)
  moreover have "isCharSelectOpcode 0x0066" by (simp add: isCharSelectOpcode_def)
  ultimately show ?thesis
    using select_then_enter [of new_char_flow default_CharConfig "[]" "0x0066" "[0xE9, 3, 0, 0]" 0 9 "0x1234" "[]"]
    by (auto simp: default_CharConfig_def)
qed

section \<open>The character list\<close>

lemma client_char_entry_demo:
  assumes "CHR 0x00 \<notin> set (cc_initialMap cfg)"
  shows "client_char_entry (char_list_packet (makeDemoCharList cfg))
    = (1, ''Thanatos'', 0, take 16 (cc_initialMap cfg), cc_sex cfg \<noteq> 0)"
proof -
  have n: "CHR 0x00 \<notin> set (cl_name (makeDemoCharList cfg))"
    by (simp add: makeDemoCharList_def kProjectName_def)
  have m: "CHR 0x00 \<notin> set (cl_map_name (makeDemoCharList cfg))"
    using assms by (simp add: makeDemoCharList_def)
  show ?thesis
    using client_char_entry_packet [OF n m] by (simp add: makeDemoCharList_def kProjectName_def kDemoCharSlot_def)
qed

text \<open>
  Entering the character server. Outside the wait for a map login, a server selection is
  answered with the client's own account id, the two preambles and one character entry, which the
  client reads as slot 0 (number 1), named Thanatos, on the configured map, of the configured sex.
\<close>

theorem server_selection_lists_character:
  assumes "isSelectServerOpcode op" and "\<not> cf_expecting_map_login f" and "4 \<le> length data"
    and "CHR 0x00 \<notin> set (cc_initialMap cfg)"
  shows "\<exists>p. snd (char_step cfg f (t, op, data)) = [[take 4 data, preamble_082D_packet, preamble_09A0_packet \<lparr>pc_value = 1\<rparr>, p]]
    \<and> client_char_entry p = (1, ''Thanatos'', 0, take 16 (cc_initialMap cfg), cc_sex cfg \<noteq> 0)
    \<and> length p = 159 \<and> cf_accountID (fst (char_step cfg f (t, op, data))) = take 4 data"
proof -
  have "char_handle cfg t op data f = onServerSelected cfg data f"
    using assms(1,2) by (simp add: char_handle_def)
  then show ?thesis
    using assms(3) client_char_entry_demo [OF assms(4)] by (simp add: onServerSelected_eq replace4_def)
qed

lemma server_selection_lists_character_witness:
  "\<exists>p. snd (char_step default_CharConfig new_char_flow (0, 0x0065, [1, 2, 3, 4, 5]))
     = [[[1, 2, 3, 4], preamble_082D_packet, preamble_09A0_packet \<lparr>pc_value = 1\<rparr>, p]]
    \<and> client_char_entry p = (1, ''Thanatos'', 0, ''moc_pryd03.gat'', True)"
proof -
  have "isSelectServerOpcode 0x0065" by (simp add: isSelectServerOpcode_def select_server_opcodes_def)
  moreover have "\<not> cf_expecting_map_login new_char_flow" by (simp add: new_char_flow_def)
  ultimately show ?thesis
    using server_selection_lists_character [of "0x0065" new_char_flow "[1, 2, 3, 4, 5]" default_CharConfig 0]
    by (auto simp: default_CharConfig_def)
qed

section \<open>Repeated requests\<close>

definition is_server_selection :: "char_event \<Rightarrow> bool" where
  "is_server_selection ev \<longleftrightarrow> isSelectServerOpcode (fst (snd ev))"

interpretation list_budget: budget_machine "char_step cfg" "char_inv cfg"
  "\<lambda>ps. of_bool (length ps = 1)" "\<lambda>f. of_bool (cf_awaiting_charlist_req f)" "\<lambda>ev. of_bool (is_server_selection ev)"
proof unfold_locales
  fix f and ev :: char_event
  assume inv: "char_inv cfg f"
  obtain tick op data where ev: "ev = (tick, op, data)" by (cases ev) auto
  show "sum_list (map (\<lambda>ps. of_bool (length ps = 1)) (snd (char_step cfg f ev)))
      + of_bool (cf_awaiting_charlist_req (fst (char_step cfg f ev)))
      \<le> of_bool (cf_awaiting_charlist_req f) + (of_bool (is_server_selection ev) :: nat)"
    by (cases rule: char_handle_cases [OF inv, of tick op data])
       (simp_all add: ev is_server_selection_def onServerSelected_eq onCharSelected_eq Let_def)
qed

text \<open>
  The character list is resent at most once for each server selection: over any run, the
  bursts that consist of one packet (the answers to 09A1) number at most the selections.
\<close>

theorem char_list_resends_bounded:
  "length (filter (\<lambda>ps. length ps = 1) (snd (run (char_step cfg) new_char_flow es)))
     \<le> length (filter is_server_selection es)"
proof -
  have "\<not> cf_awaiting_charlist_req new_char_flow" by (simp add: new_char_flow_def)
  then show ?thesis
    using list_budget.pay_run [OF char_inv_new, of cfg es] unfolding sum_list_of_bool by simp
qed

end
