(* ===== verification/Text.thy ===== *)
theory Text
  imports Codec
begin

text \<open>
  Text helpers: the hexadecimal formatter and parser of \<open>shared/Hex.hpp\<close>, the dumps of
  \<open>shared/LogFmt.hpp\<close> and the string functions of \<open>shared/Utils.hpp\<close>, in the C locale. A
  \<open>std::string\<close> is a list of characters.
\<close>

section \<open>Strings\<close>

definition is_upper :: "char \<Rightarrow> bool" where
  "is_upper c \<longleftrightarrow> 65 \<le> (of_char c :: nat) \<and> (of_char c :: nat) \<le> 90"

definition is_lower :: "char \<Rightarrow> bool" where
  "is_lower c \<longleftrightarrow> 97 \<le> (of_char c :: nat) \<and> (of_char c :: nat) \<le> 122"

definition is_space :: "char \<Rightarrow> bool" where
  "is_space c \<longleftrightarrow> (of_char c :: nat) = 32 \<or> (9 \<le> (of_char c :: nat) \<and> (of_char c :: nat) \<le> 13)"

definition to_lower :: "string \<Rightarrow> string" where
  "to_lower s = map (\<lambda>c. if is_upper c then char_of ((of_char c :: nat) + 32) else c) s"

definition to_upper :: "string \<Rightarrow> string" where
  "to_upper s = map (\<lambda>c. if is_lower c then char_of ((of_char c :: nat) - 32) else c) s"

definition ltrim :: "string \<Rightarrow> string" where
  "ltrim s = dropWhile is_space s"

definition rtrim :: "string \<Rightarrow> string" where
  "rtrim s = rev (dropWhile is_space (rev s))"

definition trim :: "string \<Rightarrow> string" where
  "trim s = ltrim (rtrim s)"

text \<open>\<open>getenv_str\<close> and \<open>getenv_bool\<close>, given what \<open>std::getenv\<close> returns for each name.\<close>

definition getenv_str :: "(string \<Rightarrow> string option) \<Rightarrow> string \<Rightarrow> string option" where
  "getenv_str env key =
     (if key = [] then None
      else case env key of Some v \<Rightarrow> if v \<noteq> [] then Some v else None | None \<Rightarrow> None)"

definition getenv_bool :: "(string \<Rightarrow> string option) \<Rightarrow> string \<Rightarrow> bool option" where
  "getenv_bool env key =
     (case getenv_str env key of
        None \<Rightarrow> None
      | Some s \<Rightarrow>
          (let v = to_lower (trim s) in
           if v \<in> {''1'', ''true'', ''yes'', ''on''} then Some True
           else if v \<in> {''0'', ''false'', ''no'', ''off''} then Some False
           else None))"

section \<open>Hexadecimal\<close>

text \<open>\<open>isxdigit\<close>, and the value of a digit, -1 for anything else.\<close>

definition hexval :: "char \<Rightarrow> int" where
  "hexval c =
     (let uc = of_char c :: int in
      if 48 \<le> uc \<and> uc \<le> 57 then uc - 48
      else if 97 \<le> uc \<and> uc \<le> 102 then uc - 97 + 10
      else if 65 \<le> uc \<and> uc \<le> 70 then uc - 65 + 10
      else - 1)"

definition isxdigit :: "char \<Rightarrow> bool" where
  "isxdigit c \<longleftrightarrow>
     (let uc = of_char c :: int in
      (48 \<le> uc \<and> uc \<le> 57) \<or> (97 \<le> uc \<and> uc \<le> 102) \<or> (65 \<le> uc \<and> uc \<le> 70))"

fun hex_pairs :: "string \<Rightarrow> bytes option" where
  "hex_pairs (a # b # r) =
     (let hi = hexval a; lo = hexval b in
      if hi < 0 \<or> lo < 0 then None
      else case hex_pairs r of None \<Rightarrow> None | Some bs \<Rightarrow> Some (word_of_int (push_bit 4 hi OR lo) # bs))"
| "hex_pairs _ = Some []"

definition parse_hex_string :: "string \<Rightarrow> bytes option" where
  "parse_hex_string s =
     (let flat = filter isxdigit s
      in if length flat mod 2 \<noteq> 0 then None else hex_pairs flat)"

text \<open>The digits of \<open>%X\<close>, and \<open>%0nX\<close> for a number that fits in n digits.\<close>

definition hex_digit :: "nat \<Rightarrow> char" where
  "hex_digit d = ''0123456789ABCDEF'' ! d"

definition fmt_02X :: "u8 \<Rightarrow> string" where
  "fmt_02X b = [hex_digit (unat b div 16), hex_digit (unat b mod 16)]"

definition hex :: "bytes \<Rightarrow> string" where
  "hex p = concat (map (\<lambda>i. (if i \<noteq> 0 then '' '' else []) @ fmt_02X (p ! i)) [0..<length p])"

definition hex4 :: "bytes \<Rightarrow> string" where
  "hex4 a = hex a"

definition hex16 :: "u16 \<Rightarrow> string" where
  "hex16 v = map (\<lambda>i. hex_digit (unat v div 16 ^ i mod 16)) [3, 2, 1, 0]"

definition hex32 :: "u32 \<Rightarrow> string" where
  "hex32 v = map (\<lambda>i. hex_digit (unat v div 16 ^ i mod 16)) [7, 6, 5, 4, 3, 2, 1, 0]"

section \<open>The dump\<close>

fun fmt_hex_lower :: "nat \<Rightarrow> string" where
  "fmt_hex_lower n =
     (if n < 16 then [''0123456789abcdef'' ! n]
      else fmt_hex_lower (n div 16) @ [''0123456789abcdef'' ! (n mod 16)])"

declare fmt_hex_lower.simps [simp del]

definition fmt_04zx :: "nat \<Rightarrow> string" where
  "fmt_04zx n = (let d = fmt_hex_lower n in replicate (4 - length d) (CHR ''0'') @ d)"

definition printable :: "u8 \<Rightarrow> char" where
  "printable b = (if 0x20 \<le> b \<and> b \<le> 0x7E then char_of_u8 b else CHR ''.'')"

text \<open>One line of \<open>hex_dump\<close> at offset \<open>off\<close>, with the sixteen bytes a line the program uses.\<close>

definition dump_line :: "bytes \<Rightarrow> nat \<Rightarrow> string" where
  "dump_line p off =
     fmt_04zx off @ ''  ''
     @ concat (map (\<lambda>i. (if off + i < length p then fmt_02X (p ! (off + i)) @ '' '' else ''   '')
                        @ (if i = 7 then '' '' else [])) [0..<16])
     @ '' | ''
     @ map (\<lambda>i. if off + i < length p then printable (p ! (off + i)) else CHR '' '') [0..<16]
     @ [CHR 0x0A]"

function dump_from :: "bytes \<Rightarrow> nat \<Rightarrow> string" where
  "dump_from p off = (if off < length p then dump_line p off @ dump_from p (off + 16) else [])"
  by pat_completeness auto
termination by (relation "measure (\<lambda>(p, off). length p - off)") auto

declare dump_from.simps [simp del]

definition hex_dump :: "bytes \<Rightarrow> string" where
  "hex_dump p = dump_from p 0"

section \<open>Formatting and parsing back\<close>

lemma hex_digit_props:
  assumes "d < 16"
  shows "isxdigit (hex_digit d)" and "hexval (hex_digit d) = int d"
proof -
  have "d \<in> set [0..<16]" using assms by simp
  then have "isxdigit (hex_digit d) \<and> hexval (hex_digit d) = int d"
    by (simp add: upt_rec numeral_eq_Suc) (auto simp: hex_digit_def isxdigit_def hexval_def)
  then show "isxdigit (hex_digit d)" and "hexval (hex_digit d) = int d" by simp_all
qed

lemma byte_digits: "unat (b :: u8) div 16 < 16" "unat b mod 16 < 16"
  using less_mult_imp_div_less [of "unat b" 16 16] u8_unat_less [of b] by simp_all

lemma nibbles_join: "push_bit 4 (int a) OR int b = int a * 16 + int b" if "b < 16"
proof -
  have "take_bit 4 (int b) = int b" using that by (simp add: take_bit_eq_mod)
  then have "bit (int b) n \<Longrightarrow> n < 4" for n by (metis bit_take_bit_iff)
  then have "push_bit 4 (int a) AND int b = 0"
    by (auto simp: bit_eq_iff bit_and_iff bit_push_bit_iff) (use not_le in blast)
  then have "push_bit 4 (int a) + int b = push_bit 4 (int a) OR int b" by (rule disjunctive_add_eq_or)
  then show ?thesis by (simp add: push_bit_eq_mult)
qed

lemma hex_pairs_bytes: "hex_pairs (concat (map fmt_02X bs)) = Some bs"
proof (induction bs)
  case (Cons b bs)
  have "int (unat b div 16) * 16 + int (unat b mod 16) = int (unat b)"
    by (metis div_mult_mod_eq of_nat_add of_nat_mult of_nat_numeral)
  then show ?case
    using Cons byte_digits [of b] by (simp add: fmt_02X_def hex_digit_props nibbles_join Let_def)
qed simp

lemma filter_fmt: "filter isxdigit (fmt_02X b) = fmt_02X b"
  using byte_digits [of b] by (simp add: fmt_02X_def hex_digit_props)

lemma hex_flat: "filter isxdigit (hex p) = concat (map fmt_02X p)"
proof -
  have s: "filter isxdigit ((if i \<noteq> 0 then '' '' else []) @ fmt_02X b) = fmt_02X b" for i :: nat and b
    by (simp add: filter_fmt) (simp add: isxdigit_def)
  have "filter isxdigit (hex p) = concat (map (\<lambda>i. fmt_02X (p ! i)) [0..<length p])"
    unfolding hex_def filter_concat by (simp only: map_map comp_def s)
  also have "\<dots> = concat (map fmt_02X (map ((!) p) [0..<length p]))" by (simp add: comp_def)
  finally show ?thesis by (simp only: map_nth)
qed

lemma length_flat: "length (concat (map fmt_02X p)) = 2 * length p"
  by (induction p) (simp_all add: fmt_02X_def)

text \<open>
  The log format of a packet loses nothing: parsing the hexadecimal form of any byte sequence
  gives the sequence back, and filling bytes of any kind between the digits, as long as they are
  no hexadecimal digits themselves, does not change what is parsed.
\<close>

theorem hex_roundtrip:
  assumes "filter isxdigit s = filter isxdigit (hex p)"
  shows "parse_hex_string s = Some p"
  unfolding parse_hex_string_def assms hex_flat Let_def by (simp add: length_flat hex_pairs_bytes)

lemma hex_roundtrip_witness: "parse_hex_string ''CF-09, 06 00'' = Some [0xCF, 0x09, 0x06, 0x00]"
  by (rule hex_roundtrip) (simp add: hex_def isxdigit_def fmt_02X_def hex_digit_def)

text \<open>
  The \<open>0x\<close> prefix is not ignored. The parser skips the letter x but keeps the zero before it,
  so the second form its comment lists, \<open>0x69,0x00,0x00,0x00\<close>, is read as the six bytes 06 90 00
  00 00 00 and not as 69 00 00 00.
\<close>

theorem hex_prefix_misread:
  "parse_hex_string ''0x69,0x00,0x00,0x00'' = Some [0x06, 0x90, 0, 0, 0, 0]
   \<and> parse_hex_string ''69 00 00 00'' = Some [0x69, 0, 0, 0]"
  by (simp add: parse_hex_string_def isxdigit_def hexval_def Let_def)

end
