(* ===== verification/Environment.thy ===== *)
theory Environment
  imports Text Codec
begin

text \<open>
  The numeric environment helpers of \<open>shared/Utils.hpp\<close> with the conversions of the standard library
  they use, and the two one-line formatters of \<open>shared/LogFmt.hpp\<close>. An exception of \<open>stoi\<close>, \<open>stoll\<close> or
  \<open>stoull\<close> is \<open>None\<close>, as the helpers treat it.
\<close>

section \<open>Decimal conversion\<close>

definition is_digit :: "char \<Rightarrow> bool" where
  "is_digit c \<longleftrightarrow> (of_char c :: nat) \<in> {48..57}"

definition digits_value :: "string \<Rightarrow> nat" where
  "digits_value ds = foldl (\<lambda>n c. n * 10 + (of_char c - 48)) 0 ds"

text \<open>
  What \<open>strtol\<close> and its relatives read in base ten: leading white space, a sign, the digits; the rest
  is ignored. Without a digit there is no conversion.
\<close>

definition strto :: "string \<Rightarrow> (bool \<times> nat) option" where
  "strto s =
     (let s = dropWhile is_space s;
          neg = (s \<noteq> [] \<and> hd s = CHR ''-'');
          s = (if s \<noteq> [] \<and> (hd s = CHR ''-'' \<or> hd s = CHR ''+'') then tl s else s);
          ds = takeWhile is_digit s
      in if ds = [] then None else Some (neg, digits_value ds))"

definition signed_value :: "bool \<times> nat \<Rightarrow> int" where
  "signed_value x = (case x of (neg, n) \<Rightarrow> if neg then - int n else int n)"

definition stoi :: "string \<Rightarrow> int option" where
  "stoi s =
     (case strto s of
        None \<Rightarrow> None
      | Some x \<Rightarrow> if - (2 ^ 31) \<le> signed_value x \<and> signed_value x < 2 ^ 31 then Some (signed_value x) else None)"

definition stoll :: "string \<Rightarrow> int option" where
  "stoll s =
     (case strto s of
        None \<Rightarrow> None
      | Some x \<Rightarrow> if - (2 ^ 63) \<le> signed_value x \<and> signed_value x < 2 ^ 63 then Some (signed_value x) else None)"

text \<open>The unsigned conversion accepts a minus sign and negates within 64 bits.\<close>

definition stoull :: "string \<Rightarrow> u64 option" where
  "stoull s =
     (case strto s of
        None \<Rightarrow> None
      | Some (neg, n) \<Rightarrow> if n < 2 ^ 64 then Some (if neg then - of_nat n else of_nat n) else None)"

section \<open>The helpers\<close>

definition getenv_int :: "(string \<Rightarrow> string option) \<Rightarrow> string \<Rightarrow> int option" where
  "getenv_int env key = (case getenv_str env key of Some s \<Rightarrow> stoi (trim s) | None \<Rightarrow> None)"

definition getenv_uint :: "(string \<Rightarrow> string option) \<Rightarrow> string \<Rightarrow> u32 option" where
  "getenv_uint env key =
     (case getenv_str env key of
        Some s \<Rightarrow>
          (case stoll (trim s) of
             Some v \<Rightarrow> if v < 0 then None else Some (word_of_int v)
           | None \<Rightarrow> None)
      | None \<Rightarrow> None)"

definition getenv_u16 :: "(string \<Rightarrow> string option) \<Rightarrow> string \<Rightarrow> u16 option" where
  "getenv_u16 env key =
     (case getenv_uint env key of
        Some s \<Rightarrow> if s \<le> 0xFFFF then Some (ucast s) else None
      | None \<Rightarrow> None)"

definition getenv_size :: "(string \<Rightarrow> string option) \<Rightarrow> string \<Rightarrow> u64 option" where
  "getenv_size env key = (case getenv_str env key of Some s \<Rightarrow> stoull (trim s) | None \<Rightarrow> None)"

section \<open>Formatters\<close>

fun to_string :: "nat \<Rightarrow> string" where
  "to_string n =
     (if n < 10 then [''0123456789'' ! n] else to_string (n div 10) @ [''0123456789'' ! (n mod 10)])"

declare to_string.simps [simp del]

text \<open>Both print into a buffer of 160 bytes.\<close>

definition ro_header :: "bytes \<Rightarrow> string" where
  "ro_header p =
     (let n = length p in
      take 159
        (if n \<ge> 4 then
           (let op = rd16le p; len = rd16le (drop 2 p)
            in ''opcode=0x'' @ hex16 op @ '' len='' @ to_string (unat len) @ '' payload=''
               @ to_string (if unat len \<ge> 4 \<and> unat len \<le> n then unat len - 4 else if n \<ge> 4 then n - 4 else 0))
         else ''incomplete frame: '' @ to_string n @ '' bytes''))"

definition banner :: "string \<Rightarrow> string \<Rightarrow> nat \<Rightarrow> string" where
  "banner dir title total_len =
     take 159 (takeWhile (\<lambda>c. c \<noteq> CHR 0x00) dir @ '' '' @ takeWhile (\<lambda>c. c \<noteq> CHR 0x00) title
       @ '' ('' @ to_string total_len @ '' bytes)'')"

text \<open>The endpoint texts of a session, whose socket may have no peer, and of the query server.\<close>

definition remote_endpoint :: "(string \<times> u16) option \<Rightarrow> string" where
  "remote_endpoint ep = (case ep of None \<Rightarrow> ''[closed]'' | Some (address, port) \<Rightarrow> address @ '':'' @ to_string (unat port))"

definition endpoint_description :: "string \<Rightarrow> u16 \<Rightarrow> string" where
  "endpoint_description host port = host @ '':'' @ to_string (unat port)"

section \<open>Reading back what is printed\<close>

lemma digit_char:
  assumes "d < 10"
  shows "(of_char (''0123456789'' ! d) :: nat) = d + 48"
proof -
  have "d \<in> set [0..<10]" using assms by simp
  then show ?thesis by (simp add: upt_rec numeral_eq_Suc) auto
qed

lemma digits_value_snoc: "digits_value (ds @ [c]) = digits_value ds * 10 + (of_char c - 48)"
  by (simp add: digits_value_def)

lemma to_string_digits: "to_string n \<noteq> [] \<and> list_all is_digit (to_string n) \<and> digits_value (to_string n) = n"
proof (induction n rule: to_string.induct)
  case (1 n)
  show ?case
  proof (cases "n < 10")
    case True
    then show ?thesis
      using digit_char [of n] by (simp add: to_string.simps [of n] is_digit_def digits_value_def)
  next
    case False
    then show ?thesis
      using 1 digit_char [of "n mod 10"] by (simp add: to_string.simps [of n] is_digit_def digits_value_snoc)
  qed
qed

lemma digit_not_space: "is_digit c \<Longrightarrow> \<not> is_space c" "is_digit c \<Longrightarrow> c \<noteq> CHR ''-'' \<and> c \<noteq> CHR ''+''"
  by (auto simp: is_digit_def is_space_def)

lemma strto_to_string: "strto (to_string n) = Some (False, n)"
proof -
  note d = to_string_digits [of n]
  then obtain c cs where c: "to_string n = c # cs" "is_digit c" by (cases "to_string n") auto
  have w: "dropWhile is_space (to_string n) = to_string n" using c digit_not_space by simp
  have t: "takeWhile is_digit (to_string n) = to_string n"
    using d by (simp add: list_all_iff takeWhile_eq_all_conv)
  have "hd (to_string n) \<noteq> CHR ''-''" "hd (to_string n) \<noteq> CHR ''+''" using c digit_not_space [OF c(2)] by simp_all
  then show ?thesis using d by (simp add: strto_def Let_def w t)
qed

lemma trim_to_string: "trim (to_string n) = to_string n"
proof -
  have d: "\<forall>c \<in> set (to_string n). \<not> is_space c"
    using to_string_digits [of n] digit_not_space by (auto simp: list_all_iff)
  then have "dropWhile is_space (to_string n) = to_string n" "dropWhile is_space (rev (to_string n)) = rev (to_string n)"
    using to_string_digits [of n] by (simp_all add: dropWhile_eq_self_iff last_rev hd_rev)
  then show ?thesis by (simp add: trim_def ltrim_def rtrim_def)
qed

lemma getenv_str_number: "key \<noteq> [] \<Longrightarrow> env key = Some (to_string n) \<Longrightarrow> getenv_str env key = Some (to_string n)"
  using to_string_digits [of n] by (simp add: getenv_str_def)

text \<open>
  A 16-bit setting is range-checked after it was cut to 32 bits. For a number below 2 to the 63
  in the environment, \<open>getenv_u16\<close> gives that number modulo 2 to the 32 if this fits into sixteen
  bits, so it accepts 4294967297 and returns 1; the 32-bit and 64-bit helpers give the number
  itself when it fits.
\<close>

theorem getenv_numbers:
  assumes "key \<noteq> []" and "env key = Some (to_string n)" and "n < 2 ^ 63"
  shows "map_option unat (getenv_u16 env key) = (if n mod 2 ^ 32 \<le> 65535 then Some (n mod 2 ^ 32) else None)
    \<and> map_option unat (getenv_uint env key) = Some (n mod 2 ^ 32)
    \<and> map_option unat (getenv_size env key) = Some n
    \<and> getenv_int env key = (if n < 2 ^ 31 then Some (int n) else None)"
proof -
  have g: "getenv_str env key = Some (to_string n)" using getenv_str_number [of key env n] assms(1,2) by blast
  have u: "getenv_uint env key = Some (of_nat n)"
    using assms(3) by (simp add: getenv_uint_def g stoll_def trim_to_string strto_to_string signed_value_def)
  have un: "unat (of_nat n :: u32) = n mod 2 ^ 32" by (simp add: unat_of_nat)
  have "(of_nat n :: u32) \<le> 0xFFFF \<longleftrightarrow> n mod 2 ^ 32 \<le> 65535" using un by (simp add: word_le_nat_alt)
  moreover have "unat (ucast (of_nat n :: u32) :: u16) = n mod 2 ^ 32" if "n mod 2 ^ 32 \<le> 65535"
    using un that by (simp add: unsigned_ucast_eq take_bit_eq_mod)
  ultimately have "map_option unat (getenv_u16 env key) = (if n mod 2 ^ 32 \<le> 65535 then Some (n mod 2 ^ 32) else None)"
    by (simp add: getenv_u16_def u)
  moreover have "map_option unat (getenv_size env key) = Some n"
    using assms(3) by (simp add: getenv_size_def g stoull_def trim_to_string strto_to_string unat_of_nat)
  moreover have "getenv_int env key = (if n < 2 ^ 31 then Some (int n) else None)"
    by (simp add: getenv_int_def g stoi_def trim_to_string strto_to_string signed_value_def)
  ultimately show ?thesis using u un by simp
qed

lemma getenv_numbers_witness:
  "to_string 4294967297 = ''4294967297''
   \<and> map_option unat (getenv_u16 (\<lambda>k. Some (to_string 4294967297)) ''PORT'') = Some 1"
  using getenv_numbers [of "''PORT''" "\<lambda>k. Some (to_string 4294967297)" 4294967297]
  by (simp add: to_string.simps)

end
