(* ===== verification/Config.thy ===== *)
theory Config
  imports Text
begin

text \<open>
  Configuration, \<open>infrastructure/config/Config.hpp\<close> and \<open>.cpp\<close>. The TOML library is not part of the
  repository: its node type and the accessors the code calls on a node are arguments, collected in
  a record of functions, and so are the file system and the parser. What \<open>LoadConfig\<close> throws is an
  error value.
\<close>

section \<open>The library's interface\<close>

record 'n toml_api =
  node_at :: "'n \<Rightarrow> string \<Rightarrow> 'n option"
  value_u64 :: "'n \<Rightarrow> u64 option"
  value_i64 :: "'n \<Rightarrow> int option"
  value_bool :: "'n \<Rightarrow> bool option"
  value_string :: "'n \<Rightarrow> string option"
  as_array :: "'n \<Rightarrow> 'n list option"
  as_table :: "'n \<Rightarrow> 'n option"

section \<open>Definitions\<close>

record Config =
  service_name :: string
  version :: string
  debug :: bool
  log_level :: string
  log_to_file :: bool
  log_file :: string
  log_max_files :: int
  log_max_size_bytes :: nat
  proto_max_packet :: nat
  query_host :: string
  query_max_buf :: nat
  query_ports :: "u16 list"
  ro_host :: string
  login_ports :: "u16 list"
  char_ports :: "u16 list"
  net_max_write_queue :: nat
  net_tcp_nodelay :: bool
  net_tcp_keepalive :: bool
  loaded_from :: string

definition default_Config :: Config where
  "default_Config =
     \<lparr>service_name = ''Thanatos'', version = ''0.1.4'', debug = False, log_level = ''info'',
      log_to_file = False, log_file = ''thanatos.log'', log_max_files = 3,
      log_max_size_bytes = 10 * 1024 * 1024, proto_max_packet = 65536, query_host = ''127.0.0.1'',
      query_max_buf = 1 * 1024 * 1024, query_ports = [], ro_host = ''0.0.0.0'', login_ports = [],
      char_ports = [], net_max_write_queue = 1024, net_tcp_nodelay = True, net_tcp_keepalive = False,
      loaded_from = ''(defaults)''\<rparr>"

datatype config_error =
    File_not_found
  | Parse_error
  | Login_ports_required
  | Char_ports_required
  | Query_ports_required

definition ToSpdlogLevel :: "string \<Rightarrow> int" where
  "ToSpdlogLevel level =
     (let l = to_lower level in
      if l = ''trace'' then 0
      else if l = ''debug'' then 1
      else if l = ''info'' then 2
      else if l = ''warn'' then 3
      else if l = ''error'' then 4
      else if l = ''critical'' then 5
      else if l = ''off'' then 6
      else 2)"

text \<open>A negative 64-bit integer cast to \<open>size_t\<close> wraps.\<close>

definition get_u64 :: "'n toml_api \<Rightarrow> 'n \<Rightarrow> string \<Rightarrow> nat \<Rightarrow> nat" where
  "get_u64 A t key defv =
     (case node_at A t key of
        None \<Rightarrow> defv
      | Some node \<Rightarrow>
          (case value_u64 A node of
             Some u \<Rightarrow> unat u
           | None \<Rightarrow> (case value_i64 A node of Some i \<Rightarrow> unat (word_of_int i :: u64) | None \<Rightarrow> defv)))"

definition clamp_u16 :: "int \<Rightarrow> u16" where
  "clamp_u16 v = (if v < 0 then 0 else if v > 0xFFFF then 0xFFFF else word_of_int v)"

definition get_bool :: "'n toml_api \<Rightarrow> 'n \<Rightarrow> string \<Rightarrow> bool \<Rightarrow> bool" where
  "get_bool A t key defv =
     (case node_at A t key of
        None \<Rightarrow> defv
      | Some node \<Rightarrow> (case value_bool A node of Some b \<Rightarrow> b | None \<Rightarrow> defv))"

definition get_str :: "'n toml_api \<Rightarrow> 'n \<Rightarrow> string \<Rightarrow> string \<Rightarrow> string" where
  "get_str A t key defv =
     (case node_at A t key of
        None \<Rightarrow> defv
      | Some node \<Rightarrow> (case value_string A node of Some s \<Rightarrow> s | None \<Rightarrow> defv))"

fun push_ports :: "'n toml_api \<Rightarrow> 'n list \<Rightarrow> u16 list \<Rightarrow> u16 list" where
  "push_ports A [] out = out"
| "push_ports A (v # vs) out =
     push_ports A vs
       (case value_u64 A v of
          Some u \<Rightarrow> out @ [clamp_u16 (sint u)]
        | None \<Rightarrow> (case value_i64 A v of Some i \<Rightarrow> out @ [clamp_u16 i] | None \<Rightarrow> out))"

definition get_ports_array :: "'n toml_api \<Rightarrow> 'n \<Rightarrow> string \<Rightarrow> u16 list \<Rightarrow> u16 list" where
  "get_ports_array A t key out =
     (case node_at A t key of
        None \<Rightarrow> out
      | Some node \<Rightarrow> (case as_array A node of Some arr \<Rightarrow> push_ports A arr out | None \<Rightarrow> out))"

text \<open>\<open>tbl["name"].as_table()\<close>.\<close>

definition section_of :: "'n toml_api \<Rightarrow> 'n \<Rightarrow> string \<Rightarrow> 'n option" where
  "section_of A tbl name = (case node_at A tbl name of None \<Rightarrow> None | Some n \<Rightarrow> as_table A n)"

definition read_app :: "'n toml_api \<Rightarrow> 'n option \<Rightarrow> Config \<Rightarrow> Config" where
  "read_app A s cfg =
     (case s of
        None \<Rightarrow> cfg
      | Some app \<Rightarrow>
          (let cfg = cfg\<lparr>service_name := get_str A app ''service_name'' (service_name cfg)\<rparr>;
               cfg = cfg\<lparr>version := get_str A app ''version'' (version cfg)\<rparr>
           in cfg\<lparr>debug := get_bool A app ''debug'' (debug cfg)\<rparr>))"

definition read_thanatos :: "'n toml_api \<Rightarrow> 'n option \<Rightarrow> Config \<Rightarrow> Config" where
  "read_thanatos A s cfg =
     (case s of
        None \<Rightarrow> cfg
      | Some pos \<Rightarrow>
          (let cfg = cfg\<lparr>ro_host := get_str A pos ''ro_host'' (ro_host cfg)\<rparr>;
               cfg = cfg\<lparr>login_ports := get_ports_array A pos ''login_ports'' (login_ports cfg)\<rparr>
           in cfg\<lparr>char_ports := get_ports_array A pos ''char_ports'' (char_ports cfg)\<rparr>))"

definition read_protocol :: "'n toml_api \<Rightarrow> 'n option \<Rightarrow> Config \<Rightarrow> Config" where
  "read_protocol A s cfg =
     (case s of
        None \<Rightarrow> cfg
      | Some proto \<Rightarrow>
          (let cfg = cfg\<lparr>proto_max_packet := get_u64 A proto ''max_packet_size'' (proto_max_packet cfg)\<rparr>
           in if node_at A proto ''max_packet'' \<noteq> None
              then cfg\<lparr>proto_max_packet := get_u64 A proto ''max_packet'' (proto_max_packet cfg)\<rparr>
              else cfg))"

definition read_query :: "'n toml_api \<Rightarrow> 'n option \<Rightarrow> Config \<Rightarrow> Config" where
  "read_query A s cfg =
     (case s of
        None \<Rightarrow> cfg
      | Some q \<Rightarrow>
          (let cfg = cfg\<lparr>query_host := get_str A q ''host'' (query_host cfg)\<rparr>;
               cfg = cfg\<lparr>query_max_buf := get_u64 A q ''max_buf'' (query_max_buf cfg)\<rparr>
           in cfg\<lparr>query_ports := get_ports_array A q ''ports'' (query_ports cfg)\<rparr>))"

definition LoadConfig ::
  "'n toml_api \<Rightarrow> (string \<Rightarrow> bool) \<Rightarrow> (string \<Rightarrow> 'n option) \<Rightarrow> string \<Rightarrow> config_error + Config" where
  "LoadConfig A exists parse path =
     (if \<not> exists path then Inl File_not_found
      else case parse path of
             None \<Rightarrow> Inl Parse_error
           | Some tbl \<Rightarrow>
               (let cfg = default_Config\<lparr>loaded_from := path\<rparr>;
                    cfg = read_app A (section_of A tbl ''app'') cfg;
                    cfg = read_thanatos A (section_of A tbl ''thanatos'') cfg;
                    cfg = read_protocol A (section_of A tbl ''protocol'') cfg;
                    cfg = read_query A (section_of A tbl ''query'') cfg
                in if login_ports cfg = [] then Inl Login_ports_required
                   else if char_ports cfg = [] then Inl Char_ports_required
                   else if query_ports cfg = [] then Inl Query_ports_required
                   else Inr cfg))"

section \<open>Lemmas\<close>

lemma clamp_u16_value: "unat (clamp_u16 v) = nat (max 0 (min 65535 v))"
proof -
  have "uint (word_of_int v :: u16) = v mod 65536" by (simp add: uint_word_of_int)
  moreover have "unat w = nat (uint w)" for w :: u16 by simp
  ultimately show ?thesis
    by (cases "v < 0"; cases "v > 0xFFFF") (simp_all add: clamp_u16_def del: unat_eq_nat_uint nat_uint_eq)
qed

definition outside_sections :: "Config \<Rightarrow> Config \<Rightarrow> bool" where
  "outside_sections c d \<longleftrightarrow>
     log_level c = log_level d \<and> log_to_file c = log_to_file d \<and> log_file c = log_file d
     \<and> log_max_files c = log_max_files d \<and> log_max_size_bytes c = log_max_size_bytes d
     \<and> net_max_write_queue c = net_max_write_queue d \<and> net_tcp_nodelay c = net_tcp_nodelay d
     \<and> net_tcp_keepalive c = net_tcp_keepalive d"

lemma readers_keep:
  "outside_sections (read_app A s c) c" "outside_sections (read_thanatos A s c) c"
  "outside_sections (read_protocol A s c) c" "outside_sections (read_query A s c) c"
  by (simp_all add: outside_sections_def read_app_def read_thanatos_def read_protocol_def read_query_def
      Let_def split: option.split)

lemma outside_trans: "outside_sections a b \<Longrightarrow> outside_sections b c \<Longrightarrow> outside_sections a c"
  by (simp add: outside_sections_def)

lemma LoadConfig_cases:
  assumes "LoadConfig A ex parse path = Inr cfg"
  obtains tbl where "cfg = read_query A (section_of A tbl ''query'') (read_protocol A (section_of A tbl ''protocol'')
      (read_thanatos A (section_of A tbl ''thanatos'') (read_app A (section_of A tbl ''app'')
        (default_Config\<lparr>loaded_from := path\<rparr>))))"
    and "login_ports cfg \<noteq> []" and "char_ports cfg \<noteq> []" and "query_ports cfg \<noteq> []"
  using assms by (auto simp: LoadConfig_def Let_def split: if_splits option.splits)

lemma LoadConfig_outside:
  assumes "LoadConfig A ex parse path = Inr cfg"
  shows "outside_sections cfg (default_Config\<lparr>loaded_from := path\<rparr>)"
proof -
  obtain tbl where c: "cfg = read_query A (section_of A tbl ''query'') (read_protocol A (section_of A tbl ''protocol'')
      (read_thanatos A (section_of A tbl ''thanatos'') (read_app A (section_of A tbl ''app'')
        (default_Config\<lparr>loaded_from := path\<rparr>))))"
    using assms by (rule LoadConfig_cases)
  show ?thesis
    unfolding c by (intro outside_trans [OF readers_keep(4)] outside_trans [OF readers_keep(3)]
        outside_trans [OF readers_keep(2)] readers_keep(1))
qed


text \<open>A document as a value, with which the accessors can be evaluated.\<close>

datatype doc = D_int int | D_bool bool | D_str string | D_arr "doc list" | D_tab "(string \<times> doc) list"

fun doc_at :: "doc \<Rightarrow> string \<Rightarrow> doc option" where
  "doc_at (D_tab kvs) k = map_of kvs k"
| "doc_at _ k = None"

definition doc_api :: "doc toml_api" where
  "doc_api =
     \<lparr>node_at = doc_at,
      value_u64 = (\<lambda>d. case d of D_int i \<Rightarrow> if i < 0 then None else Some (word_of_int i) | _ \<Rightarrow> None),
      value_i64 = (\<lambda>d. case d of D_int i \<Rightarrow> Some i | _ \<Rightarrow> None),
      value_bool = (\<lambda>d. case d of D_bool b \<Rightarrow> Some b | _ \<Rightarrow> None),
      value_string = (\<lambda>d. case d of D_str s \<Rightarrow> Some s | _ \<Rightarrow> None),
      as_array = (\<lambda>d. case d of D_arr xs \<Rightarrow> Some xs | _ \<Rightarrow> None),
      as_table = (\<lambda>d. case d of D_tab kvs \<Rightarrow> Some d | _ \<Rightarrow> None)\<rparr>"

definition sample_doc :: doc where
  "sample_doc = D_tab
     [(''thanatos'', D_tab [(''login_ports'', D_arr [D_int 6900]), (''char_ports'', D_arr [D_int 6121])]),
      (''query'', D_tab [(''ports'', D_arr [D_int 24395])]),
      (''log'', D_tab [(''level'', D_str ''debug'')])]"

lemma sample_doc_loads: "\<exists>cfg. LoadConfig doc_api (\<lambda>_. True) (\<lambda>_. Some sample_doc) path = Inr cfg"
  by (simp add: LoadConfig_def section_of_def sample_doc_def doc_api_def read_app_def read_thanatos_def
      read_protocol_def read_query_def get_ports_array_def default_Config_def Let_def)


lemma push_ports_eq:
  "push_ports A vs out = out @ push_ports A vs []"
proof (induction vs arbitrary: out)
  case (Cons v vs)
  let ?p = "case value_u64 A v of Some u \<Rightarrow> [clamp_u16 (sint u)]
     | None \<Rightarrow> (case value_i64 A v of Some i \<Rightarrow> [clamp_u16 i] | None \<Rightarrow> [])"
  have "push_ports A (v # vs) o' = push_ports A vs (o' @ ?p)" for o'
    by (simp split: option.split)
  then show ?case using Cons.IH [of "out @ ?p"] Cons.IH [of "[] @ ?p"] by simp
qed simp

text \<open>
  How a port list is read. When the library reads each element as the 64-bit integer it is, each
  port becomes that integer saturated to 0..65535, in order; an element that is no integer is
  dropped, so that it shifts the ports behind it into other port sets.
\<close>

theorem ports_are_saturated:
  assumes "node_at A t key = Some node" and "as_array A node = Some vs"
    and "\<And>v i. v \<in> set vs \<Longrightarrow> value_i64 A v = Some i \<Longrightarrow> - (2 ^ 63) \<le> i \<and> i < 2 ^ 63"
    and "\<And>v. v \<in> set vs \<Longrightarrow> value_u64 A v =
        (case value_i64 A v of Some i \<Rightarrow> if 0 \<le> i then Some (word_of_int i) else None | None \<Rightarrow> None)"
  shows "map unat (get_ports_array A t key []) = map (\<lambda>i. nat (max 0 (min 65535 i))) (List.map_filter (value_i64 A) vs)"
proof -
  have "map unat (push_ports A vs []) = map (\<lambda>i. nat (max 0 (min 65535 i))) (List.map_filter (value_i64 A) vs)"
    using assms(3,4)
  proof (induction vs)
    case (Cons v vs)
    have ih: "map unat (push_ports A vs []) = map (\<lambda>i. nat (max 0 (min 65535 i))) (List.map_filter (value_i64 A) vs)"
    proof (rule Cons.IH)
      fix w i assume w: "w \<in> set vs"
      then have m: "w \<in> set (v # vs)" by simp
      show "value_i64 A w = Some i \<Longrightarrow> - (2 ^ 63) \<le> i \<and> i < 2 ^ 63" by (rule Cons.prems(1) [OF m])
      show "value_u64 A w = (case value_i64 A w of Some i \<Rightarrow> if 0 \<le> i then Some (word_of_int i) else None | None \<Rightarrow> None)"
        by (rule Cons.prems(2) [OF m])
    qed
    show ?case
    proof (cases "value_i64 A v")
      case None
      have "value_u64 A v = None" using Cons.prems(2) [of v] None by simp
      then show ?thesis using ih None by (simp add: List.map_filter_simps)
    next
      case (Some i)
      have r: "- (2 ^ 63) \<le> i \<and> i < 2 ^ 63" using Cons.prems(1) [of v i] Some by simp
      have s: "sint (word_of_int i :: u64) = i" using r by (simp add: signed_of_int signed_take_bit_int_eq_self)
      have "push_ports A (v # vs) [] = push_ports A vs [clamp_u16 i]"
        using Cons.prems(2) [of v] Some s by simp
      then show ?thesis
        using ih Some push_ports_eq [of A vs "[clamp_u16 i]"] by (simp add: List.map_filter_simps clamp_u16_value)
    qed
  qed (simp add: List.map_filter_simps)
  then show ?thesis using assms(1,2) by (simp add: get_ports_array_def)
qed

lemma ports_are_saturated_witness:
  "map unat (get_ports_array doc_api (D_tab [(''ports'', D_arr [D_int 6900, D_str ''x'', D_int 70000, D_int (- 5)])]) ''ports'' [])
    = [6900, 65535, 0]"
proof -
  let ?vs = "[D_int 6900, D_str ''x'', D_int 70000, D_int (- 5)]"
  have "map unat (get_ports_array doc_api (D_tab [(''ports'', D_arr ?vs)]) ''ports'' [])
      = map (\<lambda>i. nat (max 0 (min 65535 i))) (List.map_filter (value_i64 doc_api) ?vs)"
    by (rule ports_are_saturated) (auto simp: doc_api_def)
  then show ?thesis by (simp add: List.map_filter_simps doc_api_def)
qed

end
