(* ===== verification/Net_Session.thy ===== *)
theory Net_Session
  imports Prelude
begin

text \<open>
  One accepted connection and the accept loop, \<open>infrastructure/net/asio/AsioTcpServer.cpp\<close>. As for the
  query server, what is outstanding at Boost.Asio is part of the state and its completion is an
  event. All handlers of a session run on its strand, so while \<open>on_data\<close> of the application runs
  nothing but the calls it makes itself happens to the session. Socket options and logging are
  left out.
\<close>

section \<open>The watchdog timer\<close>

text \<open>
  A steady timer with one wait: the wait is armed, or it has expired and its handler is due. Setting
  a new expiry or cancelling aborts an armed wait, whose handler then does nothing; it is too late
  for a handler that is due.
\<close>

record watchdog =
  wd_armed :: bool
  wd_due :: nat

definition wd_off :: watchdog where "wd_off = \<lparr>wd_armed = False, wd_due = 0\<rparr>"

definition wd_start :: "watchdog \<Rightarrow> watchdog" where "wd_start w = w\<lparr>wd_armed := True\<rparr>"

definition wd_cancel :: "watchdog \<Rightarrow> watchdog" where "wd_cancel w = w\<lparr>wd_armed := False\<rparr>"

definition wd_expire :: "watchdog \<Rightarrow> watchdog" where
  "wd_expire w = (if wd_armed w then w\<lparr>wd_armed := False, wd_due := wd_due w + 1\<rparr> else w)"

section \<open>A session\<close>

datatype net_error = Eof | Connection_reset | Operation_aborted | No_buffer_space | Timed_out | Other_error

record tcp_session =
  ts_open :: bool
  ts_reads :: nat
  ts_writes :: "bytes list"
  ts_queue :: "bytes list"
  ts_timer :: watchdog
  ts_in_handler :: bool

datatype session_output =
    On_data bytes
  | On_disconnect net_error
  | Sent bytes

definition new_tcp_session :: tcp_session where
  "new_tcp_session =
     \<lparr>ts_open = True, ts_reads = 0, ts_writes = [], ts_queue = [], ts_timer = wd_off,
      ts_in_handler = False\<rparr>"

definition ts_do_read :: "tcp_session \<Rightarrow> tcp_session" where
  "ts_do_read s = (if \<not> ts_open s then s else s\<lparr>ts_reads := ts_reads s + 1\<rparr>)"

definition ts_do_write :: "tcp_session \<Rightarrow> tcp_session" where
  "ts_do_write s =
     (if ts_queue s = [] \<or> \<not> ts_open s then s
      else (let s = s\<lparr>ts_timer := wd_start (ts_timer s)\<rparr>
            in s\<lparr>ts_writes := ts_writes s @ [hd (ts_queue s)]\<rparr>))"

definition handle_read_error :: "net_error \<Rightarrow> tcp_session \<Rightarrow> tcp_session \<times> session_output list" where
  "handle_read_error e s = (s, [On_disconnect e])"

definition handle_write_error :: "net_error \<Rightarrow> tcp_session \<Rightarrow> tcp_session \<times> session_output list" where
  "handle_write_error e s = (s, [On_disconnect e])"

definition ts_do_close :: "net_error option \<Rightarrow> tcp_session \<Rightarrow> tcp_session \<times> session_output list" where
  "ts_do_close reason s =
     (if \<not> ts_open s then (s, [])
      else (let s = s\<lparr>ts_open := False\<rparr>;
                s = s\<lparr>ts_timer := wd_cancel (ts_timer s)\<rparr>
            in case reason of Some e \<Rightarrow> (s, [On_disconnect e]) | None \<Rightarrow> (s, [])))"

definition ts_send :: "bytes \<Rightarrow> tcp_session \<Rightarrow> tcp_session \<times> session_output list" where
  "ts_send data s =
     (let s = s\<lparr>ts_queue := ts_queue s @ [data]\<rparr>
      in if length (ts_queue s) > 1000 then ts_do_close (Some No_buffer_space) s
         else if length (ts_queue s) = 1 then (ts_do_write s, [])
         else (s, []))"

definition ts_close :: "tcp_session \<Rightarrow> tcp_session \<times> session_output list" where
  "ts_close s = ts_do_close None s"

definition ts_start :: "tcp_session \<Rightarrow> tcp_session" where
  "ts_start s = ts_do_read s"

definition ts_on_write :: "net_error option \<Rightarrow> bytes \<Rightarrow> tcp_session \<Rightarrow> tcp_session \<times> session_output list" where
  "ts_on_write bec buf s =
     (let s = s\<lparr>ts_timer := wd_cancel (ts_timer s)\<rparr>
      in case bec of
           Some e \<Rightarrow> handle_write_error e s
         | None \<Rightarrow>
             (let s = s\<lparr>ts_queue := tl (ts_queue s)\<rparr>
              in (if ts_queue s \<noteq> [] then ts_do_write s else s, [Sent buf])))"

text \<open>
  The events: calls of the application, completions of a read or a write, the end of \<open>on_data\<close>, and
  the two stages of a timer that fires. The handler of the timer cancels the operations of the
  socket, which then complete with an error like any other.
\<close>

datatype session_event =
    Send_call bytes
  | Close_call
  | Read_done bytes
  | Data_handled
  | Read_failed net_error
  | Write_done
  | Write_failed net_error
  | Timer_expires
  | Timer_runs

fun session_step :: "tcp_session \<Rightarrow> session_event \<Rightarrow> tcp_session \<times> session_output list" where
  "session_step s (Send_call b) = ts_send b s"
| "session_step s Close_call = ts_close s"
| "session_step s (Read_done b) =
     (if ts_reads s = 0 \<or> ts_in_handler s then (s, [])
      else (s\<lparr>ts_reads := ts_reads s - 1, ts_in_handler := True\<rparr>, [On_data b]))"
| "session_step s Data_handled =
     (if ts_in_handler s then (ts_do_read (s\<lparr>ts_in_handler := False\<rparr>), []) else (s, []))"
| "session_step s (Read_failed e) =
     (if ts_reads s = 0 \<or> ts_in_handler s then (s, [])
      else handle_read_error e (s\<lparr>ts_reads := ts_reads s - 1\<rparr>))"
| "session_step s Write_done =
     (case ts_writes s of
        [] \<Rightarrow> (s, [])
      | b # bs \<Rightarrow> if ts_in_handler s then (s, []) else ts_on_write None b (s\<lparr>ts_writes := bs\<rparr>))"
| "session_step s (Write_failed e) =
     (case ts_writes s of
        [] \<Rightarrow> (s, [])
      | b # bs \<Rightarrow> if ts_in_handler s then (s, []) else ts_on_write (Some e) b (s\<lparr>ts_writes := bs\<rparr>))"
| "session_step s Timer_expires = (s\<lparr>ts_timer := wd_expire (ts_timer s)\<rparr>, [])"
| "session_step s Timer_runs =
     (s\<lparr>ts_timer := (ts_timer s)\<lparr>wd_due := wd_due (ts_timer s) - 1\<rparr>\<rparr>, [])"

definition started_session :: tcp_session where
  "started_session = ts_start new_tcp_session"

lemmas session_defs = ts_send_def ts_close_def ts_do_close_def ts_do_read_def ts_do_write_def
  ts_on_write_def handle_read_error_def handle_write_error_def Let_def

section \<open>Invariant\<close>

text \<open>
  At most one write is in progress, and it is of the packet at the front of the queue; while the
  connection is open the queue is within its limit; a read is armed or being handled at most once.
\<close>

definition session_inv :: "tcp_session \<Rightarrow> bool" where
  "session_inv s \<longleftrightarrow>
     (ts_writes s = [] \<or> (ts_queue s \<noteq> [] \<and> ts_writes s = [hd (ts_queue s)]))
     \<and> (ts_open s \<longrightarrow> length (ts_queue s) \<le> 1000)
     \<and> ts_reads s + (if ts_in_handler s then 1 else 0) \<le> 1"

lemma session_inv_started: "session_inv started_session"
  by (simp add: session_inv_def started_session_def ts_start_def ts_do_read_def new_tcp_session_def)

lemma session_inv_step: "session_inv s \<Longrightarrow> session_inv (fst (session_step s e))"
  by (cases e) (auto simp: session_inv_def session_defs hd_append split: list.split option.split)

interpretation session: invariant_machine session_step session_inv
  by unfold_locales (rule session_inv_step)

section \<open>Order\<close>

definition sent_payload :: "session_output \<Rightarrow> bytes list" where
  "sent_payload out = (case out of Sent b \<Rightarrow> [b] | _ \<Rightarrow> [])"

definition given_payload :: "session_event \<Rightarrow> bytes list" where
  "given_payload e = (case e of Send_call b \<Rightarrow> [b] | _ \<Rightarrow> [])"

abbreviation sent_bytes :: "session_output list \<Rightarrow> bytes list" where
  "sent_bytes os \<equiv> concat (map sent_payload os)"

interpretation session_queue: fifo_machine session_step session_inv ts_queue given_payload sent_payload
proof unfold_locales
  fix s e
  assume inv: "session_inv s"
  show "concat (map sent_payload (snd (session_step s e))) @ ts_queue (fst (session_step s e))
      = ts_queue s @ given_payload e"
    using inv by (cases e; cases "ts_queue s")
      (auto simp: session_inv_def session_defs sent_payload_def given_payload_def split: list.split option.split)
qed

text \<open>
  C29: Packets reach a client in the order they were sent, none twice and none left out. Over every
  run of a session the packets whose write succeeded, followed by those still queued, are exactly
  the packets the application has sent: closing, errors and timeouts never reorder or drop one
  from the middle.
\<close>

theorem session_sends_in_order:
  "sent_bytes (snd (run session_step started_session es)) @ ts_queue (fst (run session_step started_session es))
     = concat (map given_payload es)"
  using session_queue.fifo_run [OF session_inv_started, of es]
  by (simp add: started_session_def ts_start_def ts_do_read_def new_tcp_session_def)

section \<open>Everything is written\<close>

definition writing :: "bytes list \<Rightarrow> tcp_session \<Rightarrow> bool" where
  "writing bs s \<longleftrightarrow> ts_open s \<and> \<not> ts_in_handler s \<and> ts_queue s = bs \<and> ts_writes s = take 1 bs"

lemma writing_send:
  "writing bs s \<Longrightarrow> length bs < 1000 \<Longrightarrow>
     writing (bs @ [b]) (fst (session_step s (Send_call b))) \<and> snd (session_step s (Send_call b)) = []"
  by (cases bs) (auto simp: writing_def session_defs)

lemma writing_sends:
  "writing bs s \<Longrightarrow> length bs + length cs \<le> 1000 \<Longrightarrow>
     writing (bs @ cs) (fst (run session_step s (map Send_call cs)))
     \<and> snd (run session_step s (map Send_call cs)) = []"
proof (induction cs arbitrary: bs s)
  case (Cons c cs)
  then have "writing (bs @ [c]) (fst (session_step s (Send_call c)))" "snd (session_step s (Send_call c)) = []"
    using writing_send [of bs s c] by simp_all
  with Cons.IH [of "bs @ [c]"] Cons.prems show ?case by (simp del: session_step.simps)
qed simp

lemma writing_done:
  "writing (b # bs) s \<Longrightarrow> writing bs (fst (session_step s Write_done)) \<and> snd (session_step s Write_done) = [Sent b]"
  by (cases bs) (auto simp: writing_def session_defs)

lemma writing_dones:
  "writing bs s \<Longrightarrow> snd (run session_step s (replicate (length bs) Write_done)) = map Sent bs"
proof (induction bs arbitrary: s)
  case (Cons b bs)
  then show ?case using writing_done [OF Cons.prems] by (simp del: session_step.simps)
qed simp

text \<open>
  Everything is written. Up to a thousand packets sent in one burst on a fresh connection are all
  written, in order, by as many successful writes.
\<close>

theorem session_burst_is_written:
  assumes "length bs \<le> 1000"
  shows "snd (run session_step started_session (map Send_call bs @ replicate (length bs) Write_done)) = map Sent bs"
proof -
  have "writing [] started_session"
    by (simp add: writing_def started_session_def ts_start_def ts_do_read_def new_tcp_session_def)
  from writing_sends [OF this, of bs] assms show ?thesis
    using writing_dones by (simp add: run_append)
qed

lemma session_burst_is_written_witness:
  "snd (run session_step started_session
      (map Send_call [[1], [2, 3]] @ replicate (length [[1], [2, 3 :: u8]]) Write_done)) = map Sent [[1], [2, 3]]"
  by (rule session_burst_is_written) simp

section \<open>The limit of the queue\<close>

lemma closed_send:
  "\<not> ts_open s \<Longrightarrow> \<not> ts_open (fst (session_step s (Send_call b))) \<and> snd (session_step s (Send_call b)) = []
     \<and> ts_queue (fst (session_step s (Send_call b))) = ts_queue s @ [b]"
  by (simp add: session_defs)

lemma closed_sends:
  "\<not> ts_open s \<Longrightarrow> ts_queue (fst (run session_step s (map Send_call bs))) = ts_queue s @ bs
     \<and> snd (run session_step s (map Send_call bs)) = []"
proof (induction bs arbitrary: s)
  case (Cons b bs)
  then show ?case using closed_send [OF Cons.prems, of b] by (simp del: session_step.simps)
qed simp

text \<open>
  C30: The limit of the write queue holds only while the connection is open. In every reachable state
  an open connection has at most a thousand packets queued; once it is closed, by the overflow or
  otherwise, every further packet sent is still queued, nothing is ever written, and the queue
  grows by one packet with each send.
\<close>

theorem session_queue_limit:
  "let s = fst (run session_step started_session es) in
     (ts_open s \<longrightarrow> length (ts_queue s) \<le> 1000)
     \<and> (\<not> ts_open s \<longrightarrow> length (ts_queue (fst (run session_step s (map Send_call bs)))) = length (ts_queue s) + length bs
          \<and> snd (run session_step s (map Send_call bs)) = [])"
  using session.inv_run [OF session_inv_started, of es] closed_sends
  by (simp add: Let_def session_inv_def)

lemma session_queue_limit_witness:
  "ts_open started_session \<and> length (ts_queue started_session) \<le> 1000
   \<and> (let s = fst (run session_step started_session [Close_call]) in
        \<not> ts_open s \<and> length (ts_queue (fst (run session_step s (map Send_call (replicate 5000 [1]))))) = 5000)"
proof -
  have s: "ts_open started_session"
      "fst (run session_step started_session [Close_call]) = started_session\<lparr>ts_open := False, ts_timer := wd_cancel wd_off\<rparr>"
      "ts_queue started_session = []"
    by (simp_all add: started_session_def ts_start_def new_tcp_session_def session_defs)
  show ?thesis
    using session_queue_limit [of "[]" "[]"] session_queue_limit [of "[Close_call]" "replicate 5000 [1]"] s
    by (simp add: Let_def del: run_fst_Cons run_snd_Cons)
qed

section \<open>Notifications\<close>

definition is_disconnect :: "session_output \<Rightarrow> bool" where
  "is_disconnect out \<longleftrightarrow> (\<exists>e. out = On_disconnect e)"

definition stalled :: "tcp_session \<Rightarrow> bool" where
  "stalled s \<longleftrightarrow> ts_writes s = [] \<and> ts_queue s \<noteq> []"

definition disconnects_left :: "tcp_session \<Rightarrow> nat" where
  "disconnects_left s = of_bool (ts_open s) + of_bool (\<not> stalled s) + ts_reads s + of_bool (ts_in_handler s)"

interpretation disconnects: budget_machine session_step session_inv
  "\<lambda>out. of_bool (is_disconnect out)" disconnects_left "\<lambda>e. 0"
proof unfold_locales
  fix s e
  assume inv: "session_inv s"
  show "sum_list (map (\<lambda>out. of_bool (is_disconnect out)) (snd (session_step s e)))
      + disconnects_left (fst (session_step s e)) \<le> disconnects_left s + 0"
    using inv by (cases e) (auto simp: session_inv_def session_defs is_disconnect_def disconnects_left_def
        stalled_def split: list.split option.split)
qed

text \<open>
  C31: The application is told of a disconnect at most three times, and not once as the code says. A
  session reports an overflow, a read error and a write error each at most once, whatever happens;
  one write timeout alone cancels both operations and is reported twice.
\<close>

theorem session_disconnects:
  "length (filter is_disconnect (snd (run session_step started_session es))) \<le> 3
   \<and> snd (run session_step started_session
        [Send_call b, Timer_expires, Timer_runs, Read_failed Operation_aborted, Write_failed Operation_aborted])
      = [On_disconnect Operation_aborted, On_disconnect Operation_aborted]"
proof
  have "disconnects_left started_session = 3"
    by (simp add: disconnects_left_def stalled_def started_session_def ts_start_def ts_do_read_def new_tcp_session_def)
  then show "length (filter is_disconnect (snd (run session_step started_session es))) \<le> 3"
    using disconnects.pay_run [OF session_inv_started, of es] by (simp add: sum_list_of_bool)
qed (simp add: started_session_def ts_start_def new_tcp_session_def session_defs)

section \<open>A failed write\<close>

lemma stalled_step:
  "stalled s \<Longrightarrow> stalled (fst (session_step s e)) \<and> sent_bytes (snd (session_step s e)) = []"
  by (cases e) (auto simp: stalled_def session_defs sent_payload_def split: option.split)

text \<open>
  C32: One failed write silences a connection that stays open. After it nothing is ever written to the
  client again: every packet sent is queued behind the failed one, while the socket is not closed
  and reading goes on.
\<close>

theorem session_write_error_stalls:
  assumes "s = fst (run session_step started_session es)" and "ts_writes s \<noteq> []" and "\<not> ts_in_handler s"
  shows "sent_bytes (snd (run session_step s (Write_failed e # es'))) = []
    \<and> ts_open (fst (session_step s (Write_failed e))) = ts_open s
    \<and> ts_reads (fst (session_step s (Write_failed e))) = ts_reads s"
proof -
  let ?s = "fst (session_step s (Write_failed e))"
  have inv: "session_inv s" unfolding assms(1) by (rule session.inv_run [OF session_inv_started])
  then have step: "stalled ?s" "sent_bytes (snd (session_step s (Write_failed e))) = []"
      "ts_open ?s = ts_open s" "ts_reads ?s = ts_reads s"
    using assms(2,3) by (auto simp: session_inv_def stalled_def session_defs sent_payload_def)
  have "stalled t \<Longrightarrow> sent_bytes (snd (run session_step t es')) = []" for t
  proof (induction es' arbitrary: t)
    case (Cons a es')
    then show ?case using stalled_step [OF Cons.prems, of a] Cons.IH [of "fst (session_step t a)"]
      by (simp del: session_step.simps)
  qed simp
  then show ?thesis using step by (simp del: session_step.simps)
qed

lemma session_write_error_stalls_witness:
  "sent_bytes (snd (run session_step (fst (run session_step started_session [Send_call [1]]))
      (Write_failed Connection_reset # [Send_call [2], Write_done]))) = []"
  using session_write_error_stalls [OF refl, of "[Send_call [1]]" Connection_reset "[Send_call [2], Write_done]"]
  by (simp add: started_session_def ts_start_def new_tcp_session_def session_defs del: run_snd_Cons)

section \<open>The accept loop\<close>

text \<open>
  \<open>AsioTcpServerImpl\<close>: the constructor's steps succeed or fail as given; the accept in progress is
  counted. A connection accepted is handed to the application's \<open>on_connect\<close> and then started.
\<close>

datatype bind_error = Invalid_bind_ip | Open_failed | Bind_failed | Listen_failed

record tcp_server =
  sv_port :: u16
  sv_running :: bool
  sv_open :: bool
  sv_accepts :: nat

definition new_tcp_server :: "bool \<Rightarrow> bool \<Rightarrow> bool \<Rightarrow> bool \<Rightarrow> u16 \<Rightarrow> bind_error + tcp_server" where
  "new_tcp_server addr_ok open_ok bind_ok listen_ok port =
     (if \<not> addr_ok then Inl Invalid_bind_ip
      else if \<not> open_ok then Inl Open_failed
      else if \<not> bind_ok then Inl Bind_failed
      else if \<not> listen_ok then Inl Listen_failed
      else Inr \<lparr>sv_port = port, sv_running = False, sv_open = True, sv_accepts = 0\<rparr>)"

definition do_accept :: "tcp_server \<Rightarrow> tcp_server" where
  "do_accept v = v\<lparr>sv_accepts := sv_accepts v + 1\<rparr>"

definition sv_start :: "tcp_server \<Rightarrow> tcp_server" where
  "sv_start v = do_accept (v\<lparr>sv_running := True\<rparr>)"

definition sv_stop :: "tcp_server \<Rightarrow> tcp_server" where
  "sv_stop v = v\<lparr>sv_running := False, sv_open := False\<rparr>"

definition on_accepted :: "bool \<Rightarrow> tcp_server \<Rightarrow> tcp_server \<times> tcp_session list" where
  "on_accepted ok v =
     (if \<not> sv_running v then (v, [])
      else (let new = (if ok then [ts_start new_tcp_session] else [])
            in (if sv_open v then do_accept v else v, new)))"

datatype server_event = Accepted bool | Stop_server

fun server_step :: "tcp_server \<Rightarrow> server_event \<Rightarrow> tcp_server \<times> tcp_session list" where
  "server_step v (Accepted ok) =
     (if sv_accepts v = 0 then (v, []) else on_accepted ok (v\<lparr>sv_accepts := sv_accepts v - 1\<rparr>))"
| "server_step v Stop_server = (sv_stop v, [])"

definition server_inv :: "tcp_server \<Rightarrow> bool" where
  "server_inv v \<longleftrightarrow> sv_open v = sv_running v \<and> (if sv_running v then sv_accepts v = 1 else sv_accepts v \<le> 1)"

interpretation accept_loop: output_machine server_step server_inv "\<lambda>s. s = started_session"
proof unfold_locales
  fix v e out
  assume inv: "server_inv v"
  show "server_inv (fst (server_step v e))"
    using inv by (cases e) (simp_all add: server_inv_def on_accepted_def do_accept_def sv_stop_def split: if_splits)
  show "out \<in> set (snd (server_step v e)) \<Longrightarrow> out = started_session"
    using inv by (cases e) (simp_all add: on_accepted_def started_session_def Let_def split: if_splits)
qed

lemma stopped_step:
  "\<not> sv_running v \<Longrightarrow> \<not> sv_running (fst (server_step v e)) \<and> snd (server_step v e) = []"
  by (cases e) (simp_all add: on_accepted_def sv_stop_def)

lemma stopped_run: "\<not> sv_running v \<Longrightarrow> snd (run server_step v es) = []"
proof (induction es arbitrary: v)
  case (Cons e es)
  then show ?case using stopped_step [OF Cons.prems, of e] Cons.IH [of "fst (server_step v e)"] by simp
qed simp

definition accepts_ok :: "server_event \<Rightarrow> nat" where
  "accepts_ok e = (case e of Accepted ok \<Rightarrow> of_bool ok | Stop_server \<Rightarrow> 0)"

lemma running_accepts:
  "server_inv v \<Longrightarrow> sv_running v \<Longrightarrow> Stop_server \<notin> set es \<Longrightarrow>
     snd (run server_step v es) = replicate (sum_list (map accepts_ok es)) started_session
     \<and> sv_running (fst (run server_step v es))"
proof (induction es arbitrary: v)
  case (Cons e es)
  then obtain ok where e: "e = Accepted ok" by (cases e) auto
  have "snd (server_step v e) = replicate (accepts_ok e) started_session" "sv_running (fst (server_step v e))"
    using Cons.prems(1,2) by (auto simp: e accepts_ok_def server_inv_def on_accepted_def do_accept_def started_session_def)
  moreover have "server_inv (fst (server_step v e))" by (rule accept_loop.inv_step [OF Cons.prems(1)])
  ultimately show ?case
    using Cons.IH [of "fst (server_step v e)"] Cons.prems(3) by (simp add: replicate_add del: server_step.simps)
qed simp

text \<open>
  C33: The accept loop serves every connection until it is stopped, and then none. While running, a
  successful accept starts one fresh session and a failed one starts none, and either way the
  loop accepts again; after a stop no session is ever created, and no accept is armed again.
\<close>

theorem accept_loop_until_stopped:
  assumes "new_tcp_server a b c d port = Inr v" and "Stop_server \<notin> set es"
  shows "snd (run server_step (sv_start v) (es @ Stop_server # es')) = replicate (sum_list (map accepts_ok es)) started_session
    \<and> sv_accepts (fst (run server_step (sv_start v) es)) = 1
    \<and> sv_accepts (fst (run server_step (sv_start v) (es @ Stop_server # es'))) \<le> 1"
proof -
  have inv: "server_inv (sv_start v)" "sv_running (sv_start v)"
    using assms(1) by (auto simp: new_tcp_server_def server_inv_def sv_start_def do_accept_def split: if_splits)
  note r = running_accepts [OF inv assms(2)]
  let ?v = "fst (run server_step (sv_start v) es)"
  have "snd (run server_step (fst (server_step ?v Stop_server)) es') = []"
    by (rule stopped_run) (simp add: sv_stop_def)
  moreover have "snd (server_step ?v Stop_server) = []" by simp
  moreover have "sv_accepts ?v = 1" using accept_loop.inv_run [OF inv(1), of es] r by (simp add: server_inv_def)
  moreover have "sv_accepts u \<le> 1" if "server_inv u" for u using that by (simp add: server_inv_def split: if_splits)
  ultimately show ?thesis
    using r accept_loop.inv_run [OF inv(1), of "es @ Stop_server # es'"] by (simp add: run_append del: server_step.simps)
qed

lemma accept_loop_until_stopped_witness:
  "snd (run server_step (sv_start \<lparr>sv_port = 6900, sv_running = False, sv_open = True, sv_accepts = 0\<rparr>)
     ([Accepted True, Accepted False, Accepted True] @ Stop_server # [Accepted True])) = [started_session, started_session]"
  using accept_loop_until_stopped [of True True True True 6900 _ "[Accepted True, Accepted False, Accepted True]" "[Accepted True]"]
  by (simp add: new_tcp_server_def accepts_ok_def numeral_2_eq_2)

end
