(* ===== verification/Net_Client.thy ===== *)
theory Net_Client
  imports Net_Session
begin

text \<open>
  The reconnecting client, \<open>infrastructure/net/asio/AsioTcpClient.hpp\<close> and \<open>.cpp\<close>, in the style of
  theory \<open>Net_Session\<close>: outstanding operations and timers are state, their completions events. The
  outcome of the synchronous name resolution is given with the event that triggers it. Handlers
  run on the strand, so \<open>close\<close> called inside one takes effect at once.
\<close>

section \<open>State\<close>

record tcp_client =
  tc_host :: string
  tc_port :: u16
  tc_attempts :: int
  tc_open :: bool
  tc_connects :: nat
  tc_reads :: nat
  tc_writes :: "bytes list"
  tc_queue :: "bytes list"
  tc_on_data :: bool
  tc_on_error :: bool
  tc_connect_timer :: watchdog
  tc_read_timer :: watchdog
  tc_write_timer :: watchdog
  tc_reconnect_timer :: watchdog
  tc_in_handler :: bool
  tc_invalid :: bool

text \<open>
  A null timer pointer is a watchdog that is off; replacing or resetting the pointer aborts its
  wait. \<open>tc_invalid\<close> records undefined behaviour: the buffer of a write in progress was destroyed,
  or an empty queue was popped.
\<close>

definition new_tcp_client :: tcp_client where
  "new_tcp_client =
     \<lparr>tc_host = [], tc_port = 0, tc_attempts = 0, tc_open = False, tc_connects = 0, tc_reads = 0,
      tc_writes = [], tc_queue = [], tc_on_data = False, tc_on_error = False,
      tc_connect_timer = wd_off, tc_read_timer = wd_off, tc_write_timer = wd_off,
      tc_reconnect_timer = wd_off, tc_in_handler = False, tc_invalid = False\<rparr>"

datatype client_output =
    Client_data bytes
  | Client_error net_error
  | Resolving string u16
  | Retry_in int
  | Client_sent bytes

definition MAX_RECONNECT_ATTEMPTS :: int where "MAX_RECONNECT_ATTEMPTS = 10"
definition MAX_RECONNECT_DELAY :: int where "MAX_RECONNECT_DELAY = 60"
definition kMaxWriteQueue :: nat where "kMaxWriteQueue = 1024"

section \<open>Operations\<close>

definition tc_fail :: "net_error \<Rightarrow> tcp_client \<Rightarrow> tcp_client \<times> client_output list" where
  "tc_fail e c = (c, if tc_on_error c then [Client_error e] else [])"

definition schedule_reconnect :: "tcp_client \<Rightarrow> tcp_client \<times> client_output list" where
  "schedule_reconnect c =
     (if tc_attempts c \<ge> MAX_RECONNECT_ATTEMPTS then tc_fail Timed_out c
      else
        (let c = c\<lparr>tc_attempts := tc_attempts c + 1\<rparr>;
             delay = min (2 ^ nat (tc_attempts c - 1)) MAX_RECONNECT_DELAY
         in (c\<lparr>tc_reconnect_timer := wd_start (tc_reconnect_timer c)\<rparr>, [Retry_in delay])))"

text \<open>\<open>async_connect\<close> opens the socket for the endpoint it tries.\<close>

definition do_resolve_and_connect ::
  "bool \<Rightarrow> string \<Rightarrow> u16 \<Rightarrow> tcp_client \<Rightarrow> tcp_client \<times> client_output list" where
  "do_resolve_and_connect resolved host port c =
     (if \<not> resolved then
        (let (c, os) = schedule_reconnect c in (c, Resolving host port # os))
      else
        (let c = c\<lparr>tc_connect_timer := wd_start (tc_connect_timer c)\<rparr>
         in (c\<lparr>tc_connects := tc_connects c + 1, tc_open := True\<rparr>, [Resolving host port])))"

definition tc_connect :: "bool \<Rightarrow> string \<Rightarrow> u16 \<Rightarrow> tcp_client \<Rightarrow> tcp_client \<times> client_output list" where
  "tc_connect resolved host port c =
     (let c = c\<lparr>tc_host := host\<rparr>; c = c\<lparr>tc_port := port\<rparr>; c = c\<lparr>tc_attempts := 0\<rparr>
      in do_resolve_and_connect resolved host port c)"

definition tc_do_read :: "tcp_client \<Rightarrow> tcp_client" where
  "tc_do_read c =
     (if \<not> tc_open c then c
      else (let c = c\<lparr>tc_read_timer := wd_start (tc_read_timer c)\<rparr>
            in c\<lparr>tc_reads := tc_reads c + 1\<rparr>))"

definition tc_do_write :: "tcp_client \<Rightarrow> tcp_client" where
  "tc_do_write c =
     (if tc_queue c = [] \<or> \<not> tc_open c then c
      else (let c = c\<lparr>tc_write_timer := wd_start (tc_write_timer c)\<rparr>
            in c\<lparr>tc_writes := tc_writes c @ [hd (tc_queue c)]\<rparr>))"

text \<open>The loop that sheds the oldest packets, with the packet being written among them.\<close>

definition shed :: "tcp_client \<Rightarrow> tcp_client" where
  "shed c =
     (let n = length (tc_queue c) - kMaxWriteQueue div 2
      in c\<lparr>tc_queue := drop n (tc_queue c), tc_invalid := (tc_invalid c \<or> tc_writes c \<noteq> [])\<rparr>)"

definition tc_send :: "bytes \<Rightarrow> tcp_client \<Rightarrow> tcp_client \<times> client_output list" where
  "tc_send b c =
     (let c = c\<lparr>tc_queue := tc_queue c @ [b]\<rparr>;
          c = (if length (tc_queue c) > kMaxWriteQueue then shed c else c)
      in (if length (tc_queue c) = 1 then tc_do_write c else c, []))"

definition tc_close :: "tcp_client \<Rightarrow> tcp_client" where
  "tc_close c =
     (let c = (if tc_open c then c\<lparr>tc_open := False\<rparr> else c);
          c = c\<lparr>tc_queue := []\<rparr>;
          c = c\<lparr>tc_connect_timer := wd_cancel (tc_connect_timer c)\<rparr>;
          c = c\<lparr>tc_read_timer := wd_cancel (tc_read_timer c)\<rparr>;
          c = c\<lparr>tc_write_timer := wd_cancel (tc_write_timer c)\<rparr>
      in c\<lparr>tc_reconnect_timer := wd_cancel (tc_reconnect_timer c)\<rparr>)"

definition tc_on_connected :: "bool \<Rightarrow> tcp_client \<Rightarrow> tcp_client \<times> client_output list" where
  "tc_on_connected ok c =
     (let c = c\<lparr>tc_connect_timer := wd_cancel (tc_connect_timer c)\<rparr>
      in if \<not> ok then schedule_reconnect c
         else (let c = c\<lparr>tc_attempts := 0\<rparr> in (tc_do_read c, [])))"

text \<open>
  The data callback may call the client itself; what follows it in the handler, reading on, happens
  when it returns.
\<close>

definition tc_on_read :: "bytes option \<Rightarrow> tcp_client \<Rightarrow> tcp_client \<times> client_output list" where
  "tc_on_read r c =
     (let c = c\<lparr>tc_read_timer := wd_cancel (tc_read_timer c)\<rparr>
      in case r of
           None \<Rightarrow> schedule_reconnect (tc_close c)
         | Some b \<Rightarrow>
             if b \<noteq> [] \<and> tc_on_data c then (c\<lparr>tc_in_handler := True\<rparr>, [Client_data b])
             else (tc_do_read c, []))"

definition tc_on_write :: "bool \<Rightarrow> bytes \<Rightarrow> tcp_client \<Rightarrow> tcp_client \<times> client_output list" where
  "tc_on_write ok buf c =
     (let c = c\<lparr>tc_write_timer := wd_cancel (tc_write_timer c)\<rparr>
      in if \<not> ok then schedule_reconnect (tc_close c)
         else
           (let c = c\<lparr>tc_invalid := (tc_invalid c \<or> tc_queue c = [])\<rparr>;
                c = c\<lparr>tc_queue := tl (tc_queue c)\<rparr>
            in (if tc_queue c \<noteq> [] then tc_do_write c else c, [Client_sent buf])))"

datatype client_timer = Connect_timer | Read_timer | Write_timer | Reconnect_timer

definition on_timer :: "(watchdog \<Rightarrow> watchdog) \<Rightarrow> client_timer \<Rightarrow> tcp_client \<Rightarrow> tcp_client" where
  "on_timer f t c =
     (case t of
        Connect_timer \<Rightarrow> c\<lparr>tc_connect_timer := f (tc_connect_timer c)\<rparr>
      | Read_timer \<Rightarrow> c\<lparr>tc_read_timer := f (tc_read_timer c)\<rparr>
      | Write_timer \<Rightarrow> c\<lparr>tc_write_timer := f (tc_write_timer c)\<rparr>
      | Reconnect_timer \<Rightarrow> c\<lparr>tc_reconnect_timer := f (tc_reconnect_timer c)\<rparr>)"

definition timer_of :: "client_timer \<Rightarrow> tcp_client \<Rightarrow> watchdog" where
  "timer_of t c =
     (case t of Connect_timer \<Rightarrow> tc_connect_timer c | Read_timer \<Rightarrow> tc_read_timer c
      | Write_timer \<Rightarrow> tc_write_timer c | Reconnect_timer \<Rightarrow> tc_reconnect_timer c)"

text \<open>
  A read that completes carries its bytes, or \<open>None\<close> for an error; a write or a connection attempt
  whether it succeeded. A timer's handler that is due cancels the socket, except the reconnect
  timer's, which connects again.
\<close>

datatype client_event =
    Connect_call bool string u16
  | Client_send bytes
  | Client_close
  | Set_on_data
  | Set_on_error
  | Connect_done bool
  | Client_read "bytes option"
  | Data_returned
  | Client_write bool
  | Expires client_timer
  | Timer_handler client_timer bool

fun client_step :: "tcp_client \<Rightarrow> client_event \<Rightarrow> tcp_client \<times> client_output list" where
  "client_step c (Connect_call resolved host port) = tc_connect resolved host port c"
| "client_step c (Client_send b) = tc_send b c"
| "client_step c Client_close = (tc_close c, [])"
| "client_step c Set_on_data = (c\<lparr>tc_on_data := True\<rparr>, [])"
| "client_step c Set_on_error = (c\<lparr>tc_on_error := True\<rparr>, [])"
| "client_step c (Connect_done ok) =
     (if tc_connects c = 0 \<or> tc_in_handler c then (c, []) else tc_on_connected ok (c\<lparr>tc_connects := tc_connects c - 1\<rparr>))"
| "client_step c (Client_read r) =
     (if tc_reads c = 0 \<or> tc_in_handler c then (c, []) else tc_on_read r (c\<lparr>tc_reads := tc_reads c - 1\<rparr>))"
| "client_step c Data_returned =
     (if tc_in_handler c then (tc_do_read (c\<lparr>tc_in_handler := False\<rparr>), []) else (c, []))"
| "client_step c (Client_write ok) =
     (case tc_writes c of
        [] \<Rightarrow> (c, [])
      | b # bs \<Rightarrow> if tc_in_handler c then (c, []) else tc_on_write ok b (c\<lparr>tc_writes := bs\<rparr>))"
| "client_step c (Expires t) = (on_timer wd_expire t c, [])"
| "client_step c (Timer_handler t resolved) =
     (if wd_due (timer_of t c) = 0 \<or> tc_in_handler c then (c, [])
      else (let c = on_timer (\<lambda>w. w\<lparr>wd_due := wd_due w - 1\<rparr>) t c
            in case t of
                 Reconnect_timer \<Rightarrow> do_resolve_and_connect resolved (tc_host c) (tc_port c) c
               | _ \<Rightarrow> (c, [])))"

lemmas client_defs = tc_fail_def schedule_reconnect_def do_resolve_and_connect_def tc_connect_def
  tc_do_read_def tc_do_write_def shed_def tc_send_def tc_close_def tc_on_connected_def tc_on_read_def
  tc_on_write_def on_timer_def timer_of_def MAX_RECONNECT_ATTEMPTS_def MAX_RECONNECT_DELAY_def
  kMaxWriteQueue_def wd_start_def wd_cancel_def wd_expire_def wd_off_def Let_def

section \<open>Reconnecting\<close>

definition attempts_inv :: "tcp_client \<Rightarrow> bool" where
  "attempts_inv c \<longleftrightarrow> 0 \<le> tc_attempts c \<and> tc_attempts c \<le> 10"

definition delay_ok :: "client_output \<Rightarrow> bool" where
  "delay_ok out = (case out of Retry_in d \<Rightarrow> 1 \<le> d \<and> d \<le> 60 | _ \<Rightarrow> True)"

lemma schedule_keeps:
  "attempts_inv c \<Longrightarrow> attempts_inv (fst (schedule_reconnect c)) \<and> list_all delay_ok (snd (schedule_reconnect c))"
  by (auto simp: schedule_reconnect_def attempts_inv_def delay_ok_def tc_fail_def MAX_RECONNECT_ATTEMPTS_def
      MAX_RECONNECT_DELAY_def Let_def)

lemma attempts_frame [simp]:
  "tc_attempts (tc_do_read c) = tc_attempts c" "tc_attempts (tc_do_write c) = tc_attempts c"
  "tc_attempts (tc_close c) = tc_attempts c" "tc_attempts (shed c) = tc_attempts c"
  "tc_attempts (on_timer f t c) = tc_attempts c"
  by (simp_all add: tc_do_read_def tc_do_write_def tc_close_def shed_def on_timer_def Let_def split: client_timer.split)

lemma resolve_keeps:
  "attempts_inv c \<Longrightarrow> attempts_inv (fst (do_resolve_and_connect r h p c))
     \<and> list_all delay_ok (snd (do_resolve_and_connect r h p c))"
  using schedule_keeps [of c]
  by (simp add: do_resolve_and_connect_def split_beta Let_def) (simp add: attempts_inv_def delay_ok_def)

lemma client_keeps:
  assumes inv: "attempts_inv c"
  shows "attempts_inv (fst (client_step c e)) \<and> list_all delay_ok (snd (client_step c e))"
proof (cases e)
  case (Connect_call r h p)
  have "attempts_inv (c\<lparr>tc_host := h, tc_port := p, tc_attempts := 0\<rparr>)" by (simp add: attempts_inv_def)
  from resolve_keeps [OF this] show ?thesis by (simp add: Connect_call tc_connect_def)
next
  case (Client_send b)
  then show ?thesis using inv by (simp add: tc_send_def attempts_inv_def Let_def)
next
  case (Connect_done ok)
  then show ?thesis
    using inv schedule_keeps [of "c\<lparr>tc_connects := tc_connects c - 1, tc_connect_timer := wd_cancel (tc_connect_timer c)\<rparr>"]
    by (simp add: tc_on_connected_def attempts_inv_def Let_def)
next
  case (Client_read r)
  then show ?thesis
    using inv schedule_keeps [of "tc_close (c\<lparr>tc_reads := tc_reads c - 1, tc_read_timer := wd_cancel (tc_read_timer c)\<rparr>)"]
    by (cases r) (simp_all add: tc_on_read_def attempts_inv_def delay_ok_def Let_def)
next
  case (Client_write ok)
  then show ?thesis
    using inv schedule_keeps [of "tc_close (c\<lparr>tc_writes := tl (tc_writes c), tc_write_timer := wd_cancel (tc_write_timer c)\<rparr>)"]
    by (cases "tc_writes c") (simp_all add: tc_on_write_def attempts_inv_def delay_ok_def Let_def)
next
  case (Timer_handler t r)
  then show ?thesis
    using inv resolve_keeps [of "on_timer (\<lambda>w. w\<lparr>wd_due := wd_due w - 1\<rparr>) t c" r]
    by (cases t) (simp_all add: attempts_inv_def Let_def)
qed (use inv in \<open>simp_all add: attempts_inv_def\<close>)

interpretation client: output_machine client_step attempts_inv delay_ok
  using client_keeps by unfold_locales (auto simp: list_all_iff)

text \<open>One failed attempt, from a client that has connects outstanding and its retries not used up.\<close>

definition failed_round :: "client_event list" where
  "failed_round = [Connect_done False, Expires Reconnect_timer, Timer_handler Reconnect_timer True]"

definition attempting :: "string \<Rightarrow> u16 \<Rightarrow> int \<Rightarrow> tcp_client \<Rightarrow> bool" where
  "attempting h p a c \<longleftrightarrow> tc_host c = h \<and> tc_port c = p \<and> tc_attempts c = a \<and> tc_connects c = 1
     \<and> wd_due (tc_reconnect_timer c) = 0 \<and> \<not> tc_in_handler c"

lemma failed_round_step:
  assumes "attempting h p a c" and "0 \<le> a" and "a < 10"
  shows "attempting h p (a + 1) (fst (run client_step c failed_round))
    \<and> snd (run client_step c failed_round) = [Retry_in (min (2 ^ nat a) 60), Resolving h p]
    \<and> tc_on_error (fst (run client_step c failed_round)) = tc_on_error c"
  using assms by (simp add: failed_round_def attempting_def client_defs)

lemma failed_rounds:
  assumes "attempting h p a c" and "0 \<le> a" and "a + int n \<le> 10"
  shows "attempting h p (a + int n) (fst (run client_step c (concat (replicate n failed_round))))
    \<and> snd (run client_step c (concat (replicate n failed_round)))
      = concat (map (\<lambda>i. [Retry_in (min (2 ^ nat (a + int i)) 60), Resolving h p]) [0..<n])
    \<and> tc_on_error (fst (run client_step c (concat (replicate n failed_round)))) = tc_on_error c"
  using assms
proof (induction n arbitrary: a c)
  case (Suc n)
  let ?c = "fst (run client_step c failed_round)"
  have r: "attempting h p (a + 1) ?c" "snd (run client_step c failed_round) = [Retry_in (min (2 ^ nat a) 60), Resolving h p]"
      "tc_on_error ?c = tc_on_error c"
    using failed_round_step [of h p a c] Suc.prems by simp_all
  have "[0..<Suc n] = 0 # map Suc [0..<n]" by (simp add: upt_conv_Cons map_Suc_upt)
  moreover have "a + 1 + int i = a + (1 + int i)" for i by simp
  ultimately show ?case
    using Suc.IH [OF r(1)] Suc.prems(2,3) r(2,3) by (simp add: run_append comp_def add.assoc)
qed simp

lemma failing_attempts:
  "snd (run client_step new_tcp_client
      ([Set_on_error, Connect_call True h p] @ concat (replicate 10 failed_round) @ [Connect_done False]))
   = Resolving h p # concat (map (\<lambda>d. [Retry_in d, Resolving h p]) [1, 2, 4, 8, 16, 32, 60, 60, 60, 60])
     @ [Client_error Timed_out]"
proof -
  let ?c = "fst (run client_step new_tcp_client [Set_on_error, Connect_call True h p])"
  let ?d = "fst (run client_step ?c (concat (replicate 10 failed_round)))"
  have c: "attempting h p 0 ?c" "tc_on_error ?c"
      "snd (run client_step new_tcp_client [Set_on_error, Connect_call True h p]) = [Resolving h p]"
    by (simp_all add: attempting_def new_tcp_client_def client_defs)
  have d: "attempting h p 10 ?d" "tc_on_error ?d"
      "snd (run client_step ?c (concat (replicate 10 failed_round)))
        = concat (map (\<lambda>d. [Retry_in d, Resolving h p]) [1, 2, 4, 8, 16, 32, 60, 60, 60, 60])"
    using failed_rounds [OF c(1), of 10] c(2) by (simp_all add: upt_conv_Cons)
  have "snd (run client_step ?d [Connect_done False]) = [Client_error Timed_out]"
    using d(1,2) by (simp add: attempting_def client_defs)
  then show ?thesis
    using c(3) d(3) by (simp only: run_append snd_conv fst_conv) simp
qed


text \<open>
  The client never waits longer than a minute and never counts beyond ten attempts, over any
  run of calls, completions and timers.
\<close>

theorem client_delays_bounded:
  "tc_attempts (fst (run client_step new_tcp_client es)) \<le> 10
   \<and> list_all delay_ok (snd (run client_step new_tcp_client es))"
proof -
  have "attempts_inv new_tcp_client" by (simp add: attempts_inv_def new_tcp_client_def)
  then show ?thesis
    using client.inv_run [of new_tcp_client es] client.out_run [of new_tcp_client _ es]
    by (auto simp: attempts_inv_def list_all_iff)
qed

section \<open>When the application hears of an error\<close>

definition waited :: "client_output list \<Rightarrow> int" where
  "waited os = sum_list (map (\<lambda>out. case out of Retry_in d \<Rightarrow> d | _ \<Rightarrow> 0) os)"

lemma waited_simps [simp]:
  "waited [] = 0" "waited (Retry_in d # os) = d + waited os" "waited (Client_data b # os) = waited os"
  "waited (Client_error e # os) = waited os" "waited (Resolving h p # os) = waited os"
  "waited (Client_sent b # os) = waited os" "waited (os @ os') = waited os + waited os'"
  by (simp_all add: waited_def)

text \<open>Every error comes after so many seconds of announced waiting.\<close>

fun errors_after :: "int \<Rightarrow> client_output list \<Rightarrow> bool" where
  "errors_after w [] = True"
| "errors_after w (Client_error e # os) = (w \<le> 0 \<and> errors_after w os)"
| "errors_after w (Retry_in d # os) = errors_after (w - d) os"
| "errors_after w (out # os) = errors_after w os"

lemma errors_after_append: "errors_after w (os @ os') = (errors_after w os \<and> errors_after (w - waited os) os')"
  by (induction w os rule: errors_after.induct) (auto simp: algebra_simps)

definition backoff :: "nat \<Rightarrow> int" where
  "backoff n = sum_list (map (\<lambda>i. min (2 ^ i) 60) [0..<n])"

lemma backoff_Suc: "backoff (Suc n) = backoff n + min (2 ^ n) 60"
  by (simp add: backoff_def)

lemma backoff_ten: "backoff 0 = 0" "backoff 10 = 303"
  by (simp_all add: backoff_def upt_conv_Cons)

definition waited_enough :: "tcp_client \<Rightarrow> client_output list \<Rightarrow> bool" where
  "waited_enough c os \<longleftrightarrow> attempts_inv c \<and> 0 \<le> waited os \<and> backoff (nat (tc_attempts c)) \<le> waited os \<and> errors_after 303 os"

lemma waited_enough_state:
  "waited_enough c os \<Longrightarrow> tc_attempts c' = tc_attempts c \<or> tc_attempts c' = 0 \<Longrightarrow> waited_enough c' os"
  by (auto simp: waited_enough_def attempts_inv_def backoff_ten)

lemma waited_enough_quiet:
  "waited_enough c (os @ [Resolving h p]) = waited_enough c os" "waited_enough c (os @ [Client_data b]) = waited_enough c os"
  "waited_enough c (os @ [Client_sent b]) = waited_enough c os"
  by (simp_all add: waited_enough_def errors_after_append)

lemma waited_enough_schedule:
  assumes "waited_enough c os"
  shows "waited_enough (fst (schedule_reconnect c)) (os @ snd (schedule_reconnect c))"
proof (cases "tc_attempts c < 10")
  case True
  have "0 \<le> tc_attempts c" using assms by (simp add: waited_enough_def attempts_inv_def)
  then have "nat (tc_attempts c + 1) = Suc (nat (tc_attempts c))" by simp
  then show ?thesis
    using assms True by (simp add: waited_enough_def attempts_inv_def schedule_reconnect_def MAX_RECONNECT_ATTEMPTS_def
        MAX_RECONNECT_DELAY_def Let_def backoff_Suc errors_after_append)
next
  case False
  then have "tc_attempts c = 10" using assms by (simp add: waited_enough_def attempts_inv_def)
  then show ?thesis
    using assms backoff_ten(2) by (simp add: waited_enough_def attempts_inv_def schedule_reconnect_def tc_fail_def MAX_RECONNECT_ATTEMPTS_def
        errors_after_append)
qed

lemma waited_enough_resolve:
  assumes "waited_enough c os"
  shows "waited_enough (fst (do_resolve_and_connect r h p c)) (os @ snd (do_resolve_and_connect r h p c))"
proof (cases r)
  case True
  then show ?thesis
    using waited_enough_state [OF assms] by (simp add: do_resolve_and_connect_def waited_enough_quiet Let_def)
next
  case False
  have "waited_enough c (os @ [Resolving h p])" using assms by (simp add: waited_enough_quiet)
  from waited_enough_schedule [OF this] show ?thesis by (simp add: do_resolve_and_connect_def False split_beta Let_def)
qed

lemma waited_enough_step:
  assumes inv: "waited_enough c os"
  shows "waited_enough (fst (client_step c e)) (os @ snd (client_step c e))"
proof (cases e)
  case (Connect_call r h p)
  have "waited_enough (c\<lparr>tc_host := h, tc_port := p, tc_attempts := 0\<rparr>) os" by (rule waited_enough_state [OF inv]) simp
  from waited_enough_resolve [OF this] show ?thesis by (simp add: Connect_call tc_connect_def)
next
  case (Client_send b)
  then show ?thesis using waited_enough_state [OF inv] by (simp add: tc_send_def Let_def)
next
  case (Connect_done ok)
  have "waited_enough (c\<lparr>tc_connects := tc_connects c - 1, tc_connect_timer := wd_cancel (tc_connect_timer c)\<rparr>) os"
    by (rule waited_enough_state [OF inv]) simp
  from waited_enough_schedule [OF this] show ?thesis
    using waited_enough_state [OF inv] inv by (simp add: Connect_done tc_on_connected_def Let_def)
next
  case (Client_read r)
  have "waited_enough (tc_close (c\<lparr>tc_reads := tc_reads c - 1, tc_read_timer := wd_cancel (tc_read_timer c)\<rparr>)) os"
    by (rule waited_enough_state [OF inv]) simp
  from waited_enough_schedule [OF this] show ?thesis
    using waited_enough_state [OF inv] inv
    by (cases r) (simp_all add: Client_read tc_on_read_def waited_enough_quiet Let_def)
next
  case (Client_write ok)
  have "waited_enough (tc_close (c\<lparr>tc_writes := tl (tc_writes c), tc_write_timer := wd_cancel (tc_write_timer c)\<rparr>)) os"
    by (rule waited_enough_state [OF inv]) simp
  from waited_enough_schedule [OF this] show ?thesis
    using waited_enough_state [OF inv] inv
    by (cases "tc_writes c") (simp_all add: Client_write tc_on_write_def waited_enough_quiet Let_def)
next
  case (Timer_handler t r)
  have "waited_enough (on_timer (\<lambda>w. w\<lparr>wd_due := wd_due w - 1\<rparr>) t c) os"
    by (rule waited_enough_state [OF inv]) simp
  from waited_enough_resolve [OF this] show ?thesis
    using inv \<open>waited_enough (on_timer _ t c) os\<close> by (cases t) (simp_all add: Timer_handler Let_def)
qed (use inv waited_enough_state [OF inv] in simp_all)

interpretation client_history: history_machine client_step waited_enough
  by unfold_locales (rule waited_enough_step)

lemma errors_after_split: "errors_after w (os @ Client_error e # os') \<Longrightarrow> w \<le> waited os"
  by (simp add: errors_after_append)

text \<open>
  C35: The application hears of a failure late. Over any run of a client, from its construction, an
  error is only reported when the retries announced before it add up to 303 seconds of waiting; a
  connection lost or closed by the peer is not reported at all.
\<close>

theorem client_reports_late:
  assumes "snd (run client_step new_tcp_client es) = os @ Client_error e # os'"
  shows "303 \<le> waited os"
proof -
  have "waited_enough new_tcp_client []"
    by (simp add: waited_enough_def attempts_inv_def new_tcp_client_def backoff_ten)
  then have "errors_after 303 (snd (run client_step new_tcp_client es))"
    using client_history.history_run [of new_tcp_client "[]" es] by (simp add: waited_enough_def)
  then show ?thesis unfolding assms by (rule errors_after_split)
qed

lemma client_reports_late_witness:
  "\<exists>es os. snd (run client_step new_tcp_client es) = os @ [Client_error Timed_out] \<and> 303 \<le> waited os"
proof -
  let ?os = "Resolving ''host'' 80 # concat (map (\<lambda>d. [Retry_in d, Resolving ''host'' 80]) [1, 2, 4, 8, 16, 32, 60, 60, 60, 60])"
  have run: "snd (run client_step new_tcp_client
      ([Set_on_error, Connect_call True ''host'' 80] @ concat (replicate 10 failed_round) @ [Connect_done False]))
    = ?os @ [Client_error Timed_out]"
    using failing_attempts [of "''host''" 80] unfolding append_Cons .
  show ?thesis using run client_reports_late [OF run] by blast
qed

section \<open>Closing\<close>

definition connected_client :: "string \<Rightarrow> u16 \<Rightarrow> tcp_client" where
  "connected_client h p = fst (run client_step new_tcp_client [Connect_call True h p, Connect_done True])"

lemma connected_client_eq:
  "connected_client h p = new_tcp_client\<lparr>tc_host := h, tc_port := p, tc_open := True, tc_reads := 1,
     tc_read_timer := \<lparr>wd_armed = True, wd_due = 0\<rparr>\<rparr>"
  by (simp add: connected_client_def new_tcp_client_def client_defs)

text \<open>
  Closing does not stop the client. The read that \<open>close\<close> aborts is treated like a lost
  connection: a second later the client connects to the same host again.
\<close>

theorem client_close_reconnects:
  "snd (run client_step (connected_client h p)
      [Client_close, Client_read None, Expires Reconnect_timer, Timer_handler Reconnect_timer True])
   = [Retry_in 1, Resolving h p]"
  by (simp add: connected_client_eq new_tcp_client_def client_defs)

section \<open>The write queue\<close>

definition blocked :: "tcp_client \<Rightarrow> bool" where
  "blocked c \<longleftrightarrow> tc_queue c \<noteq> [] \<and> tc_writes c = []"

definition clears_queue :: "client_event \<Rightarrow> bool" where
  "clears_queue e \<longleftrightarrow> e = Client_close \<or> e = Client_read None"

definition is_sent :: "client_output \<Rightarrow> bool" where
  "is_sent out \<longleftrightarrow> (\<exists>b. out = Client_sent b)"

lemma blocked_send: "blocked c \<Longrightarrow> blocked (fst (tc_send b c)) \<and> snd (tc_send b c) = []"
  by (auto simp: blocked_def tc_send_def shed_def kMaxWriteQueue_def Let_def)

lemma blocked_step:
  "blocked c \<Longrightarrow> \<not> clears_queue e \<Longrightarrow> blocked (fst (client_step c e)) \<and> \<not> list_ex is_sent (snd (client_step c e))"
  using blocked_send [of c]
  by (cases e) (auto simp: blocked_def clears_queue_def is_sent_def client_defs split: option.split client_timer.split)

text \<open>
  A packet sent too early blocks the client. If a packet is sent before the connection is up, it
  waits in the queue without a write being started, and so does everything sent after it, on the
  established connection too: nothing is ever written until the queue is cleared by a close or a
  lost connection.
\<close>

theorem client_early_send_blocks:
  assumes "list_all (\<lambda>e. \<not> clears_queue e) es"
  shows "\<not> list_ex is_sent (snd (run client_step new_tcp_client (Client_send b # es)))"
proof -
  have "blocked (fst (client_step new_tcp_client (Client_send b)))"
    by (simp add: blocked_def new_tcp_client_def client_defs)
  moreover have "blocked c \<Longrightarrow> list_all (\<lambda>e. \<not> clears_queue e) es \<Longrightarrow> \<not> list_ex is_sent (snd (run client_step c es))" for c
  proof (induction es arbitrary: c)
    case (Cons e es)
    then show ?case using blocked_step [OF Cons.prems(1), of e] by (simp del: client_step.simps)
  qed simp
  moreover have "snd (client_step new_tcp_client (Client_send b)) = []" by (simp add: tc_send_def Let_def)
  ultimately show ?thesis using assms by (simp del: client_step.simps)
qed

lemma client_early_send_blocks_witness:
  "\<not> list_ex is_sent (snd (run client_step new_tcp_client
      (Client_send [1] # [Connect_call True ''host'' 80, Connect_done True, Client_send [2], Client_write True])))"
  by (rule client_early_send_blocks) (simp add: clears_queue_def)

definition filling :: "bytes list \<Rightarrow> tcp_client \<Rightarrow> bool" where
  "filling qs c \<longleftrightarrow> tc_open c \<and> tc_queue c = qs \<and> tc_writes c = take 1 qs \<and> \<not> tc_invalid c"

lemma filling_sends:
  "filling qs c \<Longrightarrow> length qs + length bs \<le> kMaxWriteQueue \<Longrightarrow>
     filling (qs @ bs) (fst (run client_step c (map Client_send bs)))"
proof (induction bs arbitrary: qs c)
  case (Cons b bs)
  then have "filling (qs @ [b]) (fst (client_step c (Client_send b)))"
    by (cases qs) (auto simp: filling_def tc_send_def tc_do_write_def Let_def)
  from Cons.IH [OF this] Cons.prems(2) show ?case by (simp del: client_step.simps)
qed simp

lemma invalid_sends: "tc_invalid c \<Longrightarrow> tc_invalid (fst (run client_step c (map Client_send bs)))"
proof (induction bs arbitrary: c)
  case (Cons b bs)
  then have "tc_invalid (fst (client_step c (Client_send b)))"
    by (simp add: tc_send_def tc_do_write_def shed_def Let_def)
  from Cons.IH [OF this] show ?case by (simp del: client_step.simps)
qed simp

text \<open>
  C36: The overflow of the client's queue frees the buffer being written. On a fresh connection whose
  first write has not completed, a burst of up to 1024 packets is held safely; the next packet
  drops the older half of the queue with the packet in the running write at its head.
\<close>

theorem client_overflow_frees_inflight:
  "tc_invalid (fst (run client_step (connected_client h p) (map Client_send bs))) \<longleftrightarrow> kMaxWriteQueue < length bs"
proof -
  have start: "filling [] (connected_client h p)"
    by (simp add: filling_def connected_client_eq new_tcp_client_def)
  show ?thesis
  proof (cases "length bs \<le> kMaxWriteQueue")
    case True
    then show ?thesis using filling_sends [OF start, of bs] by (simp add: filling_def)
  next
    case False
    let ?pre = "take kMaxWriteQueue bs"
    obtain b rest where bs: "bs = ?pre @ b # rest"
      using False by (metis append_take_drop_id drop_eq_Nil list.exhaust)
    let ?c = "fst (run client_step (connected_client h p) (map Client_send ?pre))"
    have "filling ?pre ?c" and len: "length ?pre = kMaxWriteQueue"
      using filling_sends [OF start, of ?pre] False by simp_all
    moreover have "?pre \<noteq> []" using len by (auto simp: kMaxWriteQueue_def)
    ultimately have "tc_invalid (fst (client_step ?c (Client_send b)))"
      by (simp add: filling_def tc_send_def tc_do_write_def shed_def Let_def)
    then have "tc_invalid (fst (run client_step ?c (map Client_send (b # rest))))"
      using invalid_sends by (simp del: client_step.simps)
    then have "tc_invalid (fst (run client_step (connected_client h p) (map Client_send (?pre @ b # rest))))"
      by (simp only: map_append run_append fst_conv)
    then show ?thesis using False bs by simp
  qed
qed

end
