(* ===== verification/Handlers.thy ===== *)
theory Handlers
  imports Login_Flow Char_Flow GG_Bridge Query_Server Query_Handler
begin

text \<open>
  The two connection handlers \<open>login/LoginHandler.cpp\<close> and \<open>char/CharHandler.cpp\<close> with the wire
  adapter \<open>wire/SessionWire.hpp\<close>, and the state in which they meet the bridge and the query
  server. Weak pointers are session names looked up in the set of live sessions, which is given
  with each call together with the clock readings and random draws of the call. Everything runs
  on the one thread of \<open>io_context::run\<close>. What a call sends to a session is its output; a reply for
  OpenKore is armed on the query server.
\<close>

section \<open>State\<close>

datatype wire_id = Login_wire | Char_wire

text \<open>A \<open>unique_ptr<SessionWire>\<close> is null, or a wire holding a weak session pointer.\<close>

type_synonym session_wire = "sid option option"

record login_handler =
  lh_cur :: "sid option"
  lh_cfg :: LoginCfg
  lh_flow :: login_flow
  lh_gg :: bool
  lh_wire :: session_wire

record char_handler =
  ch_cur :: "sid option"
  ch_cfg :: CharConfig
  ch_flow :: char_flow
  ch_gg :: bool
  ch_wire :: session_wire

record thanatos =
  t_login :: login_handler
  t_char :: char_handler
  t_bridge :: "wire_id bridge"
  t_query :: query_server
  t_globals :: process_globals
  t_dead :: bool

record call_env =
  ce_alive :: "sid \<Rightarrow> bool"
  ce_now :: int
  ce_now2 :: int
  ce_percent :: int
  ce_tick :: u32
  ce_login :: login_env

datatype sys_output =
    Net session_action
  | Kore nat bytes

text \<open>\<open>make_address_v4(cfg.ro_host)\<close>, when it succeeds, replaces the default address.\<close>

definition new_login_handler :: "bytes option \<Rightarrow> login_handler" where
  "new_login_handler addr =
     (let cfg = default_LoginCfg;
          cfg = (case addr of Some b \<Rightarrow> cfg\<lparr>lc_hostIp := b\<rparr> | None \<Rightarrow> cfg);
          cfg = cfg\<lparr>lc_hostPortLE := 0\<rparr>;
          cfg = cfg\<lparr>lc_serverName := ''Arkan Software''\<rparr>;
          cfg = cfg\<lparr>lc_usersOnline := 5293\<rparr>;
          cfg = cfg\<lparr>lc_male := True\<rparr>;
          cfg = cfg\<lparr>lc_prefer0069 := True\<rparr>
      in \<lparr>lh_cur = None, lh_cfg = cfg, lh_flow = new_login_flow, lh_gg = False, lh_wire = None\<rparr>)"

definition new_char_handler :: "bytes option \<Rightarrow> char_handler" where
  "new_char_handler addr =
     (let cfg = default_CharConfig;
          cfg = (case addr of Some b \<Rightarrow> cfg\<lparr>cc_mapIp := b\<rparr> | None \<Rightarrow> cfg);
          cfg = cfg\<lparr>cc_mapPortLE := 0\<rparr>;
          cfg = cfg\<lparr>cc_charBlockSize := of_nat kCharListBlockBytes\<rparr>
      in \<lparr>ch_cur = None, ch_cfg = cfg, ch_flow = new_char_flow, ch_gg = False, ch_wire = None\<rparr>)"

definition set_char_port_le :: "u16 \<Rightarrow> login_handler \<Rightarrow> login_handler" where
  "set_char_port_le p h = h\<lparr>lh_cfg := (lh_cfg h)\<lparr>lc_hostPortLE := p\<rparr>\<rparr>"

definition set_listen_port :: "u16 \<Rightarrow> char_handler \<Rightarrow> char_handler" where
  "set_listen_port p h = h\<lparr>ch_cfg := (ch_cfg h)\<lparr>cc_mapPortLE := p\<rparr>\<rparr>"

section \<open>The wire\<close>

text \<open>\<open>SessionWire::reset\<close>, or its construction when there is none yet, then \<open>wire_.get()\<close>.\<close>

definition wire_reset :: "sid option \<Rightarrow> session_wire \<Rightarrow> session_wire" where
  "wire_reset s w = (case w of None \<Rightarrow> Some s | Some old \<Rightarrow> Some s)"

definition wire_session :: "thanatos \<Rightarrow> wire_id \<Rightarrow> sid option" where
  "wire_session t w =
     (case (case w of Login_wire \<Rightarrow> lh_wire (t_login t) | Char_wire \<Rightarrow> ch_wire (t_char t)) of
        Some s \<Rightarrow> s | None \<Rightarrow> None)"

definition send_to_client :: "(sid \<Rightarrow> bool) \<Rightarrow> sid option \<Rightarrow> bytes \<Rightarrow> bool \<times> session_action list" where
  "send_to_client alive w bytes =
     (case weak_lock alive w of Some s \<Rightarrow> (True, [Send s bytes]) | None \<Rightarrow> (False, []))"

text \<open>The environment of a call of the bridge: its wire decides whether a send succeeds.\<close>

definition gg_env_of :: "call_env \<Rightarrow> thanatos \<Rightarrow> gg_env" where
  "gg_env_of e t =
     \<lparr>e_now = ce_now e, e_now2 = ce_now2 e, e_percent = ce_percent e,
      e_send_ok = (case g_wire (t_bridge t) of
                     None \<Rightarrow> False
                   | Some w \<Rightarrow> fst (send_to_client (ce_alive e) (wire_session t w) []))\<rparr>"

text \<open>
  What the bridge's calls of its two neighbours do: a packet goes through the wire, a reply is
  armed on the query server, whose exception would end the process.
\<close>

fun perform_gg :: "call_env \<Rightarrow> thanatos \<Rightarrow> wire_id gg_action list \<Rightarrow> thanatos \<times> sys_output list" where
  "perform_gg e t [] = (t, [])"
| "perform_gg e t (To_client w b # as) =
     (let (t', os) = perform_gg e t as
      in (t', map Net (snd (send_to_client (ce_alive e) (wire_session t w) b)) @ os))"
| "perform_gg e t (To_kore b # as) = perform_gg e (t\<lparr>t_query := sendReply b (t_query t)\<rparr>) as"
| "perform_gg e t (To_flow b # as) = perform_gg e t as"

text \<open>\<open>sendBytes\<close> of either handler: to the current session, if it is still alive.\<close>

definition sendBytes :: "(sid \<Rightarrow> bool) \<Rightarrow> sid option \<Rightarrow> packet list \<Rightarrow> sys_output list" where
  "sendBytes alive cur ps =
     (case weak_lock alive cur of Some s \<Rightarrow> map (\<lambda>p. Net (Send s p)) ps | None \<Rightarrow> [])"

section \<open>Login handler\<close>

definition login_on_connect :: "sid \<Rightarrow> thanatos \<Rightarrow> thanatos" where
  "login_on_connect s t =
     (let h = (t_login t)\<lparr>lh_cur := Some s\<rparr> in
      if lh_gg h then
        (let h = h\<lparr>lh_wire := wire_reset (lh_cur h) (lh_wire h)\<rparr>
         in t\<lparr>t_login := h, t_bridge := bindClientWire (Some Login_wire) (t_bridge t)\<rparr>)
      else t\<lparr>t_login := h\<rparr>)"

definition login_on_disconnect :: "sid \<Rightarrow> thanatos \<Rightarrow> thanatos" where
  "login_on_disconnect s t =
     (let h = (t_login t)\<lparr>lh_cur := None\<rparr> in
      if lh_gg h then t\<lparr>t_login := h, t_bridge := bindClientWire None (t_bridge t)\<rparr>
      else t\<lparr>t_login := h\<rparr>)"

definition offer_to_bridge ::
  "call_env \<Rightarrow> bool \<Rightarrow> bytes \<Rightarrow> thanatos \<Rightarrow> thanatos \<times> bool \<times> sys_output list" where
  "offer_to_bridge e has_gg bytes t =
     (if \<not> has_gg then (t, False, [])
      else (let (g, consumed, acts) = maybe_consume_c2s (gg_env_of e t) (t_bridge t) bytes;
                (t, os) = perform_gg e (t\<lparr>t_bridge := g\<rparr>) acts
            in (t, consumed, os)))"

definition login_on_data :: "call_env \<Rightarrow> sid \<Rightarrow> bytes \<Rightarrow> thanatos \<Rightarrow> thanatos \<times> sys_output list" where
  "login_on_data e s bytes t =
     (let t = t\<lparr>t_login := (t_login t)\<lparr>lh_cur := Some s\<rparr>\<rparr>;
          (t, consumed, os) = offer_to_bridge e (lh_gg (t_login t)) bytes t
      in if consumed then (t, os)
         else if length bytes < 2 then (t, os)
         else case login_handle (ce_login e) (lh_cfg (t_login t)) (t_globals t) (lh_flow (t_login t)) (rd16le bytes) of
                Inl err \<Rightarrow> (t\<lparr>t_dead := True\<rparr>, os)
              | Inr (f, g, ps) \<Rightarrow>
                  (t\<lparr>t_login := (t_login t)\<lparr>lh_flow := f\<rparr>, t_globals := g\<rparr>,
                   os @ sendBytes (ce_alive e) (lh_cur (t_login t)) ps))"

section \<open>Char handler\<close>

definition char_on_connect :: "sid \<Rightarrow> thanatos \<Rightarrow> thanatos" where
  "char_on_connect s t =
     (let h = (t_char t)\<lparr>ch_cur := Some s\<rparr>;
          t = (if ch_gg h then
                 (let h = h\<lparr>ch_wire := wire_reset (ch_cur h) (ch_wire h)\<rparr>
                  in t\<lparr>t_char := h, t_bridge := bindClientWire (Some Char_wire) (t_bridge t)\<rparr>)
               else t\<lparr>t_char := h\<rparr>)
      in t\<lparr>t_globals := (t_globals t)\<lparr>expect_char_on_next_connect := False\<rparr>\<rparr>)"

definition char_on_disconnect :: "sid \<Rightarrow> thanatos \<Rightarrow> thanatos" where
  "char_on_disconnect s t =
     (let h = (t_char t)\<lparr>ch_cur := None\<rparr> in
      if ch_gg h then t\<lparr>t_char := h, t_bridge := bindClientWire None (t_bridge t)\<rparr>
      else t\<lparr>t_char := h\<rparr>)"

text \<open>The keepalive stubs: the opcodes with the payload length that is echoed.\<close>

definition echo_stub :: "u16 \<Rightarrow> bytes \<Rightarrow> packet option" where
  "echo_stub op pl =
     (if (op = client_opcode Keepalive007D \<and> length pl = 1) \<or>
         (op = client_opcode GuardPing0360 \<and> length pl = 5) \<or>
         (op = client_opcode Ping08C9 \<and> length pl = 1)
      then Some (wr16le [] op @ pl) else None)"

definition char_on_data :: "call_env \<Rightarrow> sid \<Rightarrow> bytes \<Rightarrow> thanatos \<Rightarrow> thanatos \<times> sys_output list" where
  "char_on_data e s bytes t =
     (let t = t\<lparr>t_char := (t_char t)\<lparr>ch_cur := Some s\<rparr>\<rparr>;
          (t, consumed, os) = offer_to_bridge e (ch_gg (t_char t)) bytes t
      in if consumed then (t, os)
         else if length bytes < 2 then (t, os)
         else
           (let op = rd16le bytes; pl = drop 2 bytes in
            case echo_stub op pl of
              Some out \<Rightarrow> (t, os @ sendBytes (ce_alive e) (ch_cur (t_char t)) [out])
            | None \<Rightarrow>
                (let (f, ps) = char_handle (ch_cfg (t_char t)) (ce_tick e) op pl (ch_flow (t_char t))
                 in (t\<lparr>t_char := (t_char t)\<lparr>ch_flow := f\<rparr>\<rparr>,
                     os @ sendBytes (ce_alive e) (ch_cur (t_char t)) ps))))"

section \<open>The bus\<close>

text \<open>
  A completion on the query server; a delivered query is handed to the bridge at once, inside the
  read handler.
\<close>

fun deliver :: "call_env \<Rightarrow> thanatos \<Rightarrow> qs_output list \<Rightarrow> thanatos \<times> sys_output list" where
  "deliver e t [] = (t, [])"
| "deliver e t (Deliver_query q # os) =
     (let (g, acts) = on_query_from_kore (gg_env_of e t) (t_bridge t) q;
          (t, os1) = perform_gg e (t\<lparr>t_bridge := g\<rparr>) acts;
          (t, os2) = deliver e t os
      in (t, os1 @ os2))"
| "deliver e t (Reply_written k b # os) =
     (let (t, os2) = deliver e t os in (t, Kore k b # os2))"

definition bus_complete :: "call_env \<Rightarrow> nat \<Rightarrow> completion \<Rightarrow> thanatos \<Rightarrow> thanatos \<times> sys_output list" where
  "bus_complete e i c t =
     (let (q, os) = qs_step (t_query t) (Complete i c) in deliver e (t\<lparr>t_query := q\<rparr>) os)"

section \<open>The system\<close>

datatype sys_event =
    Login_connect sid
  | Login_disconnect sid
  | Login_data call_env sid bytes
  | Char_connect sid
  | Char_disconnect sid
  | Char_data call_env sid bytes
  | Bus_event call_env nat completion

text \<open>An exception that left a handler has ended \<open>io_context::run\<close>: nothing happens any more.\<close>

definition halted :: "thanatos \<Rightarrow> bool" where
  "halted t \<longleftrightarrow> t_dead t \<or> qs_crashed (t_query t)"

fun sys_handle :: "thanatos \<Rightarrow> sys_event \<Rightarrow> thanatos \<times> sys_output list" where
  "sys_handle t (Login_connect s) = (login_on_connect s t, [])"
| "sys_handle t (Login_disconnect s) = (login_on_disconnect s t, [])"
| "sys_handle t (Login_data e s b) = login_on_data e s b t"
| "sys_handle t (Char_connect s) = (char_on_connect s t, [])"
| "sys_handle t (Char_disconnect s) = (char_on_disconnect s t, [])"
| "sys_handle t (Char_data e s b) = char_on_data e s b t"
| "sys_handle t (Bus_event e i c) = bus_complete e i c t"

definition sys_step :: "thanatos \<Rightarrow> sys_event \<Rightarrow> thanatos \<times> sys_output list" where
  "sys_step t ev = (if halted t then (t, []) else sys_handle t ev)"

end
