(* ===== verification/Server.thy ===== *)
theory Server
  imports Handlers Config Net_Session
begin

text \<open>
  The server as a whole: \<open>RagnarokServer.cpp\<close> picks the first set of ports it can bind and wires the
  handlers, the bridge and the query server together. The outcomes of binding are arguments. The
  composed system of theory \<open>Handlers\<close> is the member \<open>rs_system\<close>.
\<close>

section \<open>Start\<close>

text \<open>
  What the operating system answers for one port set: the outcomes of the four steps (address, open,
  bind, listen) of \<open>QueryServer::start\<close> and of the constructors of the login and the char server.
\<close>

record set_env =
  se_query :: "bool \<times> bool \<times> bool \<times> bool"
  se_login :: "bool \<times> bool \<times> bool \<times> bool"
  se_char :: "bool \<times> bool \<times> bool \<times> bool"

record BindingInfo =
  bi_ro_host :: string
  bi_query_host :: string
  bi_login_port :: u16
  bi_char_port :: u16
  bi_query_port :: u16
  bi_set_index :: nat

datatype start_error = No_port_sets | All_sets_failed

record ragnarok_server =
  rs_system :: thanatos
  rs_cfg :: Config
  rs_login_srv :: "tcp_server option"
  rs_char_srv :: "tcp_server option"
  rs_binding :: "BindingInfo option"
  rs_dangling :: nat

text \<open>
  \<open>rs_dangling\<close> counts the accept handlers of servers destroyed in a rollback: \<open>stop\<close> cancels the
  accept, but its handler, which captures the destroyed object, still runs later.
\<close>

definition active_binding :: "ragnarok_server \<Rightarrow> BindingInfo option" where
  [simp]: "active_binding r = rs_binding r"

definition new_ragnarok_server :: "bytes option \<Rightarrow> Config \<Rightarrow> ragnarok_server" where
  "new_ragnarok_server addr cfg =
     \<lparr>rs_system =
        \<lparr>t_login = new_login_handler addr, t_char = new_char_handler addr, t_bridge = new_bridge,
         t_query = new_query_server, t_globals = initial_globals, t_dead = False\<rparr>,
      rs_cfg = cfg, rs_login_srv = None, rs_char_srv = None, rs_binding = None, rs_dangling = 0\<rparr>"

definition start_query :: "bool \<times> bool \<times> bool \<times> bool \<Rightarrow> query_server" where
  "start_query r = (case r of (a, b, c, d) \<Rightarrow> qs_start a b c d new_query_server)"

text \<open>Success: the temporaries become members, the handlers learn their port, the bridge is set up.\<close>

definition promote ::
  "ragnarok_server \<Rightarrow> query_server \<Rightarrow> tcp_server \<Rightarrow> tcp_server \<Rightarrow> u16 \<Rightarrow> u16 \<Rightarrow> u16 \<Rightarrow> nat \<Rightarrow> ragnarok_server" where
  "promote r q ls cs lport cport qport i =
     (let t = rs_system r;
          t = t\<lparr>t_query := q\<rparr>;
          t = t\<lparr>t_char := set_listen_port cport (t_char t)\<rparr>;
          t = t\<lparr>t_login := set_char_port_le cport (t_login t)\<rparr>;
          t = t\<lparr>t_query := onQuery (t_query t)\<rparr>;
          g = new_bridge;
          g = set_size_bounds kDefaultMinPayloadLen kConfiguredMaxPayloadLen g;
          g = set_timeout kConfiguredTimeout g;
          g = set_greedy_window kConfiguredGreedyWindow g;
          g = set_strategy AUTO g;
          t = t\<lparr>t_bridge := g\<rparr>;
          t = t\<lparr>t_login := (t_login t)\<lparr>lh_gg := True\<rparr>\<rparr>;
          t = t\<lparr>t_char := (t_char t)\<lparr>ch_gg := True\<rparr>\<rparr>
      in r\<lparr>rs_system := t, rs_login_srv := Some ls, rs_char_srv := Some cs,
           rs_binding := Some \<lparr>bi_ro_host = ro_host (rs_cfg r), bi_query_host = query_host (rs_cfg r),
             bi_login_port = lport, bi_char_port = cport, bi_query_port = qport, bi_set_index = i\<rparr>\<rparr>)"

definition MakeTcpServer :: "bool \<times> bool \<times> bool \<times> bool \<Rightarrow> u16 \<Rightarrow> bind_error + tcp_server" where
  "MakeTcpServer r port = (case r of (a, b, c, d) \<Rightarrow> new_tcp_server a b c d port)"

text \<open>The catch block: what was started is stopped; the accepts still outstanding are left behind.\<close>

definition rollback :: "query_server \<Rightarrow> tcp_server list \<Rightarrow> ragnarok_server \<Rightarrow> ragnarok_server" where
  "rollback q vs r =
     r\<lparr>rs_dangling := rs_dangling r + length (qs_ops (qs_stop q)) + sum_list (map (\<lambda>v. sv_accepts (sv_stop v)) vs)\<rparr>"

definition server_stop :: "ragnarok_server \<Rightarrow> ragnarok_server" where
  "server_stop r =
     (let r = r\<lparr>rs_login_srv := map_option sv_stop (rs_login_srv r)\<rparr>;
          r = r\<lparr>rs_char_srv := map_option sv_stop (rs_char_srv r)\<rparr>
      in r\<lparr>rs_system := (rs_system r)\<lparr>t_query := qs_stop (t_query (rs_system r))\<rparr>\<rparr>)"

text \<open>The loop over the port sets, from set \<open>i\<close>; the catch block rolls back and goes on.\<close>

function try_sets ::
  "(nat \<Rightarrow> set_env) \<Rightarrow> nat \<Rightarrow> nat \<Rightarrow> ragnarok_server \<Rightarrow> start_error + ragnarok_server" where
  "try_sets env n i r =
     (if i \<ge> n then Inl All_sets_failed
      else
        (let qport = query_ports (rs_cfg r) ! i;
             lport = login_ports (rs_cfg r) ! i;
             cport = char_ports (rs_cfg r) ! i;
             qtmp = start_query (se_query (env i))
         in case MakeTcpServer (se_login (env i)) lport of
              Inl e \<Rightarrow> try_sets env n (i + 1) (rollback qtmp [] r)
            | Inr ltmp \<Rightarrow>
                (let ltmp = sv_start ltmp
                 in case MakeTcpServer (se_char (env i)) cport of
                      Inl e \<Rightarrow> try_sets env n (i + 1) (rollback qtmp [ltmp] r)
                    | Inr ctmp \<Rightarrow> Inr (promote r qtmp ltmp (sv_start ctmp) lport cport qport i))))"
  by pat_completeness auto
termination by (relation "measure (\<lambda>(env, n, i, r). n - i)") auto

declare try_sets.simps [simp del]

definition server_start :: "(nat \<Rightarrow> set_env) \<Rightarrow> ragnarok_server \<Rightarrow> start_error + ragnarok_server" where
  "server_start env r =
     (let n = min (length (login_ports (rs_cfg r)))
                  (min (length (char_ports (rs_cfg r))) (length (query_ports (rs_cfg r))))
      in if n = 0 then Inl No_port_sets else try_sets env n 0 r)"

definition port_sets :: "Config \<Rightarrow> nat" where
  "port_sets cfg = min (length (login_ports cfg)) (min (length (char_ports cfg)) (length (query_ports cfg)))"

definition set_binds :: "(nat \<Rightarrow> set_env) \<Rightarrow> nat \<Rightarrow> bool" where
  "set_binds env i \<longleftrightarrow> se_login (env i) = (True, True, True, True) \<and> se_char (env i) = (True, True, True, True)"

definition fresh_listener :: "u16 \<Rightarrow> tcp_server" where
  "fresh_listener port = \<lparr>sv_port = port, sv_running = True, sv_open = True, sv_accepts = 1\<rparr>"

lemma MakeTcpServer_bound:
  "\<exists>v. MakeTcpServer (True, True, True, True) port = Inr v \<and> sv_start v = fresh_listener port"
  by (simp add: MakeTcpServer_def new_tcp_server_def sv_start_def do_accept_def fresh_listener_def)

lemma MakeTcpServer_busy: "r \<noteq> (True, True, True, True) \<Longrightarrow> \<exists>e. MakeTcpServer r port = Inl e"
  by (cases r) (simp add: MakeTcpServer_def new_tcp_server_def)

lemma try_sets_binds:
  assumes "i < n" and "set_binds env i"
  shows "try_sets env n i r = Inr (promote r (start_query (se_query (env i)))
      (fresh_listener (login_ports (rs_cfg r) ! i)) (fresh_listener (char_ports (rs_cfg r) ! i))
      (login_ports (rs_cfg r) ! i) (char_ports (rs_cfg r) ! i) (query_ports (rs_cfg r) ! i) i)"
proof -
  obtain v w where "MakeTcpServer (se_login (env i)) (login_ports (rs_cfg r) ! i) = Inr v"
    "sv_start v = fresh_listener (login_ports (rs_cfg r) ! i)"
    "MakeTcpServer (se_char (env i)) (char_ports (rs_cfg r) ! i) = Inr w"
    "sv_start w = fresh_listener (char_ports (rs_cfg r) ! i)"
    using assms(2) MakeTcpServer_bound unfolding set_binds_def by metis
  then show ?thesis using assms(1) by (simp add: try_sets.simps [of env n i r] Let_def)
qed

lemma try_sets_skips:
  assumes "i < n" and "\<not> set_binds env i"
  shows "\<exists>d. try_sets env n i r = try_sets env n (i + 1) (r\<lparr>rs_dangling := d\<rparr>)"
proof (cases "se_login (env i) = (True, True, True, True)")
  case True
  then obtain v e where "MakeTcpServer (se_login (env i)) (login_ports (rs_cfg r) ! i) = Inr v"
    "MakeTcpServer (se_char (env i)) (char_ports (rs_cfg r) ! i) = Inl e"
    using assms(2) MakeTcpServer_bound MakeTcpServer_busy unfolding set_binds_def by metis
  then show ?thesis using assms(1) by (auto simp: try_sets.simps [of env n i r] rollback_def Let_def)
next
  case False
  then obtain e where "MakeTcpServer (se_login (env i)) (login_ports (rs_cfg r) ! i) = Inl e"
    using MakeTcpServer_busy by metis
  then show ?thesis using assms(1) by (auto simp: try_sets.simps [of env n i r] rollback_def Let_def)
qed

lemma try_sets_fails:
  assumes "\<forall>j. i \<le> j \<and> j < n \<longrightarrow> \<not> set_binds env j"
  shows "try_sets env n i r = Inl All_sets_failed"
  using assms
proof (induction "n - i" arbitrary: i r)
  case 0
  then show ?case by (simp add: try_sets.simps)
next
  case (Suc m)
  then have "i < n" "m = n - (i + 1)" by auto
  moreover have "\<not> set_binds env i" using Suc.prems \<open>i < n\<close> by simp
  ultimately show ?case using Suc.hyps(1) [of "i + 1"] Suc.prems try_sets_skips [of i n env r] by fastforce
qed

lemma try_sets_first:
  assumes "i \<le> k" and "k < n" and "set_binds env k" and "\<forall>j. i \<le> j \<and> j < k \<longrightarrow> \<not> set_binds env j"
  shows "\<exists>d. try_sets env n i r = Inr (promote (r\<lparr>rs_dangling := d\<rparr>) (start_query (se_query (env k)))
      (fresh_listener (login_ports (rs_cfg r) ! k)) (fresh_listener (char_ports (rs_cfg r) ! k))
      (login_ports (rs_cfg r) ! k) (char_ports (rs_cfg r) ! k) (query_ports (rs_cfg r) ! k) k)"
  using assms
proof (induction "k - i" arbitrary: i r)
  case 0
  then have "i = k" by simp
  then show ?case using try_sets_binds [of k n env r] 0 by (intro exI [of _ "rs_dangling r"]) simp
next
  case (Suc m)
  then have i: "i < n" "\<not> set_binds env i" by auto
  have m: "m = k - (i + 1)" "i + 1 \<le> k" using Suc by auto
  obtain d where "try_sets env n i r = try_sets env n (i + 1) (r\<lparr>rs_dangling := d\<rparr>)"
    using try_sets_skips [OF i] by blast
  then show ?case using Suc.hyps(1) [OF m(1) m(2), of "r\<lparr>rs_dangling := d\<rparr>"] Suc.prems by simp
qed

lemma server_start_first:
  assumes "k < port_sets (rs_cfg r)" and "set_binds env k" and "\<forall>j < k. \<not> set_binds env j"
  shows "\<exists>d. server_start env r = Inr (promote (r\<lparr>rs_dangling := d\<rparr>) (start_query (se_query (env k)))
      (fresh_listener (login_ports (rs_cfg r) ! k)) (fresh_listener (char_ports (rs_cfg r) ! k))
      (login_ports (rs_cfg r) ! k) (char_ports (rs_cfg r) ! k) (query_ports (rs_cfg r) ! k) k)"
proof -
  have "server_start env r = try_sets env (port_sets (rs_cfg r)) 0 r"
    using assms(1) by (simp add: server_start_def port_sets_def [symmetric] Let_def)
  then show ?thesis using try_sets_first [of 0 k "port_sets (rs_cfg r)" env r] assms by simp
qed

lemma promote_fields:
  "rs_login_srv (promote r q ls cs l c p i) = Some ls" "rs_char_srv (promote r q ls cs l c p i) = Some cs"
  "rs_binding (promote r q ls cs l c p i) = Some \<lparr>bi_ro_host = ro_host (rs_cfg r), bi_query_host = query_host (rs_cfg r),
     bi_login_port = l, bi_char_port = c, bi_query_port = p, bi_set_index = i\<rparr>"
  "t_query (rs_system (promote r q ls cs l c p i)) = onQuery q"
  "lc_hostPortLE (lh_cfg (t_login (rs_system (promote r q ls cs l c p i)))) = c"
  "cc_mapPortLE (ch_cfg (t_char (rs_system (promote r q ls cs l c p i)))) = c"
  "lh_gg (t_login (rs_system (promote r q ls cs l c p i)))" "ch_gg (t_char (rs_system (promote r q ls cs l c p i)))"
  "g_base_timeout (t_bridge (rs_system (promote r q ls cs l c p i))) = 3000"
  "\<not> g_pending (t_bridge (rs_system (promote r q ls cs l c p i)))"
  "g_wire (t_bridge (rs_system (promote r q ls cs l c p i))) = None"
  by (simp_all add: promote_def Let_def set_listen_port_def set_char_port_le_def set_size_bounds_def
      set_timeout_def set_greedy_window_def set_strategy_def new_bridge_def kConfiguredTimeout_def)

text \<open>
  C23: Which ports the server ends up on. With a first port set whose login and char ports can be
  bound, start succeeds on exactly that set, both handlers advertise its char port, the bridge is
  attached and both game listeners accept; with none, start fails. The query port of the set plays no part: it is
  selected even when it cannot be bound, and then nothing is listening on it.
\<close>

theorem start_selects_first_bindable:
  assumes "0 < port_sets cfg"
  shows "(\<forall>k. k < port_sets cfg \<and> set_binds env k \<and> (\<forall>j < k. \<not> set_binds env j) \<longrightarrow>
       (\<exists>r b. server_start env (new_ragnarok_server addr cfg) = Inr r \<and> rs_binding r = Some b
          \<and> bi_set_index b = k \<and> bi_char_port b = char_ports cfg ! k \<and> bi_login_port b = login_ports cfg ! k
          \<and> lc_hostPortLE (lh_cfg (t_login (rs_system r))) = char_ports cfg ! k
          \<and> cc_mapPortLE (ch_cfg (t_char (rs_system r))) = char_ports cfg ! k
          \<and> lh_gg (t_login (rs_system r)) \<and> ch_gg (t_char (rs_system r))
          \<and> rs_login_srv r = Some (fresh_listener (login_ports cfg ! k))
          \<and> rs_char_srv r = Some (fresh_listener (char_ports cfg ! k))
          \<and> qs_listening (t_query (rs_system r)) = (se_query (env k) = (True, True, True, True))))
     \<and> ((\<forall>k < port_sets cfg. \<not> set_binds env k) \<longrightarrow>
          server_start env (new_ragnarok_server addr cfg) = Inl All_sets_failed)"
proof (intro conjI allI impI)
  fix k assume k: "k < port_sets cfg \<and> set_binds env k \<and> (\<forall>j < k. \<not> set_binds env j)"
  let ?r = "new_ragnarok_server addr cfg"
  have c: "rs_cfg ?r = cfg" by (simp add: new_ragnarok_server_def)
  then obtain d where "server_start env ?r = Inr (promote (?r\<lparr>rs_dangling := d\<rparr>) (start_query (se_query (env k)))
      (fresh_listener (login_ports cfg ! k)) (fresh_listener (char_ports cfg ! k))
      (login_ports cfg ! k) (char_ports cfg ! k) (query_ports cfg ! k) k)"
    using server_start_first [of k ?r env] k by auto
  moreover have "qs_listening (onQuery (start_query q)) = (q = (True, True, True, True))" for q
    by (cases q) (simp add: start_query_def onQuery_def qs_start_def new_query_server_def async_accept_def arm_def Let_def)
  ultimately show "\<exists>r b. server_start env ?r = Inr r \<and> rs_binding r = Some b
          \<and> bi_set_index b = k \<and> bi_char_port b = char_ports cfg ! k \<and> bi_login_port b = login_ports cfg ! k
          \<and> lc_hostPortLE (lh_cfg (t_login (rs_system r))) = char_ports cfg ! k
          \<and> cc_mapPortLE (ch_cfg (t_char (rs_system r))) = char_ports cfg ! k
          \<and> lh_gg (t_login (rs_system r)) \<and> ch_gg (t_char (rs_system r))
          \<and> rs_login_srv r = Some (fresh_listener (login_ports cfg ! k))
          \<and> rs_char_srv r = Some (fresh_listener (char_ports cfg ! k))
          \<and> qs_listening (t_query (rs_system r)) = (se_query (env k) = (True, True, True, True))"
    by (simp add: promote_fields)
next
  assume "\<forall>k < port_sets cfg. \<not> set_binds env k"
  then have "try_sets env (port_sets cfg) 0 (new_ragnarok_server addr cfg) = Inl All_sets_failed"
    by (intro try_sets_fails) simp
  then show "server_start env (new_ragnarok_server addr cfg) = Inl All_sets_failed"
    using assms by (simp add: server_start_def port_sets_def new_ragnarok_server_def Let_def)
qed

definition sample_config :: Config where
  "sample_config = default_Config\<lparr>login_ports := [6900, 6901], char_ports := [6121, 6122], query_ports := [24395, 24396]\<rparr>"

lemma start_selects_first_bindable_witness:
  "\<exists>r b. server_start (\<lambda>i. \<lparr>se_query = (True, True, i \<noteq> 1, True), se_login = (True, True, i = 1, True),
        se_char = (True, True, True, True)\<rparr>)
      (new_ragnarok_server None sample_config) = Inr r \<and> rs_binding r = Some b \<and> bi_char_port b = 6122
      \<and> \<not> qs_listening (t_query (rs_system r))"
proof -
  let ?env = "\<lambda>i. \<lparr>se_query = (True, True, i \<noteq> 1, True), se_login = (True, True, i = 1, True),
        se_char = (True, True, True, True)\<rparr>"
  have "0 < port_sets sample_config" by (simp add: port_sets_def sample_config_def)
  note t = start_selects_first_bindable [OF this, of ?env None]
  have "1 < port_sets sample_config \<and> set_binds ?env 1 \<and> (\<forall>j < 1. \<not> set_binds ?env j)"
    by (simp add: port_sets_def sample_config_def set_binds_def)
  with t show ?thesis by (fastforce simp: sample_config_def)
qed

end
