(* ===== verification/System.thy ===== *)
theory System
  imports Server
begin

text \<open>
  What the wired system does: the discipline that the bridge and the query server keep between
  them although neither checks it, the complete exchange from OpenKore to the client and back, and
  the ways in which the query channel dies for good.
\<close>

section \<open>The state after start\<close>

definition started_system :: "bytes option \<Rightarrow> Config \<Rightarrow> thanatos" where
  "started_system addr cfg =
     rs_system (promote (new_ragnarok_server addr cfg) (start_query (True, True, True, True))
       (fresh_listener (login_ports cfg ! 0)) (fresh_listener (char_ports cfg ! 0))
       (login_ports cfg ! 0) (char_ports cfg ! 0) (query_ports cfg ! 0) 0)"

lemma started_query: "t_query (started_system addr cfg) = started_server"
  by (simp add: started_system_def promote_fields start_query_def started_server_def onQuery_def
      qs_start_def new_query_server_def async_accept_def arm_def Let_def)

lemma started_fields:
  "lh_gg (t_login (started_system addr cfg))" "ch_gg (t_char (started_system addr cfg))"
  "\<not> g_pending (t_bridge (started_system addr cfg))" "\<not> t_dead (started_system addr cfg)"
  by (simp_all add: started_system_def promote_fields)
     (simp add: promote_def new_ragnarok_server_def Let_def)

section \<open>One operation at a time\<close>

definition q_shape :: "query_server \<Rightarrow> bool" where
  "q_shape q \<longleftrightarrow> qs_on_query q \<and> qs_listening q \<and>
     (case qs_ops q of
        [] \<Rightarrow> \<exists>k. qs_sock q = Some (k, True)
      | [x] \<Rightarrow> (case x of Accept_op k \<Rightarrow> qs_sock q = Some (k, False)
                | Read_len_op k \<Rightarrow> qs_sock q = Some (k, True)
                | Read_rest_op k n \<Rightarrow> qs_sock q = Some (k, True)
                | Write_op k b \<Rightarrow> qs_sock q = Some (k, True))
      | _ \<Rightarrow> False)"

lemma q_shape_accept: "qs_on_query q \<Longrightarrow> qs_listening q \<Longrightarrow> qs_ops q = [] \<Longrightarrow> q_shape (async_accept q) \<and> qs_ops (async_accept q) \<noteq> []"
  by (simp add: q_shape_def async_accept_def arm_def Let_def)

lemma q_shape_recycle: "qs_on_query q \<Longrightarrow> qs_listening q \<Longrightarrow> qs_ops q = [] \<Longrightarrow> q_shape (recycle q) \<and> qs_ops (recycle q) \<noteq> []"
  by (cases "qs_sock q") (auto simp: recycle_def q_shape_def async_accept_def arm_def Let_def)

lemma q_shape_read_len:
  "qs_on_query q \<Longrightarrow> qs_listening q \<Longrightarrow> qs_ops q = [] \<Longrightarrow> qs_sock q = Some (k, True) \<Longrightarrow>
     q_shape (read_len q) \<and> qs_ops (read_len q) \<noteq> []"
  by (simp add: q_shape_def read_len_def arm_def current_sock_def)

lemma q_shape_read_rest:
  "qs_on_query q \<Longrightarrow> qs_listening q \<Longrightarrow> qs_ops q = [] \<Longrightarrow> qs_sock q = Some (k, True) \<Longrightarrow>
     q_shape (read_rest n q) \<and> qs_ops (read_rest n q) \<noteq> []"
  by (simp add: q_shape_def read_rest_def arm_def current_sock_def)

text \<open>The effect of a completion on a server with the shape.\<close>

lemma qs_complete_cases:
  assumes "q_shape q"
  obtains (impossible) "qs_step q (Complete i c) = (q, [])"
  | (armed) q' where "qs_step q (Complete i c) = (q', [])" and "q_shape q'" and "qs_ops q' \<noteq> []" and "qs_ops q \<noteq> []"
  | (read) q' os where "qs_step q (Complete i c) = (q', os)" and "q_shape q'" and "qs_ops q' = []" and "qs_ops q \<noteq> []"
      and "os = [] \<or> (\<exists>b. os = [Deliver_query b])"
  | (written) q' k buf where "qs_step q (Complete i c) = (q', [Reply_written k buf])"
      and "qs_ops q = [Write_op k buf]" and "q_shape q'" and "qs_ops q' \<noteq> []"
proof (cases "\<not> qs_crashed q \<and> i < length (qs_ops q) \<and> completes q (qs_ops q ! i) c")
  case False
  then have "qs_step q (Complete i c) = (q, [])" by auto
  then show ?thesis by (rule impossible)
next
  case True
  obtain x where ops: "qs_ops q = [x]" and i: "i = 0"
    using True assms by (cases "qs_ops q") (auto simp: q_shape_def split: list.splits)
  let ?q = "q\<lparr>qs_ops := []\<rparr>"
  have s: "qs_step q (Complete i c) = handler x c ?q" using True ops i by simp
  have flags: "qs_on_query ?q" "qs_listening ?q" "qs_ops ?q = []" using assms by (simp_all add: q_shape_def)
  note rec = q_shape_recycle [OF flags]
  have comp: "completes q x c" using True ops i by simp
  show ?thesis
  proof (cases x)
    case (Accept_op k)
    have sock: "qs_sock q = Some (k, False)" using assms ops by (simp add: q_shape_def Accept_op)
    show ?thesis
    proof (cases c)
      case C_error
      have "qs_step q (Complete i c) = (async_accept ?q, [])"
        unfolding s by (simp add: on_accept_def Accept_op C_error)
      then show ?thesis by (rule armed) (use q_shape_accept [OF flags] ops in simp_all)
    next
      case (C_accepted r)
      have k: "current_sock ?q = k" using sock by (simp add: current_sock_def)
      show ?thesis
      proof (cases r)
        case True
        let ?q1 = "?q\<lparr>qs_sock := Some (k, True)\<rparr>"
        have "qs_step q (Complete i c) = (read_len ?q1, [])"
          unfolding s by (simp add: on_accept_def Accept_op C_accepted True k Let_def)
        then show ?thesis by (rule armed) (use q_shape_read_len [of ?q1 k] flags ops in simp_all)
      next
        case False
        have "qs_step q (Complete i c) = (?q\<lparr>qs_sock := Some (k, True), qs_crashed := True\<rparr>, [])"
          unfolding s by (simp add: on_accept_def Accept_op C_accepted False k Let_def)
        then show ?thesis by (rule read) (use flags ops in \<open>simp_all add: q_shape_def\<close>)
      qed
    qed (use comp Accept_op in simp_all)
  next
    case (Read_len_op k)
    have sock: "qs_sock q = Some (k, True)" using assms ops by (simp add: q_shape_def Read_len_op)
    have "snd (on_read_len c ?q) = [] \<and> q_shape (fst (on_read_len c ?q)) \<and> qs_ops (fst (on_read_len c ?q)) \<noteq> []"
      using rec flags sock q_shape_read_rest [of "?q\<lparr>qs_hdr := h, qs_frame := f\<rparr>" k for h f]
        q_shape_recycle [of "?q\<lparr>qs_hdr := h\<rparr>" for h]
      by (cases c) (simp_all add: on_read_len_def Let_def)
    moreover have "qs_step q (Complete i c) = (fst (on_read_len c ?q), snd (on_read_len c ?q))"
      unfolding s by (simp add: Read_len_op)
    ultimately show ?thesis using ops by (intro armed [of "fst (on_read_len c ?q)"]) (simp_all del: qs_step.simps)
  next
    case (Read_rest_op k n)
    have sock: "qs_sock q = Some (k, True)" using assms ops by (simp add: q_shape_def Read_rest_op)
    show ?thesis
    proof (cases "\<exists>b. c = C_bytes b \<and> length b = n")
      case True
      then obtain b where b: "c = C_bytes b" "length b = n" by auto
      let ?q' = "?q\<lparr>qs_frame := take 4 (qs_frame ?q) @ b\<rparr>"
      let ?os = "snd (qs_step q (Complete i c))"
      have e: "qs_step q (Complete i c) = (?q', ?os)" and o: "?os = [] \<or> (\<exists>b. ?os = [Deliver_query b])"
        unfolding s by (auto simp: Read_rest_op b on_read_rest_def Let_def split: sum.split option.split)
      show ?thesis by (rule read [OF e _ _ _ o]) (use flags sock ops in \<open>simp_all add: q_shape_def\<close>)
    next
      case False
      then have "handler x c ?q = (recycle ?q, [])" by (cases c) (auto simp: Read_rest_op on_read_rest_def)
      then have "qs_step q (Complete i c) = (recycle ?q, [])" unfolding s .
      then show ?thesis by (rule armed) (use rec ops in simp_all)
    qed
  next
    case (Write_op k buf)
    show ?thesis
    proof (cases "c = C_written")
      case True
      then have "qs_step q (Complete i c) = (recycle ?q, [Reply_written k buf])"
        unfolding s by (simp add: Write_op on_write_def)
      then show ?thesis by (rule written) (use rec ops Write_op in simp_all)
    next
      case False
      then have "handler x c ?q = (recycle ?q, [])" by (cases c) (auto simp: Write_op on_write_def)
      then have "qs_step q (Complete i c) = (recycle ?q, [])" unfolding s .
      then show ?thesis by (rule armed) (use rec ops in simp_all)
    qed
  qed
qed

section \<open>What an event does to the bridge and to the query server\<close>

definition kore_free :: "sys_output list \<Rightarrow> bool" where
  "kore_free os \<longleftrightarrow> (\<forall>k b. Kore k b \<notin> set os)"

lemma kore_free_simps [simp]:
  "kore_free []" "kore_free (map Net xs)" "kore_free (os @ os') \<longleftrightarrow> kore_free os \<and> kore_free os'"
  "kore_free (sendBytes alive cur ps)" "kore_free (Net x # os) \<longleftrightarrow> kore_free os"
  "\<not> kore_free (Kore k b # os)"
  by (auto simp: kore_free_def sendBytes_def split: option.split)

text \<open>The attached handlers do not detach; only the bridge, the query server or neither moves.\<close>

definition attached :: "thanatos \<Rightarrow> bool" where
  "attached t \<longleftrightarrow> lh_gg (t_login t) \<and> ch_gg (t_char t)"

definition quiet :: "thanatos \<Rightarrow> thanatos \<Rightarrow> sys_output list \<Rightarrow> bool" where
  "quiet t t' os \<longleftrightarrow> t_query t' = t_query t \<and> (g_pending (t_bridge t') \<longrightarrow> g_pending (t_bridge t))
     \<and> (attached t \<longrightarrow> attached t') \<and> kore_free os"

definition answered :: "bytes \<Rightarrow> thanatos \<Rightarrow> thanatos \<Rightarrow> sys_output list \<Rightarrow> bool" where
  "answered r t t' os \<longleftrightarrow> g_pending (t_bridge t) \<and> \<not> g_pending (t_bridge t')
     \<and> t_query t' = send_reply_bin r (t_query t) \<and> (attached t \<longrightarrow> attached t') \<and> kore_free os"

lemma offer_cases:
  obtains (quiet) t' co os where "offer_to_bridge e gg b t = (t', co, os)" and "quiet t t' os"
      and "t_login t' = t_login t" and "t_char t' = t_char t"
  | (answered) t' r where "offer_to_bridge e gg b t = (t', True, [])" and "answered r t t' []"
      and "t_login t' = t_login t" and "t_char t' = t_char t"
proof (cases gg)
  case False
  then show ?thesis by (intro quiet [of t False "[]"]) (simp_all add: offer_to_bridge_def quiet_def)
next
  case True
  have move: "quiet t (t\<lparr>t_bridge := g\<rparr>) os" if "g_pending g \<longrightarrow> g_pending (t_bridge t)" "kore_free os" for g os
    using that by (simp add: quiet_def attached_def)
  show ?thesis
  proof (cases rule: consume_cases [of "t_bridge t" b "gg_env_of e t"])
    case late
    then show ?thesis using True move [of "t_bridge t" "[]"]
      by (intro quiet [of "t\<lparr>t_bridge := t_bridge t\<rparr>" True "[]"]) (simp_all add: offer_to_bridge_def)
  next
    case unrelated
    then show ?thesis using True move [of "t_bridge t" "[]"]
      by (intro quiet [of "t\<lparr>t_bridge := t_bridge t\<rparr>" False "[]"]) (simp_all add: offer_to_bridge_def)
  next
    case expired
    show ?thesis
    proof (cases rule: retry_cases [of "gg_env_of e t" "t_bridge t"])
      case (give_up g')
      then show ?thesis using True expired(3) move [of "gg_idle g'" "[]"]
        by (intro quiet [of "t\<lparr>t_bridge := gg_idle g'\<rparr>" False "[]"]) (simp_all add: offer_to_bridge_def)
    next
      case (lost g' w)
      let ?os = "snd (perform_gg e (t\<lparr>t_bridge := gg_idle g'\<rparr>) [To_client w (g_last_query (t_bridge t))])"
      show ?thesis using True expired(3) lost(1) move [of "gg_idle g'" ?os]
        by (intro quiet [of "t\<lparr>t_bridge := gg_idle g'\<rparr>" False ?os]) (simp_all add: offer_to_bridge_def)
    next
      case (resent g' w)
      let ?os = "snd (perform_gg e (t\<lparr>t_bridge := g'\<rparr>) [To_client w (g_last_query (t_bridge t))])"
      show ?thesis using True expired(1,3) resent(1,7) move [of g' ?os]
        by (intro quiet [of "t\<lparr>t_bridge := g'\<rparr>" False ?os]) (simp_all add: offer_to_bridge_def)
    qed
  next
    case answered
    then show ?thesis using True
      by (intro that(2) [of "t\<lparr>t_bridge := gg_idle (t_bridge t),
            t_query := send_reply_bin (take (trim_to_pkt_len b) b) (t_query t)\<rparr>"
            "take (trim_to_pkt_len b) b"])
         (simp_all add: offer_to_bridge_def answered_def attached_def)
  qed
qed

text \<open>What follows the offer touches neither of the two.\<close>

definition same_channel :: "thanatos \<Rightarrow> thanatos \<Rightarrow> bool" where
  "same_channel t t' \<longleftrightarrow> t_query t' = t_query t \<and> t_bridge t' = t_bridge t \<and> (attached t \<longrightarrow> attached t')"

lemma quiet_trans:
  "same_channel t t1 \<Longrightarrow> quiet t1 t2 os \<Longrightarrow> same_channel t2 t3 \<Longrightarrow> kore_free os' \<Longrightarrow> quiet t t3 (os @ os')"
  by (simp add: same_channel_def quiet_def)

lemma answered_trans:
  "same_channel t t1 \<Longrightarrow> answered r t1 t2 [] \<Longrightarrow> answered r t t2 []"
  by (simp add: same_channel_def answered_def)

definition settles :: "thanatos \<Rightarrow> thanatos \<times> sys_output list \<Rightarrow> bool" where
  "settles t p \<longleftrightarrow> quiet t (fst p) (snd p) \<or> (\<exists>r. answered r t (fst p) (snd p))"

lemma settles_quiet: "quiet t t' os \<Longrightarrow> settles t (t', os)"
  by (simp add: settles_def)

lemma settles_answered: "answered r t t' os \<Longrightarrow> settles t (t', os)"
  by (auto simp: settles_def)

lemma login_data_settles: "settles t (login_on_data e s b t)"
proof -
  let ?t = "t\<lparr>t_login := (t_login t)\<lparr>lh_cur := Some s\<rparr>\<rparr>"
  have same: "same_channel t ?t" by (simp add: same_channel_def attached_def)
  show ?thesis
  proof (cases rule: offer_cases [of e "lh_gg (t_login ?t)" b ?t])
    case (quiet t' co os)
    have q: "quiet t t3 (os @ os')" if "same_channel t' t3" "kore_free os'" for t3 os'
      using quiet_trans [OF same quiet(2) that] .
    let ?h = "login_handle (ce_login e) (lh_cfg (t_login t')) (t_globals t') (lh_flow (t_login t')) (rd16le b)"
    show ?thesis
    proof (cases "co \<or> length b < 2")
      case True
      then have "login_on_data e s b t = (t', os)" using quiet(1) by (auto simp: login_on_data_def Let_def)
      then show ?thesis using q [of t' "[]"] by (simp add: settles_quiet same_channel_def)
    next
      case False
      show ?thesis
      proof (cases ?h)
        case (Inl err)
        then have "login_on_data e s b t = (t'\<lparr>t_dead := True\<rparr>, os)"
          using quiet(1) False by (simp add: login_on_data_def Let_def)
        then show ?thesis using q [of "t'\<lparr>t_dead := True\<rparr>" "[]"] by (simp add: settles_quiet same_channel_def attached_def)
      next
        case (Inr x)
        obtain f g ps where x: "x = (f, g, ps)" by (cases x)
        let ?t3 = "t'\<lparr>t_login := (t_login t')\<lparr>lh_flow := f\<rparr>, t_globals := g\<rparr>"
        have "login_on_data e s b t = (?t3, os @ sendBytes (ce_alive e) (lh_cur (t_login t')) ps)"
          using quiet(1) False Inr x by (simp add: login_on_data_def Let_def)
        then show ?thesis using q [of ?t3] by (simp add: settles_quiet same_channel_def attached_def)
      qed
    qed
  next
    case (answered t' r)
    then have "login_on_data e s b t = (t', [])" by (simp add: login_on_data_def Let_def)
    then show ?thesis using answered_trans [OF same answered(2)] by (simp add: settles_answered)
  qed
qed

lemma char_data_settles: "settles t (char_on_data e s b t)"
proof -
  let ?t = "t\<lparr>t_char := (t_char t)\<lparr>ch_cur := Some s\<rparr>\<rparr>"
  have same: "same_channel t ?t" by (simp add: same_channel_def attached_def)
  show ?thesis
  proof (cases rule: offer_cases [of e "ch_gg (t_char ?t)" b ?t])
    case (quiet t' co os)
    have q: "quiet t t3 (os @ os')" if "same_channel t' t3" "kore_free os'" for t3 os'
      using quiet_trans [OF same quiet(2) that] .
    let ?send = "sendBytes (ce_alive e) (ch_cur (t_char t'))"
    show ?thesis
    proof (cases "co \<or> length b < 2")
      case True
      then have "char_on_data e s b t = (t', os)" using quiet(1) by (auto simp: char_on_data_def Let_def)
      then show ?thesis using q [of t' "[]"] by (simp add: settles_quiet same_channel_def)
    next
      case False
      show ?thesis
      proof (cases "echo_stub (rd16le b) (drop 2 b)")
        case (Some out)
        then have "char_on_data e s b t = (t', os @ ?send [out])"
          using quiet(1) False by (simp add: char_on_data_def Let_def)
        then show ?thesis using q [of t' "?send [out]"] by (simp add: settles_quiet same_channel_def)
      next
        case None
        obtain f ps where h: "char_handle (ch_cfg (t_char t')) (ce_tick e) (rd16le b) (drop 2 b) (ch_flow (t_char t')) = (f, ps)"
          by fastforce
        let ?t3 = "t'\<lparr>t_char := (t_char t')\<lparr>ch_flow := f\<rparr>\<rparr>"
        have "char_on_data e s b t = (?t3, os @ ?send ps)"
          using quiet(1) False None h by (simp add: char_on_data_def Let_def)
        then show ?thesis using q [of ?t3] by (simp add: settles_quiet same_channel_def attached_def)
      qed
    qed
  next
    case (answered t' r)
    then have "char_on_data e s b t = (t', [])" by (simp add: char_on_data_def Let_def)
    then show ?thesis using answered_trans [OF same answered(2)] by (simp add: settles_answered)
  qed
qed

lemma connection_quiet:
  "quiet t (login_on_connect s t) []" "quiet t (login_on_disconnect s t) []"
  "quiet t (char_on_connect s t) []" "quiet t (char_on_disconnect s t) []"
  by (simp_all add: quiet_def attached_def login_on_connect_def login_on_disconnect_def
      char_on_connect_def char_on_disconnect_def bindClientWire_def Let_def)

fun is_bus_event :: "sys_event \<Rightarrow> bool" where
  "is_bus_event (Bus_event e i c) = True"
| "is_bus_event _ = False"

lemma client_event_settles: "\<not> is_bus_event ev \<Longrightarrow> settles t (sys_handle t ev)"
  by (cases ev) (simp_all add: settles_quiet connection_quiet login_data_settles char_data_settles)

lemma deliver_query_cases:
  obtains (dropped) "g_pending (t_bridge t) \<or> g_wire (t_bridge t) = None" and "deliver e t [Deliver_query b] = (t, [])"
  | (passed) g os where "deliver e t [Deliver_query b] = (t\<lparr>t_bridge := g\<rparr>, os)" and "kore_free os"
proof (cases rule: on_query_cases [of "t_bridge t" "gg_env_of e t" b])
  case dropped
  then show ?thesis by (intro that(1)) simp_all
next
  case (sent w g')
  then show ?thesis
    by (intro that(2) [of g' "map Net (snd (send_to_client (ce_alive e)
        (wire_session (t\<lparr>t_bridge := g'\<rparr>) w) (fst (frame_gg_query b))))"]) simp_all
qed

section \<open>The invariant of the channel\<close>

definition sys_inv :: "thanatos \<Rightarrow> bool" where
  "sys_inv t \<longleftrightarrow> attached t \<and> q_shape (t_query t)
     \<and> (g_pending (t_bridge t) \<longrightarrow> qs_ops (t_query t) = [])"

lemma q_shape_reply: "q_shape q \<Longrightarrow> qs_ops q = [] \<Longrightarrow> q_shape (send_reply_bin r q)"
  by (auto simp: send_reply_bin_def q_shape_def arm_def Let_def split: sum.split)

lemma settles_inv: "settles t p \<Longrightarrow> sys_inv t \<Longrightarrow> sys_inv (fst p)"
  by (auto simp: settles_def quiet_def answered_def sys_inv_def q_shape_reply)

lemma bus_inv: "sys_inv t \<Longrightarrow> sys_inv (fst (bus_complete e i c t))"
proof -
  assume inv: "sys_inv t"
  then have "q_shape (t_query t)" by (simp add: sys_inv_def)
  then show ?thesis
  proof (cases rule: qs_complete_cases [of "t_query t" i c])
    case impossible
    then show ?thesis using inv by (simp add: bus_complete_def del: qs_step.simps)
  next
    case (armed q')
    then show ?thesis using inv by (simp add: bus_complete_def sys_inv_def attached_def del: qs_step.simps)
  next
    case (read q' os)
    consider "os = []" | b where "os = [Deliver_query b]" using read(5) by blast
    then show ?thesis
    proof cases
      case 1
      then show ?thesis using inv read
        by (simp add: bus_complete_def sys_inv_def attached_def del: qs_step.simps)
    next
      case 2
      have "t_query (fst (deliver e (t\<lparr>t_query := q'\<rparr>) [Deliver_query b])) = q' \<and>
          attached (fst (deliver e (t\<lparr>t_query := q'\<rparr>) [Deliver_query b])) = attached t"
        by (cases rule: deliver_query_cases [of "t\<lparr>t_query := q'\<rparr>" e b])
           (simp_all add: attached_def del: deliver.simps)
      then show ?thesis using inv read 2
        by (simp add: bus_complete_def sys_inv_def del: qs_step.simps deliver.simps)
    qed
  next
    case (written q' k buf)
    then show ?thesis using inv
      by (simp add: bus_complete_def sys_inv_def attached_def del: qs_step.simps)
  qed
qed

lemma sys_inv_step: "sys_inv t \<Longrightarrow> sys_inv (fst (sys_step t ev))"
proof (cases "is_bus_event ev")
  case True
  then show "sys_inv t \<Longrightarrow> ?thesis" by (cases ev) (simp_all add: sys_step_def bus_inv)
next
  case False
  then show "sys_inv t \<Longrightarrow> ?thesis"
    using settles_inv [OF client_event_settles] by (simp add: sys_step_def)
qed

interpretation system: invariant_machine sys_step sys_inv
  by unfold_locales (rule sys_inv_step)

lemma started_inv: "sys_inv (started_system addr cfg)"
  by (simp add: sys_inv_def attached_def started_fields started_query q_shape_def started_server_fields)

text \<open>
  The bridge and the query server never disagree. However clients and OpenKore interleave, from
  a started server, at most one operation is outstanding towards OpenKore, and while a challenge
  is outstanding there is none while the peer's socket is open. So a second query never reaches
  a bridge that is busy, and a response always finds the peer that asked.
\<close>

theorem one_operation_at_a_time:
  "let t = fst (run sys_step (started_system addr cfg) es) in
   length (qs_ops (t_query t)) \<le> 1
   \<and> (g_pending (t_bridge t) \<longrightarrow> qs_ops (t_query t) = [] \<and> (\<exists>k. qs_sock (t_query t) = Some (k, True)))"
proof -
  define t where "t = fst (run sys_step (started_system addr cfg) es)"
  have "sys_inv t" unfolding t_def by (rule system.inv_run) (rule started_inv)
  moreover have "length (qs_ops q) \<le> 1" if "q_shape q" for q
    using that by (auto simp: q_shape_def split: list.splits)
  moreover have "\<exists>k. qs_sock q = Some (k, True)" if "q_shape q" "qs_ops q = []" for q
    using that by (simp add: q_shape_def)
  ultimately show ?thesis unfolding Let_def t_def [symmetric] by (simp add: sys_inv_def)
qed

section \<open>The dead channel\<close>

definition dead_channel :: "thanatos \<Rightarrow> bool" where
  "dead_channel t \<longleftrightarrow> qs_ops (t_query t) = [] \<and> \<not> g_pending (t_bridge t)"

lemma dead_channel_step:
  assumes "dead_channel t"
  shows "dead_channel (fst (sys_step t ev)) \<and> kore_free (snd (sys_step t ev))"
proof (cases "is_bus_event ev")
  case True
  then obtain e i c where ev: "ev = Bus_event e i c" by (cases ev) auto
  have "sys_handle t ev = (t, [])" using assms by (simp add: ev bus_complete_def dead_channel_def)
  then show ?thesis using assms by (simp add: sys_step_def)
next
  case False
  then have "settles t (sys_handle t ev)" by (rule client_event_settles)
  then show ?thesis
    using assms by (auto simp: sys_step_def settles_def quiet_def answered_def dead_channel_def)
qed

lemma dead_channel_run:
  "dead_channel t \<Longrightarrow> dead_channel (fst (run sys_step t es)) \<and> kore_free (snd (run sys_step t es))"
proof (induction es arbitrary: t)
  case (Cons ev es)
  then show ?case using dead_channel_step [OF Cons.prems, of ev] by simp
qed simp

lemma bus_event_step:
  "\<not> halted t \<Longrightarrow> qs_step (t_query t) (Complete i c) = (q', os) \<Longrightarrow>
     sys_step t (Bus_event e i c) = deliver e (t\<lparr>t_query := q'\<rparr>) os"
  by (simp add: sys_step_def bus_complete_def del: qs_step.simps)

definition bus_reads :: "call_env \<Rightarrow> bytes \<Rightarrow> sys_event list" where
  "bus_reads e f = [Bus_event e 0 (C_bytes (take 4 f)), Bus_event e 0 (C_bytes (drop 4 f))]"

lemma bus_reads_frame:
  assumes "\<not> halted t" and "qs_ops (t_query t) = [Read_len_op k]" and "qs_sock (t_query t) = Some (k, True)"
    and "bus_cut stream = Cut f r"
  shows "run sys_step t (bus_reads e f) =
    deliver e (t\<lparr>t_query := (t_query t)\<lparr>qs_hdr := take 4 f, qs_frame := f, qs_ops := []\<rparr>\<rparr>)
      (delivered (qs_on_query (t_query t)) f)"
proof -
  let ?q = "t_query t"
  let ?q1 = "fst (qs_step ?q (Complete 0 (C_bytes (take 4 f))))"
  have alive: "\<not> qs_crashed ?q" using assms(1) by (simp add: halted_def)
  note l = bus_cut_lengths [OF assms(4)]
  have one: "qs_step ?q (Complete 0 (C_bytes (take 4 f))) = (?q1, [])" and "\<not> qs_crashed ?q1"
    using read_len_step [OF assms(2,3) alive, of "take 4 f"] l alive by simp_all
  then have "\<not> halted (t\<lparr>t_query := ?q1\<rparr>)" using assms(1) by (simp add: halted_def)
  moreover have "qs_step ?q1 (Complete 0 (C_bytes (drop 4 f))) =
      (?q\<lparr>qs_hdr := take 4 f, qs_frame := f, qs_ops := []\<rparr>, delivered (qs_on_query ?q) f)"
    using reads_of_frame [OF assms(2,3) alive assms(4)] one
    by (simp add: reads_of_def prod_eq_iff del: qs_step.simps)
  ultimately have two: "sys_step (t\<lparr>t_query := ?q1\<rparr>) (Bus_event e 0 (C_bytes (drop 4 f))) =
      deliver e (t\<lparr>t_query := ?q\<lparr>qs_hdr := take 4 f, qs_frame := f, qs_ops := []\<rparr>\<rparr>)
        (delivered (qs_on_query ?q) f)"
    by (subst bus_event_step) simp_all
  have "sys_step t (Bus_event e 0 (C_bytes (take 4 f))) = (t\<lparr>t_query := ?q1\<rparr>, [])"
    by (subst bus_event_step [OF assms(1) one]) simp
  with two show ?thesis by (simp add: bus_reads_def prod_eq_iff del: qs_step.simps)
qed

lemma bus_read_silent:
  assumes "\<not> halted t" and "qs_ops (t_query t) = [Read_len_op k]" and "qs_sock (t_query t) = Some (k, True)"
    and "bus_cut stream = Cut f r"
  shows "snd (sys_step t (Bus_event e 0 (C_bytes (take 4 f)))) = []"
proof -
  let ?q = "t_query t"
  have alive: "\<not> qs_crashed ?q" using assms(1) by (simp add: halted_def)
  have "snd (qs_step ?q (Complete 0 (C_bytes (take 4 f)))) = []"
    using read_len_step [OF assms(2,3) alive, of "take 4 f"] bus_cut_lengths [OF assms(4)] by simp
  then have "qs_step ?q (Complete 0 (C_bytes (take 4 f))) = (fst (qs_step ?q (Complete 0 (C_bytes (take 4 f)))), [])"
    by (simp add: prod_eq_iff del: qs_step.simps)
  from bus_event_step [OF assms(1) this, of e] show ?thesis by simp
qed

lemma delivered_cases:
  obtains "delivered sub f = []" | b where "delivered sub f = [Deliver_query b]"
  by (cases "delivered sub f = []") (auto simp: delivered_def split: sum.splits option.splits if_splits)

lemma query_without_wire:
  assumes "\<not> halted t" and "qs_ops (t_query t) = [Read_len_op k]" and "qs_sock (t_query t) = Some (k, True)"
    and "bus_cut stream = Cut f r" and "g_wire (t_bridge t) = None" and "\<not> g_pending (t_bridge t)"
  shows "kore_free (snd (run sys_step t (bus_reads e f @ es)))"
proof -
  let ?t = "t\<lparr>t_query := (t_query t)\<lparr>qs_hdr := take 4 f, qs_frame := f, qs_ops := []\<rparr>\<rparr>"
  have "deliver e ?t (delivered (qs_on_query (t_query t)) f) = (?t, [])"
    by (cases rule: delivered_cases [of "qs_on_query (t_query t)" f])
       (simp_all add: on_query_from_kore_def assms(5,6))
  then have "run sys_step t (bus_reads e f) = (?t, [])" using bus_reads_frame [OF assms(1-4)] by simp
  moreover have "dead_channel ?t" using assms(6) by (simp add: dead_channel_def)
  ultimately show ?thesis using dead_channel_run by (simp add: run_append)
qed

text \<open>
  C11: A query that finds no client ends the channel. In any state a started server can reach, if
  OpenKore's frame is read while no client wire is bound, nothing is ever written to OpenKore
  again, whatever clients connect, whatever they send, and however often OpenKore reconnects.
\<close>

theorem query_without_client_ends_channel:
  assumes "t = fst (run sys_step (started_system addr cfg) es0)" and "\<not> halted t"
    and "qs_ops (t_query t) = [Read_len_op k]" and "g_wire (t_bridge t) = None"
    and "bus_cut stream = Cut f r"
  shows "Kore j b \<notin> set (snd (run sys_step t (bus_reads e f @ es)))"
proof -
  have inv: "sys_inv t" unfolding assms(1) by (rule system.inv_run) (rule started_inv)
  then have "\<not> g_pending (t_bridge t)" and "qs_sock (t_query t) = Some (k, True)"
    using assms(3) by (auto simp: sys_inv_def q_shape_def)
  then have "kore_free (snd (run sys_step t (bus_reads e f @ es)))"
    using assms(2-5) query_without_wire by blast
  then show ?thesis by (simp add: kore_free_def)
qed

lemma connect_peer:
  assumes "\<not> halted t" and "qs_ops (t_query t) = [Accept_op k]" and "qs_sock (t_query t) = Some (k, False)"
    and "qs_listening (t_query t)"
  shows "sys_step t (Bus_event e 0 (C_accepted True)) =
    (t\<lparr>t_query := (t_query t)\<lparr>qs_sock := Some (k, True), qs_ops := [Read_len_op k]\<rparr>\<rparr>, [])"
  using bus_event_step [OF assms(1) accept_step [OF assms(2,3) _ assms(4)]] assms(1)
  by (simp add: halted_def)

lemma started_alive: "\<not> halted (started_system addr cfg)"
  by (simp add: halted_def started_query started_fields started_server_fields)

definition kore_frame :: "bytes \<Rightarrow> bytes" where
  "kore_frame q = (case encode (packet_message QueryId q) of Inr f \<Rightarrow> f | Inl _ \<Rightarrow> [])"

lemma kore_frame_cuts:
  assumes "length q \<le> 16000000"
  shows "bus_cut (kore_frame q) = Cut (kore_frame q) []"
    and "decode (kore_frame q) = Inr (packet_message QueryId q, length (kore_frame q))"
proof -
  obtain f where f: "encode (packet_message QueryId q) = Inr f"
      "decode f = Inr (packet_message QueryId q, length f)" "\<forall>r. bus_cut (f @ r) = Cut f r"
    using short_packet_frame [of QueryId q] assms by auto
  then show "bus_cut (kore_frame q) = Cut (kore_frame q) []"
    and "decode (kore_frame q) = Inr (packet_message QueryId q, length (kore_frame q))"
    using spec [OF f(3), of "[]"] by (simp_all add: kore_frame_def)
qed

text \<open>
  C10: A stale disconnect ends the channel. The client moves on to the char server before its login
  connection is reported closed, as it may: the late disconnect of the login connection takes the
  wire of the live char connection away. OpenKore's next query is dropped, and nothing that happens
  later, reconnections included, ever makes the server answer OpenKore again.
\<close>

theorem stale_disconnect_ends_channel:
  assumes "length q \<le> 16000000"
  shows "Kore j b \<notin> set (snd (run sys_step (started_system addr cfg)
    ([Login_connect l, Char_connect c, Login_disconnect l, Bus_event e 0 (C_accepted True)]
     @ bus_reads e (kore_frame q) @ es)))"
proof -
  let ?t0 = "started_system addr cfg"
  let ?t1 = "fst (run sys_step ?t0 [Login_connect l, Char_connect c, Login_disconnect l])"
  let ?t2 = "fst (sys_step ?t1 (Bus_event e 0 (C_accepted True)))"
  have conn: "run sys_step ?t0 [Login_connect l, Char_connect c, Login_disconnect l] = (?t1, [])"
      "t_query ?t1 = started_server" "\<not> halted ?t1" "g_wire (t_bridge ?t1) = None"
      "\<not> g_pending (t_bridge ?t1)"
    by (simp_all add: sys_step_def started_alive halted_def started_query started_fields
        login_on_connect_def char_on_connect_def login_on_disconnect_def bindClientWire_def Let_def
        started_server_fields prod_eq_iff)
  note peer = connect_peer [OF conn(3), of 0 e]
  have acc: "sys_step ?t1 (Bus_event e 0 (C_accepted True)) = (?t2, [])"
      "qs_ops (t_query ?t2) = [Read_len_op 0]" "qs_sock (t_query ?t2) = Some (0, True)" "\<not> halted ?t2"
      "g_wire (t_bridge ?t2) = None" "\<not> g_pending (t_bridge ?t2)"
    using peer conn(3-5) by (simp_all add: conn(2) started_server_fields halted_def del: run_fst_Cons)
  have "kore_free (snd (run sys_step ?t2 (bus_reads e (kore_frame q) @ es)))"
    using query_without_wire [OF acc(4,2,3) kore_frame_cuts(1) [OF assms] acc(5,6)] .
  moreover have "run sys_step ?t0 ([Login_connect l, Char_connect c, Login_disconnect l, Bus_event e 0 (C_accepted True)] @ xs)
      = (fst (run sys_step ?t2 xs), snd (run sys_step ?t2 xs))" for xs
    using conn(1) acc(1) run_append [of sys_step ?t0 "[Login_connect l, Char_connect c, Login_disconnect l]"
        "Bus_event e 0 (C_accepted True) # xs"]
    by (simp add: prod_eq_iff)
  ultimately show ?thesis by (simp add: kore_free_def del: run_fst_Cons run_snd_Cons append.simps)
qed

section \<open>The exchange\<close>

text \<open>The server waits for OpenKore's next connection while session \<open>s\<close> is bound to the char server.\<close>

definition ready :: "sid \<Rightarrow> nat \<Rightarrow> thanatos \<Rightarrow> bool" where
  "ready s k t \<longleftrightarrow> \<not> halted t \<and> attached t \<and> qs_ops (t_query t) = [Accept_op k]
     \<and> qs_sock (t_query t) = Some (k, False) \<and> qs_next (t_query t) = k + 1
     \<and> qs_listening (t_query t) \<and> qs_on_query (t_query t)
     \<and> \<not> g_pending (t_bridge t) \<and> g_wire (t_bridge t) = Some Char_wire
     \<and> ch_wire (t_char t) = Some (Some s)
     \<and> \<not> g_randomize (t_bridge t) \<and> g_base_timeout (t_bridge t) = kConfiguredTimeout"

lemma ready_started: "ready s 0 (fst (sys_step (started_system addr cfg) (Char_connect s)))"
proof -
  let ?t = "started_system addr cfg"
  have b: "\<not> g_randomize (t_bridge ?t)" "g_base_timeout (t_bridge ?t) = kConfiguredTimeout"
    by (simp_all add: started_system_def promote_def Let_def set_size_bounds_def set_timeout_def
        set_greedy_window_def set_strategy_def new_bridge_def)
  have w: "wire_reset x y = Some x" for x y by (simp add: wire_reset_def split: option.split)
  show ?thesis
    by (simp add: sys_step_def started_alive char_on_connect_def started_fields Let_def ready_def
        attached_def halted_def started_query started_server_fields bindClientWire_def b w)
qed

text \<open>One exchange: OpenKore connects and sends its query, the client responds, the reply is written.\<close>

record exchange =
  x_ask :: call_env
  x_answer :: call_env
  x_query :: bytes
  x_response :: bytes

definition exchange_ok :: "sid \<Rightarrow> exchange \<Rightarrow> bool" where
  "exchange_ok s x \<longleftrightarrow> ce_alive (x_ask x) s \<and> ce_now (x_answer x) \<le> after_ms (ce_now (x_ask x)) kConfiguredTimeout
     \<and> rd16le (x_query x) \<noteq> gg_opcode Challenge \<and> length (x_query x) < 65532
     \<and> gg_response (x_response x) \<and> length (x_response x) \<le> 16000000"

definition exchange_events :: "sid \<Rightarrow> exchange \<Rightarrow> sys_event list" where
  "exchange_events s x = Bus_event (x_ask x) 0 (C_accepted True) # bus_reads (x_ask x) (kore_frame (x_query x))
     @ [Char_data (x_answer x) s (x_response x), Bus_event (x_answer x) 0 C_written]"

definition answer :: "exchange \<Rightarrow> bytes" where
  "answer x = take (trim_to_pkt_len (x_response x)) (x_response x)"

lemma written_step:
  assumes "qs_ops q = [Write_op k w]" and "qs_sock q = Some (k, True)" and "\<not> qs_crashed q"
  shows "qs_step q (Complete 0 C_written) =
    (q\<lparr>qs_sock := Some (qs_next q, False), qs_next := qs_next q + 1, qs_ops := [Accept_op (qs_next q)]\<rparr>,
     [Reply_written k w])"
  using assms by (simp add: qs_defs Let_def)

lemma query_sent:
  assumes "\<not> g_pending (t_bridge t)" and "g_wire (t_bridge t) = Some w" and "e_send_ok (gg_env_of e t)"
    and "get_randomized_timeout (gg_env_of e t) (t_bridge t) = ms"
  obtains g where "on_query_from_kore (gg_env_of e t) (t_bridge t) q = (g, [To_client w (fst (frame_gg_query q))])"
    and "g_pending g" and "g_wire g = Some w" and "g_deadline g = after_ms (ce_now e) ms"
    and "g_randomize g = g_randomize (t_bridge t)" and "g_base_timeout g = g_base_timeout (t_bridge t)"
  using that [of "fst (on_query_from_kore (gg_env_of e t) (t_bridge t) q)"] assms
  by (simp add: on_query_from_kore_def Let_def split_beta) (simp add: gg_env_of_def)

definition ask_events :: "exchange \<Rightarrow> sys_event list" where
  "ask_events x = Bus_event (x_ask x) 0 (C_accepted True) # bus_reads (x_ask x) (kore_frame (x_query x))"

text \<open>The two states in between: the challenge is with the client until a deadline, the reply is being written.\<close>

definition asked :: "sid \<Rightarrow> nat \<Rightarrow> int \<Rightarrow> thanatos \<Rightarrow> bool" where
  "asked s k deadline t \<longleftrightarrow> \<not> halted t \<and> attached t \<and> qs_ops (t_query t) = []
     \<and> qs_sock (t_query t) = Some (k, True) \<and> qs_next (t_query t) = k + 1
     \<and> qs_listening (t_query t) \<and> qs_on_query (t_query t)
     \<and> g_pending (t_bridge t) \<and> g_deadline (t_bridge t) = deadline \<and> g_wire (t_bridge t) = Some Char_wire
     \<and> ch_wire (t_char t) = Some (Some s)
     \<and> \<not> g_randomize (t_bridge t) \<and> g_base_timeout (t_bridge t) = kConfiguredTimeout"

definition replying :: "sid \<Rightarrow> nat \<Rightarrow> bytes \<Rightarrow> thanatos \<Rightarrow> bool" where
  "replying s k w t \<longleftrightarrow> \<not> halted t \<and> attached t \<and> qs_ops (t_query t) = [Write_op k w]
     \<and> qs_sock (t_query t) = Some (k, True) \<and> qs_next (t_query t) = k + 1
     \<and> qs_listening (t_query t) \<and> qs_on_query (t_query t)
     \<and> \<not> g_pending (t_bridge t) \<and> g_wire (t_bridge t) = Some Char_wire
     \<and> ch_wire (t_char t) = Some (Some s)
     \<and> \<not> g_randomize (t_bridge t) \<and> g_base_timeout (t_bridge t) = kConfiguredTimeout"

lemma exchange_asks:
  assumes r: "ready s k t" and x: "exchange_ok s x"
  obtains t1 t2 t3 where
    "sys_step t (Bus_event (x_ask x) 0 (C_accepted True)) = (t1, [])"
    and "sys_step t1 (Bus_event (x_ask x) 0 (C_bytes (take 4 (kore_frame (x_query x))))) = (t2, [])"
    and "sys_step t2 (Bus_event (x_ask x) 0 (C_bytes (drop 4 (kore_frame (x_query x)))))
      = (t3, [Net (Send s (fst (frame_gg_query (x_query x))))])"
    and "asked s k (after_ms (ce_now (x_ask x)) kConfiguredTimeout) t3"
proof -
  let ?e = "x_ask x" and ?f = "kore_frame (x_query x)"
  let ?A = "Bus_event ?e 0 (C_bytes (take 4 ?f))" and ?B = "Bus_event ?e 0 (C_bytes (drop 4 ?f))"
  define t1 where "t1 = t\<lparr>t_query := (t_query t)\<lparr>qs_sock := Some (k, True), qs_ops := [Read_len_op k]\<rparr>\<rparr>"
  define q where "q = (t_query t1)\<lparr>qs_hdr := take 4 ?f, qs_frame := ?f, qs_ops := []\<rparr>"
  define t2 where "t2 = t\<lparr>t_query := q\<rparr>"
  have long: "length (x_query x) \<le> 16000000" using x by (simp add: exchange_ok_def)
  note cut = kore_frame_cuts [OF long]
  have s1: "sys_step t (Bus_event ?e 0 (C_accepted True)) = (t1, [])"
    unfolding t1_def by (rule connect_peer) (use r in \<open>simp_all add: ready_def\<close>)
  have dl: "delivered (qs_on_query (t_query t1)) ?f = [Deliver_query (x_query x)]"
    using r by (simp add: delivered_def cut(2) query_of_packet t1_def ready_def)
  have t12: "t1\<lparr>t_query := q\<rparr> = t2" by (simp add: t1_def t2_def)
  have q1: "\<not> halted t1" "qs_ops (t_query t1) = [Read_len_op k]" "qs_sock (t_query t1) = Some (k, True)"
    using r by (simp_all add: t1_def ready_def halted_def)
  have s2: "run sys_step t1 (bus_reads ?e ?f) = deliver ?e t2 [Deliver_query (x_query x)]"
    unfolding t12 [symmetric] q_def dl [symmetric] by (rule bus_reads_frame [OF q1 cut(1)])
  have a: "sys_step t1 ?A = (fst (sys_step t1 ?A), [])"
    using bus_read_silent [OF q1 cut(1), of ?e] by (simp add: prod_eq_iff)
  have ok: "e_send_ok (gg_env_of ?e t2)"
    using r x by (simp add: gg_env_of_def t2_def ready_def wire_session_def exchange_ok_def
        send_to_client_def weak_lock_def)
  have br: "\<not> g_pending (t_bridge t2)" "g_wire (t_bridge t2) = Some Char_wire"
      "get_randomized_timeout (gg_env_of ?e t2) (t_bridge t2) = kConfiguredTimeout" "t_bridge t2 = t_bridge t"
    using r by (simp_all add: t2_def ready_def get_randomized_timeout_def)
  obtain g where g: "on_query_from_kore (gg_env_of ?e t2) (t_bridge t2) (x_query x)
        = (g, [To_client Char_wire (fst (frame_gg_query (x_query x)))])" "g_pending g"
      "g_wire g = Some Char_wire" "g_deadline g = after_ms (ce_now ?e) kConfiguredTimeout"
      "\<not> g_randomize g" "g_base_timeout g = kConfiguredTimeout"
    using r br(4) by (auto intro: query_sent [OF br(1,2) ok br(3), of "x_query x"] simp: ready_def)
  define t3 where "t3 = t\<lparr>t_query := q, t_bridge := g\<rparr>"
  have "deliver ?e t2 [Deliver_query (x_query x)] = (t3, [Net (Send s (fst (frame_gg_query (x_query x))))])"
    using r x g(1) by (simp add: t2_def t3_def ready_def wire_session_def exchange_ok_def
        send_to_client_def weak_lock_def)
  then have "run sys_step t1 [?A, ?B] = (t3, [Net (Send s (fst (frame_gg_query (x_query x))))])"
    using s2 by (simp add: bus_reads_def)
  then have b: "sys_step (fst (sys_step t1 ?A)) ?B = (t3, [Net (Send s (fst (frame_gg_query (x_query x))))])"
    using a by (simp add: prod_eq_iff)
  have "asked s k (after_ms (ce_now ?e) kConfiguredTimeout) t3"
    using r g by (simp add: asked_def t3_def q_def t1_def ready_def halted_def attached_def)
  then show ?thesis by (rule that [OF s1 a b])
qed

lemma exchange_answered:
  assumes r: "asked s k deadline t" and resp: "gg_response b" "length b \<le> 16000000" and now: "ce_now e \<le> deadline"
  obtains t' w where "sys_step t (Char_data e s b) = (t', [])" and "replying s k w t'"
    and "decode w = Inr (packet_message ReplyId (take (trim_to_pkt_len b) b), length w)"
proof -
  let ?a = "take (trim_to_pkt_len b) b"
  have "length ?a \<le> 16000000" using resp(2) by (simp add: min_le_iff_disj)
  from short_packet_frame [OF poseidon_ids(2) this]
  obtain w where w: "encode (packet_message ReplyId ?a) = Inr w"
      "decode w = Inr (packet_message ReplyId ?a, length w)" by blast
  define t' where "t' = t\<lparr>t_char := (t_char t)\<lparr>ch_cur := Some s\<rparr>, t_bridge := gg_idle (t_bridge t),
      t_query := (t_query t)\<lparr>qs_ops := [Write_op k w]\<rparr>\<rparr>"
  have reply: "send_reply_bin ?a (t_query t) = (t_query t)\<lparr>qs_ops := [Write_op k w]\<rparr>"
    using r by (simp add: send_reply_bin_def asked_def w arm_def)
  have consumed: "maybe_consume_c2s e' (t_bridge t) b = (gg_idle (t_bridge t), True, [To_kore ?a])"
    if "e_now e' = ce_now e" for e'
    using r resp now that by (cases rule: consume_cases [of "t_bridge t" b e'])
      (auto simp: asked_def maybe_consume_c2s_def gg_response_def Let_def)
  have "\<not> halted t" "ch_gg (t_char t)" using r by (simp_all add: asked_def attached_def)
  then have "sys_step t (Char_data e s b) = (t', [])"
    using reply consumed [of "gg_env_of e (t\<lparr>t_char := (t_char t)\<lparr>ch_cur := Some s\<rparr>\<rparr>)"]
    by (simp add: sys_step_def char_on_data_def offer_to_bridge_def t'_def gg_env_of_def Let_def)
  moreover have "replying s k w t'"
    using r by (simp add: replying_def asked_def t'_def halted_def attached_def gg_idle_def)
  ultimately show ?thesis using w(2) by (intro that)
qed

lemma exchange_written:
  assumes r: "replying s k w t"
  obtains t' where "sys_step t (Bus_event e 0 C_written) = (t', [Kore k w])" and "ready s (k + 1) t'"
proof -
  let ?q = "t_query t"
  define t' where "t' = t\<lparr>t_query := ?q\<lparr>qs_sock := Some (k + 1, False), qs_next := k + 2, qs_ops := [Accept_op (k + 1)]\<rparr>\<rparr>"
  have q: "qs_ops ?q = [Write_op k w]" "qs_sock ?q = Some (k, True)" "\<not> qs_crashed ?q" "\<not> halted t" "qs_next ?q = k + 1"
    using r by (simp_all add: replying_def halted_def)
  have "sys_step t (Bus_event e 0 C_written) = (t', [Kore k w])"
    using bus_event_step [OF q(4) written_step [OF q(1-3)]] by (simp add: t'_def q(5))
  moreover have "ready s (k + 1) t'"
    using r by (simp add: ready_def replying_def t'_def halted_def attached_def)
  ultimately show ?thesis by (rule that)
qed

lemma exchange_events_split:
  "exchange_events s x = ask_events x @ [Char_data (x_answer x) s (x_response x), Bus_event (x_answer x) 0 C_written]"
  by (simp add: exchange_events_def ask_events_def)

lemma exchange_runs:
  assumes r: "ready s k t" and x: "exchange_ok s x"
  shows "\<exists>p w. run sys_step t (exchange_events s x)
      = (fst (run sys_step t (exchange_events s x)), [Net (Send s p), Kore k w])
    \<and> gg_client_reads p = Some (gg_opcode Challenge, 4 + length (x_query x), x_query x)
    \<and> decode w = Inr (packet_message ReplyId (answer x), length w)
    \<and> ready s (k + 1) (fst (run sys_step t (exchange_events s x)))"
proof -
  let ?p = "fst (frame_gg_query (x_query x))"
  obtain t1 t2 t3 where ask: "sys_step t (Bus_event (x_ask x) 0 (C_accepted True)) = (t1, [])"
    "sys_step t1 (Bus_event (x_ask x) 0 (C_bytes (take 4 (kore_frame (x_query x))))) = (t2, [])"
    "sys_step t2 (Bus_event (x_ask x) 0 (C_bytes (drop 4 (kore_frame (x_query x))))) = (t3, [Net (Send s ?p)])"
    "asked s k (after_ms (ce_now (x_ask x)) kConfiguredTimeout) t3"
    by (rule exchange_asks [OF r x])
  have "gg_response (x_response x)" "length (x_response x) \<le> 16000000"
    "ce_now (x_answer x) \<le> after_ms (ce_now (x_ask x)) kConfiguredTimeout" using x by (simp_all add: exchange_ok_def)
  from exchange_answered [OF ask(4) this] obtain t4 w where
    ans: "sys_step t3 (Char_data (x_answer x) s (x_response x)) = (t4, [])" "replying s k w t4"
      "decode w = Inr (packet_message ReplyId (answer x), length w)" by (auto simp: answer_def)
  obtain t5 where wr: "sys_step t4 (Bus_event (x_answer x) 0 C_written) = (t5, [Kore k w])" "ready s (k + 1) t5"
    by (rule exchange_written [OF ans(2)])
  have "run sys_step t (exchange_events s x) = (t5, [Net (Send s ?p), Kore k w])"
    by (simp add: exchange_events_def bus_reads_def ask ans wr prod_eq_iff)
  moreover have "gg_client_reads ?p = Some (gg_opcode Challenge, 4 + length (x_query x), x_query x)"
    using x by (intro frame_gg_query_raw) (simp_all add: exchange_ok_def)
  ultimately show ?thesis using ans(3) wr(2) by (intro exI [of _ ?p] exI [of _ w]) simp
qed

text \<open>What OpenKore and the client read of the traffic.\<close>

definition reply_of :: "bytes \<Rightarrow> bytes option" where
  "reply_of w =
     (case decode w of
        Inl e \<Rightarrow> None
      | Inr (msg, n) \<Rightarrow>
          if m_messageID msg = ReplyId then map_option v_bin (map_of (m_args_map msg) PacketKey) else None)"

fun kore_reads :: "sys_output list \<Rightarrow> bytes option list" where
  "kore_reads [] = []"
| "kore_reads (Kore k w # os) = reply_of w # kore_reads os"
| "kore_reads (Net x # os) = kore_reads os"

fun client_reads :: "sid \<Rightarrow> sys_output list \<Rightarrow> (u16 \<times> nat \<times> bytes) option list" where
  "client_reads s [] = []"
| "client_reads s (Net (Send s' p) # os) = (if s' = s then gg_client_reads p # client_reads s os else client_reads s os)"
| "client_reads s (_ # os) = client_reads s os"

lemma reads_append:
  "kore_reads (os @ os') = kore_reads os @ kore_reads os'"
  "client_reads s (os @ os') = client_reads s os @ client_reads s os'"
proof -
  show "kore_reads (os @ os') = kore_reads os @ kore_reads os'"
    by (induction os rule: kore_reads.induct) simp_all
  show "client_reads s (os @ os') = client_reads s os @ client_reads s os'"
    by (induction s os rule: client_reads.induct) simp_all
qed

lemma reply_of_packet: "decode w = Inr (packet_message ReplyId b, n) \<Longrightarrow> reply_of w = Some b"
  by (simp add: reply_of_def packet_message_def emplace_def)

lemma exchanges_run:
  assumes "ready s k t" and "list_all (exchange_ok s) xs"
  shows "kore_reads (snd (run sys_step t (concat (map (exchange_events s) xs)))) = map (\<lambda>x. Some (answer x)) xs
    \<and> client_reads s (snd (run sys_step t (concat (map (exchange_events s) xs))))
        = map (\<lambda>x. Some (gg_opcode Challenge, 4 + length (x_query x), x_query x)) xs
    \<and> ready s (k + length xs) (fst (run sys_step t (concat (map (exchange_events s) xs))))"
  using assms
proof (induction xs arbitrary: k t)
  case (Cons x xs)
  let ?t = "fst (run sys_step t (exchange_events s x))"
  from Cons.prems have "ready s k t" and "exchange_ok s x" by simp_all
  from exchange_runs [OF this] obtain p w where
    x: "run sys_step t (exchange_events s x) = (?t, [Net (Send s p), Kore k w])"
      "gg_client_reads p = Some (gg_opcode Challenge, 4 + length (x_query x), x_query x)"
      "decode w = Inr (packet_message ReplyId (answer x), length w)" "ready s (k + 1) ?t" by blast
  note ih = Cons.IH [OF x(4)]
  have "run sys_step t (concat (map (exchange_events s) (x # xs)))
      = (fst (run sys_step ?t (concat (map (exchange_events s) xs))),
         [Net (Send s p), Kore k w] @ snd (run sys_step ?t (concat (map (exchange_events s) xs))))"
  proof -
    have "snd (run sys_step t (exchange_events s x)) = [Net (Send s p), Kore k w]" using x(1) by (metis snd_conv)
    then show ?thesis by (simp add: run_append prod_eq_iff)
  qed
  then show ?case
    using ih Cons.prems x(2) reply_of_packet [OF x(3)] by simp
qed simp

text \<open>
  The service, end to end. From a started server with a client on the char port, any number of
  exchanges in a row succeed: whenever the client answers each challenge within the timeout, it
  is shown exactly OpenKore's queries, one challenge frame each and in order, and OpenKore reads,
  from connection after connection, exactly the client's responses, each cut to its length field.
\<close>

theorem service_end_to_end:
  assumes "list_all (exchange_ok s) xs"
  shows "let es = Char_connect s # concat (map (exchange_events s) xs);
             os = snd (run sys_step (started_system addr cfg) es)
         in kore_reads os = map (\<lambda>x. Some (answer x)) xs
            \<and> client_reads s os = map (\<lambda>x. Some (gg_opcode Challenge, 4 + length (x_query x), x_query x)) xs"
proof -
  have "snd (sys_step (started_system addr cfg) (Char_connect s)) = []"
    by (simp add: sys_step_def)
  then show ?thesis using exchanges_run [OF ready_started assms] by simp
qed

section \<open>The theorems at concrete inputs\<close>

definition call_at :: "int \<Rightarrow> call_env" where
  "call_at ms =
     \<lparr>ce_alive = (\<lambda>s. True), ce_now = 1000000 * ms, ce_now2 = 1000000 * ms, ce_percent = 100,
      ce_tick = 0, ce_login = sample_login_env\<rparr>"

lemma query_without_client_ends_channel_witness:
  "Kore 0 [1] \<notin> set (snd (run sys_step
     (fst (run sys_step (started_system None sample_config) [Char_connect 1, Char_disconnect 1, Bus_event (call_at 0) 0 (C_accepted True)]))
     (bus_reads (call_at 1) [0, 0, 0, 6, 9, 0] @ [Char_connect 2, Bus_event (call_at 2) 0 C_error])))"
proof -
  let ?t0 = "started_system None sample_config"
  define t1 where "t1 = fst (run sys_step ?t0 [Char_connect 1, Char_disconnect 1])"
  define t where "t = fst (run sys_step ?t0 [Char_connect 1, Char_disconnect 1, Bus_event (call_at 0) 0 (C_accepted True)])"
  have f: "t_query t1 = started_server" "\<not> halted t1" "g_wire (t_bridge t1) = None"
    by (simp_all add: t1_def sys_step_def started_alive halted_def started_query started_fields
        char_on_connect_def char_on_disconnect_def bindClientWire_def Let_def started_server_fields)
  have "t = fst (sys_step t1 (Bus_event (call_at 0) 0 (C_accepted True)))" by (simp add: t_def t1_def)
  then have "t = t1\<lparr>t_query := started_server\<lparr>qs_sock := Some (0, True), qs_ops := [Read_len_op 0]\<rparr>\<rparr>"
    using connect_peer [OF f(2), of 0] by (simp add: f(1) started_server_fields)
  then have t: "\<not> halted t" "qs_ops (t_query t) = [Read_len_op 0]" "g_wire (t_bridge t) = None"
    using f by (simp_all add: halted_def started_server_fields)
  have "bus_cut [0, 0, 0, 6, 9, 0] = Cut [0, 0, 0, 6, 9, 0] []" by (simp add: bus_cut_def rd_be32_def Let_def)
  from query_without_client_ends_channel [OF t_def t this] show ?thesis unfolding t_def by blast
qed

lemma stale_disconnect_ends_channel_witness:
  "Kore 0 [1] \<notin> set (snd (run sys_step (started_system None sample_config)
    ([Login_connect 1, Char_connect 2, Login_disconnect 1, Bus_event (call_at 0) 0 (C_accepted True)]
     @ bus_reads (call_at 0) (kore_frame [5]) @ [Char_data (call_at 1) 2 [0xD0, 0x09, 0x04, 0]])))"
  by (rule stale_disconnect_ends_channel) simp

definition sample_exchange :: exchange where
  "sample_exchange = \<lparr>x_ask = call_at 0, x_answer = call_at 2000, x_query = [1, 2],
     x_response = [0xD0, 0x09, 0x06, 0x00, 7, 7]\<rparr>"

lemma sample_exchange_ok: "exchange_ok 1 sample_exchange"
  by (simp add: exchange_ok_def sample_exchange_def call_at_def after_ms_def kConfiguredTimeout_def
      gg_response_def rd16le_def)

lemma service_end_to_end_witness:
  "kore_reads (snd (run sys_step (started_system None sample_config)
      (Char_connect 1 # concat (map (exchange_events 1) [sample_exchange, sample_exchange]))))
   = [Some [0xD0, 0x09, 0x06, 0x00, 7, 7], Some [0xD0, 0x09, 0x06, 0x00, 7, 7]]"
proof -
  have "list_all (exchange_ok 1) [sample_exchange, sample_exchange]" using sample_exchange_ok by simp
  moreover have "answer sample_exchange = [0xD0, 0x09, 0x06, 0x00, 7, 7]"
    by (simp add: answer_def sample_exchange_def trim_to_pkt_len_def rd16le_def Let_def)
  ultimately show ?thesis using service_end_to_end [of 1 "[sample_exchange, sample_exchange]" None sample_config]
    by (simp add: Let_def del: run_snd_Cons)
qed

lemma one_operation_at_a_time_witness:
  "let t = fst (run sys_step (started_system None sample_config) (Char_connect 1 # ask_events sample_exchange))
   in g_pending (t_bridge t) \<and> qs_ops (t_query t) = [] \<and> (\<exists>k. qs_sock (t_query t) = Some (k, True))"
proof -
  define es where "es = Char_connect 1 # ask_events sample_exchange"
  let ?t0 = "started_system None sample_config"
  let ?u = "fst (sys_step ?t0 (Char_connect 1))"
  obtain t1 t2 t3 where "sys_step ?u (Bus_event (x_ask sample_exchange) 0 (C_accepted True)) = (t1, [])"
    "sys_step t1 (Bus_event (x_ask sample_exchange) 0 (C_bytes (take 4 (kore_frame (x_query sample_exchange))))) = (t2, [])"
    "sys_step t2 (Bus_event (x_ask sample_exchange) 0 (C_bytes (drop 4 (kore_frame (x_query sample_exchange)))))
      = (t3, [Net (Send 1 (fst (frame_gg_query (x_query sample_exchange))))])"
    "asked 1 0 (after_ms (ce_now (x_ask sample_exchange)) kConfiguredTimeout) t3"
    by (rule exchange_asks [OF ready_started sample_exchange_ok])
  then have "g_pending (t_bridge (fst (run sys_step ?t0 es)))"
    by (simp add: es_def ask_events_def bus_reads_def asked_def)
  then show ?thesis
    using one_operation_at_a_time [of None sample_config es] unfolding es_def [symmetric] by (simp add: Let_def)
qed

end
