(* ===== verification/Presentation.thy ===== *)
theory Presentation
  imports Environment Char_Flow
begin

text \<open>
  The cards printed at start: \<open>shared/terminal\<close> (ANSI tokens, visible width, repetition of a glyph),
  \<open>infrastructure/presentation\<close> (\<open>CardBuilder.hpp\<close>, \<open>StartupSummary.cpp\<close>) and the signature of
  \<open>shared/BuildInfo.hpp\<close>. A string is its sequence of UTF-8 bytes; what a card prints is the list of
  its lines.
\<close>

section \<open>Terminal text\<close>

definition ESC :: char where "ESC = CHR 0x1B"

definition ansi :: "string \<Rightarrow> string" where "ansi code = ESC # CHR ''['' # code @ ''m''"

definition ansi_reset :: string where "ansi_reset = ansi ''0''"
definition ansi_bold :: string where "ansi_bold = ansi ''1''"
definition ansi_dim :: string where "ansi_dim = ansi ''2''"
definition ansi_red :: string where "ansi_red = ansi ''31''"
definition ansi_green :: string where "ansi_green = ansi ''32''"
definition ansi_yellow :: string where "ansi_yellow = ansi ''33''"
definition ansi_mag :: string where "ansi_mag = ansi ''35''"
definition ansi_cyan :: string where "ansi_cyan = ansi ''36''"
definition ansi_white :: string where "ansi_white = ansi ''37''"

function strip_ansi :: "string \<Rightarrow> string" where
  "strip_ansi [] = []"
| "strip_ansi (c # s) =
     (if c = ESC then strip_ansi (drop 1 (dropWhile (\<lambda>x. x \<noteq> CHR ''m'') (c # s)))
      else c # strip_ansi s)"
  by pat_completeness auto
termination
proof (relation "measure length")
  fix c :: char and s :: string
  assume "c = ESC"
  then have "dropWhile (\<lambda>x. x \<noteq> CHR ''m'') (c # s) = dropWhile (\<lambda>x. x \<noteq> CHR ''m'') s" by (simp add: ESC_def)
  then show "(drop 1 (dropWhile (\<lambda>x. x \<noteq> CHR ''m'') (c # s)), c # s) \<in> measure length"
    using length_dropWhile_le [of "\<lambda>x. x \<noteq> CHR ''m''" s] by simp
qed auto

definition head_byte :: "char \<Rightarrow> bool" where
  "head_byte c \<longleftrightarrow> u8_of_char c AND 0xC0 \<noteq> 0x80"

definition visible_width_utf8 :: "string \<Rightarrow> nat" where
  "visible_width_utf8 s = length (filter head_byte s)"

definition vis_cols :: "string \<Rightarrow> nat" where
  "vis_cols s = visible_width_utf8 (strip_ansi s)"

definition repeat_utf8 :: "string \<Rightarrow> nat \<Rightarrow> string" where
  "repeat_utf8 g n = concat (replicate n g)"

text \<open>The box glyphs, three bytes each.\<close>

definition box_glyph :: "char \<Rightarrow> string" where "box_glyph c = [CHR 0xE2, CHR 0x94, c]"

definition g_h :: string where "g_h = box_glyph (CHR 0x80)"
definition g_v :: string where "g_v = box_glyph (CHR 0x82)"
definition g_tl :: string where "g_tl = box_glyph (CHR 0x8C)"
definition g_tr :: string where "g_tr = box_glyph (CHR 0x90)"
definition g_bl :: string where "g_bl = box_glyph (CHR 0x94)"
definition g_br :: string where "g_br = box_glyph (CHR 0x98)"
definition g_ml :: string where "g_ml = box_glyph (CHR 0x9C)"
definition g_mr :: string where "g_mr = box_glyph (CHR 0xA4)"

definition spaces :: "nat \<Rightarrow> string" where "spaces n = replicate n (CHR '' '')"

section \<open>The card builder\<close>

record BannerTheme =
  th_color :: bool
  th_utf8_box :: bool
  th_pad_lr :: nat
  th_accent :: string
  th_reset :: string

record CardBuilder =
  cb_theme :: BannerTheme
  cb_inner :: nat

definition box_width :: "CardBuilder \<Rightarrow> nat" where
  "box_width b = cb_inner b + th_pad_lr (cb_theme b) * 2"

definition card_top :: "CardBuilder \<Rightarrow> string" where
  "card_top b =
     (if th_utf8_box (cb_theme b) then g_tl @ repeat_utf8 g_h (box_width b) @ g_tr
      else ''+'' @ replicate (box_width b) (CHR ''-'') @ ''+'')"

definition card_sep :: "CardBuilder \<Rightarrow> string" where
  "card_sep b =
     (if th_utf8_box (cb_theme b) then g_ml @ repeat_utf8 g_h (box_width b) @ g_mr
      else ''+'' @ replicate (box_width b) (CHR ''-'') @ ''+'')"

definition card_bot :: "CardBuilder \<Rightarrow> string" where
  "card_bot b =
     (if th_utf8_box (cb_theme b) then g_bl @ repeat_utf8 g_h (box_width b) @ g_br
      else ''+'' @ replicate (box_width b) (CHR ''-'') @ ''+'')"

definition wrap_line :: "CardBuilder \<Rightarrow> string \<Rightarrow> string" where
  "wrap_line b s =
     (if th_utf8_box (cb_theme b) then g_v else ''|'') @ s @ (if th_utf8_box (cb_theme b) then g_v else ''|'')"

definition pad_line :: "CardBuilder \<Rightarrow> string \<Rightarrow> string" where
  "pad_line b raw =
     (let vis = vis_cols raw; pad = cb_inner b - vis
      in spaces (th_pad_lr (cb_theme b)) @ raw @ spaces pad @ spaces (th_pad_lr (cb_theme b)))"

definition centered_title :: "CardBuilder \<Rightarrow> string \<Rightarrow> string" where
  "centered_title b title =
     (let t = cb_theme b;
          tw = vis_cols title;
          pad_total = cb_inner b - (tw + 2);
          left = pad_total div 2;
          right = pad_total - left;
          leftFill = (if th_utf8_box t then repeat_utf8 g_h left else replicate left (CHR ''-''));
          rightFill = (if th_utf8_box t then repeat_utf8 g_h right else replicate right (CHR ''-''))
      in wrap_line b (spaces (th_pad_lr t) @ th_accent t @ leftFill @ th_reset t @ '' '' @ title @ '' ''
           @ th_accent t @ rightFill @ th_reset t @ spaces (th_pad_lr t)))"

definition max_visible_width :: "string list \<Rightarrow> nat" where
  "max_visible_width ls = foldl (\<lambda>m s. max m (vis_cols s)) 0 ls"

section \<open>The startup summary\<close>

record StartupSummary =
  ss_ro_host :: string
  ss_query_host :: string
  ss_login_port :: u16
  ss_char_port :: u16
  ss_query_port :: u16
  ss_set_index :: nat

definition endpoint :: "string \<Rightarrow> u16 \<Rightarrow> string" where
  "endpoint h p = h @ '':'' @ to_string (unat p)"

definition token :: "bool \<Rightarrow> string \<Rightarrow> string" where
  "token color t = (if color then t else [])"

definition summary_title :: "bool \<Rightarrow> string" where
  "summary_title color =
     token color ansi_red @ ''Thanatos'' @ token color ansi_green @ '' Online'' @ token color ansi_reset"

definition summary_index :: "bool \<Rightarrow> StartupSummary \<Rightarrow> string" where
  "summary_index color s =
     token color ansi_dim @ (token color ansi_cyan @ ''Selected port set index'' @ token color ansi_reset
       @ '' : '' @ token color ansi_bold @ to_string (ss_set_index s) @ token color ansi_reset)
     @ token color ansi_reset"

definition summary_labels :: "bool \<Rightarrow> string list" where
  "summary_labels color =
     map (\<lambda>l. token color ansi_cyan @ l @ token color ansi_reset) [''RO Login'', ''RO Char '', ''Query BUS'']"

definition pad_label :: "bool \<Rightarrow> string \<Rightarrow> string" where
  "pad_label color lbl =
     (let label_w = max_visible_width (summary_labels color)
      in lbl @ spaces (label_w - vis_cols lbl))"

definition summary_row :: "bool \<Rightarrow> string \<Rightarrow> string \<Rightarrow> u16 \<Rightarrow> string" where
  "summary_row color lbl h p =
     pad_label color lbl @ '' : '' @ token color ansi_yellow @ endpoint h p @ token color ansi_reset"

definition summary_rows :: "bool \<Rightarrow> StartupSummary \<Rightarrow> string list" where
  "summary_rows color s =
     [summary_row color (summary_labels color ! 0) (ss_ro_host s) (ss_login_port s),
      summary_row color (summary_labels color ! 1) (ss_ro_host s) (ss_char_port s),
      summary_row color (summary_labels color ! 2) (ss_query_host s) (ss_query_port s)]"

text \<open>The lines of \<open>print_startup_summary\<close>; the last one is the blank line.\<close>

definition startup_summary :: "StartupSummary \<Rightarrow> bool \<Rightarrow> bool \<Rightarrow> int \<Rightarrow> string list" where
  "startup_summary s color utf8Box align_to_inner_cols =
     (let title = summary_title color;
          idx = summary_index color s;
          rows = summary_rows color s;
          inner = max_visible_width (title # idx # rows);
          inner = (if align_to_inner_cols > 0 then max inner (nat align_to_inner_cols) else inner);
          theme = \<lparr>th_color = color, th_utf8_box = utf8Box, th_pad_lr = 2,
                   th_accent = token color ansi_green, th_reset = token color ansi_reset\<rparr>;
          card = \<lparr>cb_theme = theme, cb_inner = inner\<rparr>
      in [card_top card, centered_title card title, card_sep card, wrap_line card (pad_line card idx),
          card_sep card] @ map (\<lambda>l. wrap_line card (pad_line card l)) rows @ [card_bot card, []])"

section \<open>The width of concatenations\<close>

text \<open>A piece of text is closed when no escape sequence is left open at its end.\<close>

definition closed :: "string \<Rightarrow> bool" where
  "closed a \<longleftrightarrow> (\<forall>b. strip_ansi (a @ b) = strip_ansi a @ strip_ansi b)"

lemma vis_append: "closed a \<Longrightarrow> vis_cols (a @ b) = vis_cols a + vis_cols b"
  by (simp add: closed_def vis_cols_def visible_width_utf8_def)

lemma closed_append: "closed a \<Longrightarrow> closed b \<Longrightarrow> closed (a @ b)"
  by (simp add: closed_def)

lemma closed_Nil: "closed []" and vis_Nil: "vis_cols [] = 0"
  by (simp_all add: closed_def vis_cols_def visible_width_utf8_def)

lemma plain_strip: "ESC \<notin> set a \<Longrightarrow> strip_ansi (a @ b) = a @ strip_ansi b"
  by (induction a) auto

lemma closed_plain: "ESC \<notin> set a \<Longrightarrow> closed a"
  using plain_strip [of a] plain_strip [of a "[]"] by (simp add: closed_def)

lemma vis_plain: "ESC \<notin> set a \<Longrightarrow> vis_cols a = length (filter head_byte a)"
  using plain_strip [of a "[]"] by (simp add: vis_cols_def visible_width_utf8_def)

lemma strip_code: "CHR ''m'' \<notin> set code \<Longrightarrow> strip_ansi (ansi code @ b) = strip_ansi b"
proof -
  assume "CHR ''m'' \<notin> set code"
  then have "dropWhile (\<lambda>x. x \<noteq> CHR ''m'') (code @ CHR ''m'' # b) = CHR ''m'' # b"
    by (induction code) auto
  then show ?thesis by (simp add: ansi_def ESC_def)
qed

lemma closed_ansi: "CHR ''m'' \<notin> set code \<Longrightarrow> closed (ansi code)"
  and vis_ansi: "CHR ''m'' \<notin> set code \<Longrightarrow> vis_cols (ansi code) = 0"
  using strip_code [of code] strip_code [of code "[]"]
  by (simp_all add: closed_def vis_cols_def visible_width_utf8_def)

named_theorems card_simps "visible widths and closedness of the pieces of a card"

lemma token_ansi [card_simps]:
  "CHR ''m'' \<notin> set code \<Longrightarrow> closed (token c (ansi code))" "CHR ''m'' \<notin> set code \<Longrightarrow> vis_cols (token c (ansi code)) = 0"
  by (simp_all add: token_def closed_ansi vis_ansi closed_Nil vis_Nil)

lemma Cons_card [card_simps]:
  "c \<noteq> ESC \<Longrightarrow> closed (c # s) = closed s" "c \<noteq> ESC \<Longrightarrow> vis_cols (c # s) = of_bool (head_byte c) + vis_cols s"
  by (simp_all add: closed_def vis_cols_def visible_width_utf8_def)

lemmas literal_card = ESC_def head_byte_def u8_of_char_def closed_Nil vis_Nil

lemma spaces_card [card_simps]: "closed (spaces n)" "vis_cols (spaces n) = n"
proof -
  have "ESC \<notin> set (spaces n)" by (simp add: spaces_def ESC_def)
  moreover have "filter head_byte (spaces n) = spaces n"
    by (simp add: spaces_def head_byte_def u8_of_char_def)
  ultimately show "closed (spaces n)" "vis_cols (spaces n) = n"
    by (simp_all add: closed_plain vis_plain) (simp add: spaces_def)
qed

lemma dashes_card [card_simps]: "closed (replicate n (CHR ''-''))" "vis_cols (replicate n (CHR ''-'')) = n"
  by (simp_all add: closed_plain vis_plain ESC_def head_byte_def u8_of_char_def)

lemma glyph_card:
  assumes "u8_of_char c AND 0xC0 = 0x80"
  shows "closed (box_glyph c)" and "vis_cols (box_glyph c) = 1"
proof -
  have "c \<noteq> ESC" using assms by (auto simp: ESC_def u8_of_char_def)
  then have "ESC \<notin> set (box_glyph c)" by (auto simp: box_glyph_def ESC_def)
  then show "closed (box_glyph c)" and "vis_cols (box_glyph c) = 1"
    using assms by (simp_all add: closed_plain vis_plain) (simp add: box_glyph_def head_byte_def u8_of_char_def)
qed

lemma glyphs_card [card_simps]:
  "closed g_h" "closed g_v" "closed g_tl" "closed g_tr" "closed g_bl" "closed g_br" "closed g_ml" "closed g_mr"
  "vis_cols g_h = 1" "vis_cols g_v = 1" "vis_cols g_tl = 1" "vis_cols g_tr = 1" "vis_cols g_bl = 1"
  "vis_cols g_br = 1" "vis_cols g_ml = 1" "vis_cols g_mr = 1"
  unfolding g_h_def g_v_def g_tl_def g_tr_def g_bl_def g_br_def g_ml_def g_mr_def
  by (rule glyph_card; simp add: u8_of_char_def)+

lemma repeat_card [card_simps]: "closed (repeat_utf8 g_h n)" "vis_cols (repeat_utf8 g_h n) = n"
proof -
  have "closed (repeat_utf8 g_h n) \<and> vis_cols (repeat_utf8 g_h n) = n"
    by (induction n) (simp_all add: repeat_utf8_def closed_Nil vis_Nil closed_append vis_append glyphs_card)
  then show "closed (repeat_utf8 g_h n)" "vis_cols (repeat_utf8 g_h n) = n" by simp_all
qed

lemma frames_card [card_simps]:
  "closed ''+''" "vis_cols ''+'' = 1" "closed ''|''" "vis_cols ''|'' = 1" "closed '' ''" "vis_cols '' '' = 1"
  by (simp_all add: closed_plain vis_plain ESC_def head_byte_def u8_of_char_def)

lemma rule_width:
  "vis_cols (card_top b) = box_width b + 2" "vis_cols (card_sep b) = box_width b + 2"
  "vis_cols (card_bot b) = box_width b + 2"
  by (simp_all add: card_top_def card_sep_def card_bot_def vis_append card_simps literal_card)

lemma wrap_width: "closed s \<Longrightarrow> vis_cols (wrap_line b s) = vis_cols s + 2"
  by (simp add: wrap_line_def vis_append card_simps literal_card)

lemma pad_width:
  "closed raw \<Longrightarrow> vis_cols (wrap_line b (pad_line b raw)) = th_pad_lr (cb_theme b) * 2 + max (cb_inner b) (vis_cols raw) + 2"
  by (simp add: wrap_width pad_line_def vis_append closed_append card_simps Let_def)

lemma title_width:
  assumes "closed title" and "closed (th_accent (cb_theme b))" and "vis_cols (th_accent (cb_theme b)) = 0"
    and "closed (th_reset (cb_theme b))" and "vis_cols (th_reset (cb_theme b)) = 0"
  shows "vis_cols (centered_title b title) = th_pad_lr (cb_theme b) * 2 + max (cb_inner b) (vis_cols title + 2) + 2"
  using assms by (simp add: centered_title_def wrap_width vis_append closed_append card_simps literal_card Let_def)

lemma max_visible_width_ge: "l \<in> set ls \<Longrightarrow> vis_cols l \<le> max_visible_width ls"
proof -
  have "m \<le> foldl (\<lambda>m s. max m (vis_cols s)) m ls \<and> (l \<in> set ls \<longrightarrow> vis_cols l \<le> foldl (\<lambda>m s. max m (vis_cols s)) m ls)" for m
  proof (induction ls arbitrary: m)
    case (Cons a ls)
    have "max m (vis_cols a) \<le> foldl (\<lambda>m s. max m (vis_cols s)) (max m (vis_cols a)) ls"
      using Cons.IH [of "max m (vis_cols a)"] by simp
    then show ?case using Cons.IH [of "max m (vis_cols a)"] by auto
  qed simp
  then show "l \<in> set ls \<Longrightarrow> ?thesis" by (simp add: max_visible_width_def)
qed

section \<open>The summary is a rectangle\<close>

lemma to_string_plain: "ESC \<notin> set (to_string n)"
proof (induction n rule: to_string.induct)
  case (1 n)
  have d: "i < 10 \<Longrightarrow> ''0123456789'' ! i \<noteq> ESC" for i :: nat
  proof -
    assume "i < 10"
    then have "''0123456789'' ! i \<in> set ''0123456789''" by (intro nth_mem) simp
    then show ?thesis by (auto simp: ESC_def)
  qed
  show ?case
  proof (cases "n < 10")
    case True
    then show ?thesis using d [of n] by (simp add: to_string.simps [of n])
  next
    case False
    then show ?thesis using 1 d [of "n mod 10"] by (simp add: to_string.simps [of n])
  qed
qed

lemma to_string_card [card_simps]: "closed (to_string n)"
  by (rule closed_plain [OF to_string_plain])

lemma title_card: "closed (summary_title c)" "vis_cols (summary_title c) = 15"
  by (simp_all add: summary_title_def ansi_red_def ansi_green_def ansi_reset_def vis_append closed_append
      card_simps literal_card)

lemma index_card: "closed (summary_index c s)" "17 \<le> vis_cols (summary_index c s)"
  by (simp_all add: summary_index_def ansi_dim_def ansi_cyan_def ansi_bold_def ansi_reset_def vis_append
      closed_append card_simps literal_card)

lemma labels_card: "l \<in> set (summary_labels c) \<Longrightarrow> closed l"
  by (auto simp: summary_labels_def ansi_cyan_def ansi_reset_def closed_append card_simps literal_card)

lemma row_card: "l \<in> set (summary_labels c) \<Longrightarrow> ESC \<notin> set h \<Longrightarrow> closed (summary_row c l h p)"
proof -
  assume l: "l \<in> set (summary_labels c)" and h: "ESC \<notin> set h"
  have e: "closed (endpoint h p)" using h to_string_plain by (intro closed_plain) (auto simp: endpoint_def ESC_def)
  show ?thesis
    using labels_card [OF l] e
    by (simp add: summary_row_def pad_label_def ansi_yellow_def ansi_reset_def closed_append card_simps
        literal_card Let_def)
qed

lemma rows_card:
  assumes "ESC \<notin> set (ss_ro_host s)" and "ESC \<notin> set (ss_query_host s)" and "r \<in> set (summary_rows c s)"
  shows "closed r"
proof -
  have "summary_labels c ! 0 \<in> set (summary_labels c)" "summary_labels c ! 1 \<in> set (summary_labels c)"
      "summary_labels c ! 2 \<in> set (summary_labels c)"
    by (auto simp: summary_labels_def)
  then show ?thesis using assms row_card by (auto simp: summary_rows_def)
qed

text \<open>
  The startup card is a rectangle. For hosts without an escape character, with or without colour
  and in either style of box, every line of the card has the same visible width, and the card is
  at least as wide as the one it is aligned to.
\<close>

theorem startup_card_aligned:
  assumes "ESC \<notin> set (ss_ro_host s)" and "ESC \<notin> set (ss_query_host s)"
  shows "\<exists>w. (\<forall>l \<in> set (butlast (startup_summary s color box align)). vis_cols l = w) \<and> nat align + 6 \<le> w"
proof -
  define lines where "lines = summary_title color # summary_index color s # summary_rows color s"
  define inner where "inner = (if align > 0 then max (max_visible_width lines) (nat align) else max_visible_width lines)"
  define b where "b = \<lparr>cb_theme = \<lparr>th_color = color, th_utf8_box = box, th_pad_lr = 2,
      th_accent = token color ansi_green, th_reset = token color ansi_reset\<rparr>, cb_inner = inner\<rparr>"
  have le: "l \<in> set lines \<Longrightarrow> vis_cols l \<le> inner" for l
    using max_visible_width_ge [of l lines] by (auto simp: inner_def)
  have b: "cb_inner b = inner" "th_pad_lr (cb_theme b) = 2" "box_width b = inner + 4"
    by (simp_all add: b_def box_width_def)
  have th: "closed (th_accent (cb_theme b))" "vis_cols (th_accent (cb_theme b)) = 0"
      "closed (th_reset (cb_theme b))" "vis_cols (th_reset (cb_theme b)) = 0"
    by (simp_all add: b_def ansi_green_def ansi_reset_def card_simps)
  have "summary_index color s \<in> set lines" by (simp add: lines_def)
  then have "17 \<le> inner" using le index_card(2) order_trans by blast
  then have title: "vis_cols (centered_title b (summary_title color)) = inner + 6"
    using title_width [OF title_card(1) th] title_card(2) by (simp add: b)
  have pad: "vis_cols (wrap_line b (pad_line b l)) = inner + 6" if "l \<in> set lines" "closed l" for l
    using pad_width [OF that(2), of b] le [OF that(1)] by (simp add: b)
  have rows: "\<forall>l \<in> set (summary_rows color s). vis_cols (wrap_line b (pad_line b l)) = inner + 6"
    using pad rows_card [OF assms] by (auto simp: lines_def)
  have idx: "vis_cols (wrap_line b (pad_line b (summary_index color s))) = inner + 6"
    by (rule pad) (simp_all add: lines_def index_card)
  have "startup_summary s color box align =
      [card_top b, centered_title b (summary_title color), card_sep b,
       wrap_line b (pad_line b (summary_index color s)), card_sep b]
      @ map (\<lambda>l. wrap_line b (pad_line b l)) (summary_rows color s) @ [card_bot b, []]"
    by (simp add: startup_summary_def b_def inner_def lines_def Let_def)
  then have "\<forall>l \<in> set (butlast (startup_summary s color box align)). vis_cols l = inner + 6"
    using title rows idx by (simp add: butlast_append rule_width b)
  moreover have "nat align + 6 \<le> inner + 6" by (simp add: inner_def)
  ultimately show ?thesis by blast
qed

lemma startup_card_aligned_witness:
  "\<exists>w. (\<forall>l \<in> set (butlast (startup_summary \<lparr>ss_ro_host = ''127.0.0.1'', ss_query_host = ''localhost'',
      ss_login_port = 6900, ss_char_port = 6121, ss_query_port = 24390, ss_set_index = 0\<rparr> True False 48)). vis_cols l = w)
    \<and> nat 48 + 6 \<le> w"
  by (rule startup_card_aligned) (simp_all add: ESC_def)

section \<open>The signature\<close>

definition kVersion :: string where "kVersion = ''0.1.4''"

text \<open>The build profile is fixed by the compiler flags.\<close>

definition kBuildProfile :: "bool \<Rightarrow> string" where
  "kBuildProfile ndebug = (if ndebug then ''Release'' else ''Debug'')"

definition swords :: string where "swords = [CHR 0xE2, CHR 0x9A, CHR 0x94]"
definition en_dash :: string where "en_dash = [CHR 0xE2, CHR 0x80, CHR 0x93]"

definition sig_title :: "bool \<Rightarrow> bool \<Rightarrow> string" where
  "sig_title ndebug c =
     token c ansi_bold @ token c ansi_red @ kProjectName @ token c ansi_reset @ '' '' @ token c ansi_dim
       @ ''('' @ kBuildProfile ndebug @ '')'' @ token c ansi_reset"

definition sig_tagline :: string where
  "sig_tagline = swords @ ''  Forged in chaos. Delivered with precision.''"

definition sig_rows :: "bool \<Rightarrow> string list" where
  "sig_rows c =
     [token c ansi_cyan @ ''Version'' @ token c ansi_reset @ '': '' @ token c ansi_bold @ kVersion @ token c ansi_reset,
      token c ansi_cyan @ ''Author '' @ token c ansi_reset @ '': '' @ ''Rhayden '' @ en_dash @ '' Arkan Software'',
      token c ansi_cyan @ ''Email  '' @ token c ansi_reset @ '': '' @ token c ansi_yellow @ ''Rhayden@arkansoftware.com''
        @ token c ansi_reset,
      token c ansi_cyan @ ''Github '' @ token c ansi_reset @ '': '' @ token c ansi_mag
        @ ''https://github.com/MarcoRhayden/thanatos'' @ token c ansi_reset]"

text \<open>
  \<open>build_signature_with_width\<close>: its \<open>padLine\<close> and rules are those of a card with two columns of
  padding. The result is the lines of the text, the blank ones before and after included, and
  the inner width.
\<close>

definition build_signature :: "bool \<Rightarrow> bool \<Rightarrow> bool \<Rightarrow> string list \<times> nat" where
  "build_signature ndebug color utf8Box =
     (let title = sig_title ndebug color;
          inner = max_visible_width (title # sig_tagline # sig_rows color);
          card = \<lparr>cb_theme = \<lparr>th_color = color, th_utf8_box = utf8Box, th_pad_lr = 2, th_accent = [], th_reset = []\<rparr>,
                  cb_inner = inner\<rparr>;
          padLine = (\<lambda>raw. wrap_line card (pad_line card raw))
      in ([[], card_top card,
           padLine (token color ansi_white @ title @ token color ansi_reset),
           padLine (ansi_dim @ sig_tagline @ token color ansi_reset),
           card_sep card] @ map padLine (sig_rows color) @ [card_bot card, []], inner))"

lemma sig_title_card:
  "closed (token c ansi_white @ sig_title n c @ token c ansi_reset)"
  "vis_cols (token c ansi_white @ sig_title n c @ token c ansi_reset) = vis_cols (sig_title n c)"
proof -
  have t: "closed (sig_title n c)"
    by (simp add: sig_title_def kProjectName_def kBuildProfile_def ansi_bold_def ansi_red_def ansi_reset_def
        ansi_dim_def closed_append card_simps literal_card)
  show "closed (token c ansi_white @ sig_title n c @ token c ansi_reset)"
    by (simp add: ansi_white_def ansi_reset_def closed_append t card_simps)
  show "vis_cols (token c ansi_white @ sig_title n c @ token c ansi_reset) = vis_cols (sig_title n c)"
    by (simp add: ansi_white_def ansi_reset_def vis_append t card_simps)
qed

lemma sig_tagline_card:
  "closed (ansi_dim @ sig_tagline @ token c ansi_reset)"
  "vis_cols (ansi_dim @ sig_tagline @ token c ansi_reset) = vis_cols sig_tagline"
proof -
  have d: "closed ansi_dim" "vis_cols ansi_dim = 0" by (simp_all add: ansi_dim_def closed_ansi vis_ansi)
  have t: "closed sig_tagline" by (simp add: sig_tagline_def swords_def card_simps literal_card)
  show "closed (ansi_dim @ sig_tagline @ token c ansi_reset)"
    by (simp add: ansi_reset_def closed_append d t card_simps)
  show "vis_cols (ansi_dim @ sig_tagline @ token c ansi_reset) = vis_cols sig_tagline"
    by (simp add: ansi_reset_def vis_append d t card_simps)
qed

lemma sig_rows_card: "r \<in> set (sig_rows c) \<Longrightarrow> closed r"
  by (auto simp: sig_rows_def ansi_cyan_def ansi_reset_def ansi_bold_def ansi_yellow_def ansi_mag_def kVersion_def
      en_dash_def closed_append card_simps literal_card)

text \<open>
  The signature card is a rectangle in every configuration, of the inner width it reports; but
  asking for no colour does not give plain text: the tagline is dimmed by an escape sequence
  nothing resets.
\<close>

theorem signature_card_aligned:
  "\<forall>l \<in> set (butlast (tl (fst (build_signature n c box)))). vis_cols l = snd (build_signature n c box) + 6"
  "ESC \<in> set (concat (fst (build_signature n False box)))"
proof -
  define lines where "lines = sig_title n c # sig_tagline # sig_rows c"
  define b where "b = \<lparr>cb_theme = \<lparr>th_color = c, th_utf8_box = box, th_pad_lr = 2, th_accent = [], th_reset = []\<rparr>,
      cb_inner = max_visible_width lines\<rparr>"
  have b: "cb_inner b = max_visible_width lines" "th_pad_lr (cb_theme b) = 2" "box_width b = max_visible_width lines + 4"
    by (simp_all add: b_def box_width_def)
  have pad: "vis_cols (wrap_line b (pad_line b l)) = max_visible_width lines + 6"
    if "closed l" "l' \<in> set lines" "vis_cols l = vis_cols l'" for l l'
    using pad_width [OF that(1), of b] max_visible_width_ge [OF that(2)] that(3) by (simp add: b)
  have title: "vis_cols (wrap_line b (pad_line b (token c ansi_white @ sig_title n c @ token c ansi_reset)))
      = max_visible_width lines + 6"
    by (rule pad [OF sig_title_card(1) _ sig_title_card(2)]) (simp add: lines_def)
  have tag: "vis_cols (wrap_line b (pad_line b (ansi_dim @ sig_tagline @ token c ansi_reset)))
      = max_visible_width lines + 6"
    by (rule pad [OF sig_tagline_card(1) _ sig_tagline_card(2)]) (simp add: lines_def)
  have rows: "\<forall>l \<in> set (sig_rows c). vis_cols (wrap_line b (pad_line b l)) = max_visible_width lines + 6"
    using pad sig_rows_card by (auto simp: lines_def)
  have "build_signature n c box =
      ([[], card_top b, wrap_line b (pad_line b (token c ansi_white @ sig_title n c @ token c ansi_reset)),
        wrap_line b (pad_line b (ansi_dim @ sig_tagline @ token c ansi_reset)), card_sep b]
       @ map (\<lambda>l. wrap_line b (pad_line b l)) (sig_rows c) @ [card_bot b, []], max_visible_width lines)"
    by (simp add: build_signature_def b_def lines_def Let_def)
  then show "\<forall>l \<in> set (butlast (tl (fst (build_signature n c box)))). vis_cols l = snd (build_signature n c box) + 6"
    using title tag rows by (simp add: butlast_append rule_width b)
  show "ESC \<in> set (concat (fst (build_signature n False box)))"
    by (simp add: build_signature_def wrap_line_def pad_line_def ansi_dim_def ansi_def Let_def)
qed

end
