(* ===== verification/Bootstrap.thy ===== *)
theory Bootstrap
  imports Server Presentation
begin

text \<open>
  Logging set-up and the entry point: \<open>infrastructure/log/Logger.cpp\<close>, \<open>bootstrap/Main.cpp\<close> and
  \<open>infrastructure/terminal/Console.cpp\<close>. The logging library is not part of the repository: what the
  wrapper asks of it (sinks with their levels, the level of the logger, a message at a level) is
  recorded, and its parser of level names and the failure of its file sink are arguments. How
  \<open>io_context::run\<close> ends is an argument of \<open>main\<close>.
\<close>

section \<open>Logger\<close>

datatype platform = Windows | Linux | Other_platform

datatype log_sink =
    Console_sink
  | File_sink string nat int
  | Msvc_sink
  | Syslog_sink string

datatype LogStyle = Default_style | Unformatted

text \<open>Levels are those of spdlog: trace, debug, info, warn, err, critical, off are 0 to 6.\<close>

record logger =
  lg_cfg :: Config
  lg_name :: string
  lg_sinks :: "(log_sink \<times> int) list"
  lg_level :: int

datatype log_call = Plain_output string | Spdlog int string

definition parse_level :: "(string \<Rightarrow> int) \<Rightarrow> string \<Rightarrow> int" where
  "parse_level from_str s = (let l = from_str s in if l = 6 \<and> s \<noteq> ''off'' then 2 else l)"

definition print_unformatted :: "string \<Rightarrow> string" where
  "print_unformatted msg =
     msg @ (if msg = [] \<or> last msg \<noteq> CHR 0x0A then [CHR 0x0A] else [])"

definition is_unformatted :: "LogStyle \<Rightarrow> bool" where
  "is_unformatted s \<longleftrightarrow> s = Unformatted"

definition initial_logger :: logger where
  "initial_logger = \<lparr>lg_cfg = default_Config, lg_name = [], lg_sinks = [(Console_sink, 0)], lg_level = 2\<rparr>"

definition setConfig :: "Config \<Rightarrow> logger \<Rightarrow> logger" where
  "setConfig cfg g = g\<lparr>lg_cfg := cfg\<rparr>"

definition logger_init ::
  "(string \<Rightarrow> int) \<Rightarrow> platform \<Rightarrow> bool \<Rightarrow> string \<Rightarrow> string \<Rightarrow> bool \<Rightarrow> string \<Rightarrow> nat \<Rightarrow> int \<Rightarrow> logger \<Rightarrow> logger" where
  "logger_init from_str plat file_ok svc level to_file file_path max_size_bytes max_files g =
     (let configured = parse_level from_str level;
          console_level = (if debug (lg_cfg g) then 1 else configured);
          file_level = (if debug (lg_cfg g) then 1 else configured);
          sinks = [(Console_sink, console_level)]
      in if to_file \<and> file_path \<noteq> [] \<and> \<not> file_ok then
           g\<lparr>lg_name := ''fallback'', lg_sinks := [(Console_sink, 0)], lg_level := 1\<rparr>
         else
           (let sinks = (if to_file \<and> file_path \<noteq> []
                         then sinks @ [(File_sink file_path max_size_bytes max_files, file_level)] else sinks);
                sinks = (case plat of Windows \<Rightarrow> sinks @ [(Msvc_sink, 1)]
                         | Linux \<Rightarrow> sinks @ [(Syslog_sink svc, 1)] | Other_platform \<Rightarrow> sinks)
            in g\<lparr>lg_name := svc, lg_sinks := sinks,
                 lg_level := (if debug (lg_cfg g) then 1 else configured)\<rparr>))"

definition log_info :: "string \<Rightarrow> LogStyle \<Rightarrow> log_call list" where
  "log_info msg style = (if is_unformatted style then [Plain_output (print_unformatted msg)] else [Spdlog 2 msg])"

definition log_warn :: "string \<Rightarrow> LogStyle \<Rightarrow> log_call list" where
  "log_warn msg style = (if is_unformatted style then [Plain_output (print_unformatted msg)] else [Spdlog 3 msg])"

definition log_debug :: "logger \<Rightarrow> string \<Rightarrow> LogStyle \<Rightarrow> log_call list" where
  "log_debug g msg style =
     (if is_unformatted style then [Plain_output (print_unformatted msg)]
      else if debug (lg_cfg g) then [Spdlog 1 msg] else [])"

definition log_error :: "string \<Rightarrow> LogStyle \<Rightarrow> log_call list" where
  "log_error msg style = (if is_unformatted style then [Plain_output (print_unformatted msg)] else [Spdlog 4 msg])"

section \<open>Main\<close>

definition kConfigFlag :: string where "kConfigFlag = ''--config''"
definition kDefaultConfigPath :: string where "kDefaultConfigPath = ''config/thanatos.toml''"

fun config_path_from :: "string list \<Rightarrow> string" where
  "config_path_from (a # b # r) = (if a = kConfigFlag then b else config_path_from (b # r))"
| "config_path_from _ = kDefaultConfigPath"

definition GetConfigPathFromArgs :: "string list \<Rightarrow> string" where
  "GetConfigPathFromArgs argv = config_path_from (tl argv)"

record signal_state =
  g_shutdown :: bool
  g_io_ptr :: bool
  io_stopped :: bool

definition HandleSignal :: "signal_state \<Rightarrow> signal_state" where
  "HandleSignal s =
     (let s = s\<lparr>g_shutdown := True\<rparr> in if g_io_ptr s then s\<lparr>io_stopped := True\<rparr> else s)"

definition locale_is_utf8 :: bool where "locale_is_utf8 = True"

datatype run_outcome = Returned | Threw_exception | Threw_other

record main_env =
  me_exists :: "string \<Rightarrow> bool"
  me_from_str :: "string \<Rightarrow> int"
  me_platform :: platform
  me_file_ok :: bool
  me_ndebug :: bool
  me_address :: "string \<Rightarrow> bytes option"
  me_sets :: "nat \<Rightarrow> set_env"
  me_run :: "ragnarok_server \<Rightarrow> run_outcome \<times> ragnarok_server"

datatype main_effect =
    Logging logger
  | Signature "string list"
  | Summary "string list"
  | Stopped ragnarok_server
  | Bye
  | Fatal

definition summary_of :: "BindingInfo \<Rightarrow> StartupSummary" where
  "summary_of b =
     \<lparr>ss_ro_host = bi_ro_host b, ss_query_host = bi_query_host b, ss_login_port = bi_login_port b,
      ss_char_port = bi_char_port b, ss_query_port = bi_query_port b, ss_set_index = bi_set_index b\<rparr>"

definition exit_code :: "run_outcome \<Rightarrow> int" where
  "exit_code out = (case out of Returned \<Rightarrow> 0 | Threw_exception \<Rightarrow> 1 | Threw_other \<Rightarrow> 2)"

text \<open>
  The exit code and the visible effects, in order. \<open>me_run\<close> is \<open>io_context::run\<close> on the started server: how
  it ends and the server it leaves.
\<close>

definition main_program ::
  "'n toml_api \<Rightarrow> (string \<Rightarrow> 'n option) \<Rightarrow> main_env \<Rightarrow> string list \<Rightarrow> int \<times> main_effect list" where
  "main_program A parse e argv =
     (let cfgPath = GetConfigPathFromArgs argv
      in case LoadConfig A (me_exists e) parse cfgPath of
           Inl err \<Rightarrow> (1, [Fatal])
         | Inr config \<Rightarrow>
             (let lg = setConfig config initial_logger;
                  lg = logger_init (me_from_str e) (me_platform e) (me_file_ok e) (service_name config)
                         (log_level config) (log_to_file config) (log_file config)
                         (log_max_size_bytes config) (log_max_files config) lg;
                  utf8 = locale_is_utf8;
                  color = (True \<and> utf8);
                  (sig_blob, sig_inner) = build_signature (me_ndebug e) color utf8;
                  shown = [Logging lg, Signature sig_blob]
              in case server_start (me_sets e) (new_ragnarok_server (me_address e (ro_host config)) config) of
                   Inl err \<Rightarrow> (1, shown @ [Fatal])
                 | Inr ro \<Rightarrow>
                     (let shown = shown @
                            (case active_binding ro of
                               Some b \<Rightarrow> [Summary (startup_summary (summary_of b) color utf8 (int sig_inner))]
                             | None \<Rightarrow> [])
                      in case me_run e ro of
                           (Threw_exception, ro) \<Rightarrow> (1, shown @ [Fatal])
                         | (Threw_other, ro) \<Rightarrow> (2, shown @ [Fatal])
                         | (Returned, ro) \<Rightarrow> (0, shown @ [Stopped (server_stop ro), Bye]))))"

section \<open>Logging\<close>

text \<open>
  Logging is console logging at level info, or debug in debug mode. Whatever configuration
  loads, the logger main sets up writes to the console and the sink of its platform and to no
  file; without the debug flag of the configuration no debug message is passed on, and no value of
  a level in the file changes that.
\<close>

theorem logging_setup:
  assumes "LoadConfig A ex parse path = Inr cfg" and "from_str ''info'' = 2"
  shows "let g = logger_init from_str plat ok (service_name cfg) (log_level cfg) (log_to_file cfg) (log_file cfg)
                   (log_max_size_bytes cfg) (log_max_files cfg) (setConfig cfg initial_logger)
     in lg_level g = (if debug cfg then 1 else 2) \<and> lg_name g = service_name cfg
        \<and> map fst (lg_sinks g) = Console_sink #
            (case plat of Windows \<Rightarrow> [Msvc_sink] | Linux \<Rightarrow> [Syslog_sink (service_name cfg)] | Other_platform \<Rightarrow> [])
        \<and> log_debug g msg Default_style = (if debug cfg then [Spdlog 1 msg] else [])"
proof -
  have "log_level cfg = ''info'' \<and> \<not> log_to_file cfg"
    using LoadConfig_outside [OF assms(1)] by (simp add: outside_sections_def default_Config_def)
  then show ?thesis
    using assms(2) by (cases plat) (simp_all add: logger_init_def setConfig_def parse_level_def log_debug_def
        is_unformatted_def Let_def)
qed

lemma logging_setup_witness:
  "\<exists>cfg. LoadConfig doc_api (\<lambda>_. True) (\<lambda>_. Some sample_doc) ''t.toml'' = Inr cfg
     \<and> (let g = logger_init (\<lambda>s. if s = ''info'' then 2 else 6) Linux False (service_name cfg) (log_level cfg)
              (log_to_file cfg) (log_file cfg) (log_max_size_bytes cfg) (log_max_files cfg) (setConfig cfg initial_logger)
        in map fst (lg_sinks g) = [Console_sink, Syslog_sink (service_name cfg)])"
proof -
  obtain cfg where c: "LoadConfig doc_api (\<lambda>_. True) (\<lambda>_. Some sample_doc) ''t.toml'' = Inr cfg"
    using sample_doc_loads by blast
  show ?thesis
    using logging_setup [OF c, of "\<lambda>s. if s = ''info'' then 2 else 6" Linux False "[]"] c by (simp add: Let_def)
qed

section \<open>The program\<close>

lemma config_path_flag:
  "kConfigFlag \<notin> set pre \<Longrightarrow> config_path_from (pre @ kConfigFlag # p # r) = p"
proof (induction pre)
  case (Cons a pre)
  then show ?case by (cases pre) auto
qed simp

lemma config_path_default: "kConfigFlag \<notin> set args \<Longrightarrow> config_path_from args = kDefaultConfigPath"
  by (induction args rule: config_path_from.induct) auto

lemma main_program_started:
  assumes "LoadConfig A (me_exists e) parse (GetConfigPathFromArgs argv) = Inr cfg"
    and "server_start (me_sets e) (new_ragnarok_server (me_address e (ro_host cfg)) cfg) = Inr ro"
    and "rs_binding ro = Some b"
  obtains lg blob n where "main_program A parse e argv =
    (exit_code (fst (me_run e ro)),
     [Logging lg, Signature blob, Summary (startup_summary (summary_of b) True True n)]
     @ (if fst (me_run e ro) = Returned then [Stopped (server_stop (snd (me_run e ro))), Bye] else [Fatal]))"
proof -
  obtain blob inner where sig: "build_signature (me_ndebug e) True True = (blob, inner)" by fastforce
  show ?thesis
    using that by (cases "me_run e ro"; cases "fst (me_run e ro)")
      (simp_all add: main_program_def assms locale_is_utf8_def sig Let_def exit_code_def)
qed

lemma main_program_not_started:
  assumes "LoadConfig A (me_exists e) parse (GetConfigPathFromArgs argv) = Inr cfg"
    and "server_start (me_sets e) (new_ragnarok_server (me_address e (ro_host cfg)) cfg) = Inl er"
  obtains lg blob where "main_program A parse e argv = (1, [Logging lg, Signature blob, Fatal])"
proof -
  obtain blob inner where sig: "build_signature (me_ndebug e) True True = (blob, inner)" by fastforce
  show ?thesis using that by (simp add: main_program_def assms locale_is_utf8_def sig Let_def)
qed

text \<open>The binding of a port set.\<close>

definition binding_of_set :: "Config \<Rightarrow> nat \<Rightarrow> BindingInfo" where
  "binding_of_set cfg k =
     \<lparr>bi_ro_host = ro_host cfg, bi_query_host = query_host cfg, bi_login_port = login_ports cfg ! k,
      bi_char_port = char_ports cfg ! k, bi_query_port = query_ports cfg ! k, bi_set_index = k\<rparr>"

lemma program_on_set:
  assumes "LoadConfig A (me_exists e) parse (GetConfigPathFromArgs argv) = Inr cfg"
    and "k < port_sets cfg" and "set_binds (me_sets e) k" and "\<forall>j < k. \<not> set_binds (me_sets e) j"
  obtains ro lg blob n where "server_start (me_sets e) (new_ragnarok_server (me_address e (ro_host cfg)) cfg) = Inr ro"
    and "qs_listening (t_query (rs_system ro)) \<longleftrightarrow> se_query (me_sets e k) = (True, True, True, True)"
    and "rs_binding ro = Some (binding_of_set cfg k)"
    and "main_program A parse e argv =
      (exit_code (fst (me_run e ro)),
       [Logging lg, Signature blob, Summary (startup_summary (summary_of (binding_of_set cfg k)) True True n)]
       @ (if fst (me_run e ro) = Returned then [Stopped (server_stop (snd (me_run e ro))), Bye] else [Fatal]))"
proof -
  let ?r = "new_ragnarok_server (me_address e (ro_host cfg)) cfg"
  have c: "rs_cfg ?r = cfg" by (simp add: new_ragnarok_server_def)
  obtain d where s: "server_start (me_sets e) ?r = Inr (promote (?r\<lparr>rs_dangling := d\<rparr>) (start_query (se_query (me_sets e k)))
      (fresh_listener (login_ports cfg ! k)) (fresh_listener (char_ports cfg ! k))
      (login_ports cfg ! k) (char_ports cfg ! k) (query_ports cfg ! k) k)" (is "_ = Inr ?ro")
    using server_start_first [of k ?r "me_sets e"] assms(2-4) c by auto
  have q: "qs_listening (t_query (rs_system ?ro)) \<longleftrightarrow> se_query (me_sets e k) = (True, True, True, True)"
    by (cases "se_query (me_sets e k)")
       (auto simp: promote_fields start_query_def onQuery_def qs_start_def new_query_server_def async_accept_def arm_def Let_def)
  have b: "rs_binding ?ro = Some (binding_of_set cfg k)" by (simp add: promote_fields c binding_of_set_def)
  show ?thesis by (rule main_program_started [OF assms(1) s b]) (rule that [OF s q b])
qed

lemma program_on_no_set:
  assumes "LoadConfig A (me_exists e) parse (GetConfigPathFromArgs argv) = Inr cfg"
    and "\<forall>k < port_sets cfg. \<not> set_binds (me_sets e) k"
  obtains lg blob where "main_program A parse e argv = (1, [Logging lg, Signature blob, Fatal])"
proof -
  let ?r = "new_ragnarok_server (me_address e (ro_host cfg)) cfg"
  have "rs_cfg ?r = cfg" by (simp add: new_ragnarok_server_def)
  then have "\<exists>er. server_start (me_sets e) ?r = Inl er"
    using assms(2) try_sets_fails [of 0 "port_sets cfg" "me_sets e" ?r]
    by (simp add: server_start_def port_sets_def [symmetric] Let_def)
  then show ?thesis using main_program_not_started [OF assms(1)] that by blast
qed

lemma first_set:
  assumes "\<exists>k < (n :: nat). P k"
  obtains k where "k < n" and "P k" and "\<forall>j < k. \<not> P j" and "\<And>k'. P k' \<Longrightarrow> \<forall>j < k'. \<not> P j \<Longrightarrow> k' = k"
proof -
  obtain m where m: "m < n" "P m" using assms by blast
  have "(LEAST k. P k) < n" using Least_le [of P m] m by simp
  moreover have "\<forall>j < (LEAST k. P k). \<not> P j" using not_less_Least by blast
  moreover have "k' = (LEAST k. P k)" if "P k'" "\<forall>j < k'. \<not> P j" for k'
    using that LeastI [of P k'] Least_le [of P k'] le_neq_implies_less by metis
  ultimately show ?thesis using that LeastI [of P m] m(2) by blast
qed


definition sample_main_env :: "run_outcome \<Rightarrow> main_env" where
  "sample_main_env out =
     \<lparr>me_exists = (\<lambda>p. True), me_from_str = (\<lambda>s. 2), me_platform = Linux, me_file_ok = True, me_ndebug = True,
      me_address = (\<lambda>h. None),
      me_sets = (\<lambda>i. \<lparr>se_query = (True, True, False, True), se_login = (True, True, True, True),
                     se_char = (True, True, True, True)\<rparr>),
      me_run = (\<lambda>ro. (out, ro))\<rparr>"


end
