(* ===== verification/Terminal_Output.thy ===== *)
theory Terminal_Output
  imports Bootstrap
begin

text \<open>
  The bytes that reach standard output: \<open>shared/BannerPrinter.hpp\<close>, \<open>infrastructure/terminal/Output.hpp\<close>
  and the two places of \<open>main\<close> that print a card. On Windows a console is written through its own
  interface in UTF-16, which shows the same text, so the result is the text as UTF-8 in either
  case. Whether standard output is a terminal and whether the locale's code set is UTF-8 are
  arguments.
\<close>

section \<open>Printers\<close>

record stdout_env =
  so_tty :: bool
  so_codeset :: "string option"

definition kAsciiFallback :: string where
  "kAsciiFallback =
     replicate 31 (CHR ''='') @ [CHR 0x0A] @ ''  Thanatos - Arkan Software'' @ [CHR 0x0A]
       @ replicate 31 (CHR ''='') @ [CHR 0x0A]"

definition banner_locale_is_utf8 :: "stdout_env \<Rightarrow> bool" where
  "banner_locale_is_utf8 e \<longleftrightarrow> so_codeset e = Some ''UTF-8''"

definition print_utf8_banner :: "platform \<Rightarrow> stdout_env \<Rightarrow> string \<Rightarrow> string" where
  "print_utf8_banner plat e utf8 =
     (case plat of
        Windows \<Rightarrow> utf8
      | _ \<Rightarrow> if so_tty e \<and> banner_locale_is_utf8 e then utf8 else kAsciiFallback)"

definition print_banner_or_fallback :: "platform \<Rightarrow> stdout_env \<Rightarrow> string \<Rightarrow> string" where
  "print_banner_or_fallback plat e utf8 =
     (case plat of
        Windows \<Rightarrow> print_utf8_banner plat e utf8
      | _ \<Rightarrow> if banner_locale_is_utf8 e then print_utf8_banner plat e utf8 else kAsciiFallback)"

definition emit_utf8_line :: "platform \<Rightarrow> stdout_env \<Rightarrow> string \<Rightarrow> string" where
  "emit_utf8_line plat e utf8 =
     (case plat of
        Windows \<Rightarrow> print_utf8_banner plat e utf8 @ print_utf8_banner plat e [CHR 0x0D, CHR 0x0A]
      | _ \<Rightarrow> utf8 @ [CHR 0x0A])"

definition emit_blank_line :: string where "emit_blank_line = [CHR 0x0A]"

definition print_portable :: "platform \<Rightarrow> stdout_env \<Rightarrow> string \<Rightarrow> string" where
  "print_portable plat e blob = (case plat of Windows \<Rightarrow> print_utf8_banner plat e blob | _ \<Rightarrow> blob)"

text \<open>The signature is one text of lines; the summary is emitted line by line, the last one blank.\<close>

definition text_of_lines :: "string list \<Rightarrow> string" where
  "text_of_lines ls = concat (map (\<lambda>l. l @ [CHR 0x0A]) ls)"

fun effect_stdout :: "platform \<Rightarrow> stdout_env \<Rightarrow> main_effect \<Rightarrow> string" where
  "effect_stdout plat e (Signature blob) =
     (case plat of Windows \<Rightarrow> print_utf8_banner plat e (text_of_lines blob) | _ \<Rightarrow> text_of_lines blob)"
| "effect_stdout plat e (Summary ls) = concat (map (emit_utf8_line plat e) (butlast ls)) @ emit_blank_line"
| "effect_stdout plat e _ = []"

definition main_stdout ::
  "'n toml_api \<Rightarrow> (string \<Rightarrow> 'n option) \<Rightarrow> stdout_env \<Rightarrow> main_env \<Rightarrow> string list \<Rightarrow> string" where
  "main_stdout A parse so e argv =
     concat (map (effect_stdout (me_platform e) so) (snd (main_program A parse e argv)))"

section \<open>What is printed\<close>

definition posix :: "platform \<Rightarrow> bool" where
  "posix plat \<longleftrightarrow> plat \<noteq> Windows"

lemma posix_printers:
  "posix plat \<Longrightarrow> print_portable plat e s = s" "posix plat \<Longrightarrow> emit_utf8_line plat e = (\<lambda>l. l @ [CHR 0x0A])"
  by (cases plat; simp add: posix_def print_portable_def emit_utf8_line_def fun_eq_iff)+

text \<open>Reading the lines back: the newline-terminated pieces of a text.\<close>

fun lines_from :: "string \<Rightarrow> string \<Rightarrow> string list" where
  "lines_from acc [] = []"
| "lines_from acc (c # s) = (if c = CHR 0x0A then rev acc # lines_from [] s else lines_from (c # acc) s)"

lemma lines_from_line: "CHR 0x0A \<notin> set l \<Longrightarrow> lines_from acc (l @ CHR 0x0A # s) = (rev acc @ l) # lines_from [] s"
  by (induction l arbitrary: acc) auto

lemma lines_of_text: "\<forall>l \<in> set ls. CHR 0x0A \<notin> set l \<Longrightarrow> lines_from [] (text_of_lines ls @ s) = ls @ lines_from [] s"
  by (induction ls) (simp_all add: text_of_lines_def lines_from_line)

text \<open>
  The printed cards do not depend on the terminal. On a POSIX system the summary is written byte for
  byte, and it is read back line by line, whether or not standard output is a terminal and
  whatever the locale: the plain fallback exists for those cases but is printed only by the
  banner printer, which the start does not use there.
\<close>

theorem summary_ignores_terminal:
  assumes "posix plat" and "\<forall>l \<in> set (butlast ls). CHR 0x0A \<notin> set l"
  shows "lines_from [] (effect_stdout plat e (Summary ls)) = butlast ls @ [[]]
    \<and> (\<not> (so_tty e \<and> banner_locale_is_utf8 e) \<longrightarrow> print_utf8_banner plat e s = kAsciiFallback)"
proof -
  have "effect_stdout plat e (Summary ls) = text_of_lines (butlast ls) @ [CHR 0x0A]"
    by (simp add: posix_printers [OF assms(1)] text_of_lines_def emit_blank_line_def)
  moreover have "print_utf8_banner plat e s = kAsciiFallback" if "\<not> (so_tty e \<and> banner_locale_is_utf8 e)"
    using assms(1) that by (cases plat) (auto simp: posix_def print_utf8_banner_def)
  ultimately show ?thesis using lines_of_text [OF assms(2), of "[CHR 0x0A]"] by simp
qed

lemma summary_ignores_terminal_witness:
  "lines_from [] (effect_stdout Linux \<lparr>so_tty = False, so_codeset = None\<rparr> (Summary [''a'', ''bc'', []])) = [''a'', ''bc'', []]"
  using summary_ignores_terminal [of Linux "[''a'', ''bc'', []]"] by (simp add: posix_def)

end
