(* ===== verification/Client_Stream.thy ===== *)
theory Client_Stream
  imports System
begin

text \<open>
  The stream of packets a game client receives. The client knows the size of a packet from its
  opcode: fixed, or announced in the two bytes after it. The sizes are those of the serializers in
  \<open>mappers/*.hpp\<close>, of the echo stubs in \<open>char/CharHandler.cpp\<close> and of the challenge in
  \<open>GameGuardBridge.cpp\<close>. The theory types every packet the wired system sends by this table, so
  that a client which cuts the stream by it finds the packets again.
\<close>

section \<open>The client's table\<close>

datatype packet_size = Fixed nat | Declared

fun size_of_packet :: "server_packet \<Rightarrow> packet_size" where
  "size_of_packet SyncAccount = Fixed 6"
| "size_of_packet MapLoaded = Fixed 13"
| "size_of_packet AcceptEnter = Fixed 11"
| "size_of_packet Warp = Fixed 22"
| "size_of_packet AttackRange = Fixed 4"
| "size_of_packet StatsInfo = Fixed 60"
| "size_of_packet HpSpUpdate = Fixed 10"
| "size_of_packet LoadConfirm = Fixed 2"
| "size_of_packet LookTo = Fixed 9"
| "size_of_packet SystemChat = Declared"
| "size_of_packet ActorInfoSelf = Fixed 106"
| "size_of_packet ActorNameSelf = Fixed 30"
| "size_of_packet Preamble082D = Declared"
| "size_of_packet Preamble09A0 = Fixed 6"
| "size_of_packet CharListBlock = Declared"
| "size_of_packet RedirectShort = Fixed 28"
| "size_of_packet RedirectFull = Fixed 41"
| "size_of_packet SecureLoginKey = Declared"
| "size_of_packet LoginToken = Declared"
| "size_of_packet AccountServerInfo = Declared"
| "size_of_packet AccountServerInfoV2 = Declared"

definition size_table :: "u16 \<Rightarrow> packet_size option" where
  "size_table op =
     (case find (\<lambda>k. server_opcode k = op) enum_class.enum of
        Some k \<Rightarrow> Some (size_of_packet k)
      | None \<Rightarrow>
          if op = gg_opcode Challenge then Some Declared
          else if op = client_opcode GuardPing0360 then Some (Fixed 7)
          else if op = client_opcode Keepalive007D \<or> op = client_opcode Ping08C9 then Some (Fixed 3)
          else None)"

text \<open>No two packets share an opcode, so the table gives each packet its own size.\<close>

lemma size_table_server [simp]: "size_table (server_opcode k) = Some (size_of_packet k)"
  by (cases k) (simp_all add: size_table_def enum_server_packet_def)

lemma size_table_others [simp]:
  "size_table (gg_opcode Challenge) = Some Declared"
  "size_table (client_opcode GuardPing0360) = Some (Fixed 7)"
  "size_table (client_opcode Keepalive007D) = Some (Fixed 3)"
  "size_table (client_opcode Ping08C9) = Some (Fixed 3)"
  by (simp_all add: size_table_def enum_server_packet_def)

lemma size_table_fixed: "size_table op = Some (Fixed n) \<Longrightarrow> 2 \<le> n"
proof -
  have "size_of_packet k = Fixed n \<Longrightarrow> 2 \<le> n" for k by (cases k) auto
  then show "size_table op = Some (Fixed n) \<Longrightarrow> 2 \<le> n"
    by (auto simp: size_table_def split: option.splits if_splits)
qed

section \<open>Cutting the stream\<close>

definition client_cut :: "bytes \<Rightarrow> cut_result" where
  "client_cut b =
     (if length b < 2 then Need_more
      else case size_table (rd16le b) of
        None \<Rightarrow> Bad_header
      | Some (Fixed n) \<Rightarrow> if length b < n then Need_more else Cut (take n b) (drop n b)
      | Some Declared \<Rightarrow>
          if length b < 4 then Need_more
          else (let n = unat (rd16le (drop 2 b))
                in if n < 4 then Bad_header
                   else if length b < n then Need_more else Cut (take n b) (drop n b)))"

lemma client_cut_split: "client_cut b = Cut f r \<Longrightarrow> b = f @ r \<and> f \<noteq> []"
  using size_table_fixed [of "rd16le b"]
  by (fastforce simp: client_cut_def Let_def split: if_splits option.splits packet_size.splits)

lemma client_cut_append:
  assumes "client_cut b \<noteq> Need_more"
  shows "client_cut (b @ x) = (case client_cut b of Cut f r \<Rightarrow> Cut f (r @ x) | c \<Rightarrow> c)"
proof -
  have two: "2 \<le> length b" using assms by (simp add: client_cut_def split: if_splits)
  note h = rd16le_append [OF two, of x]
  show ?thesis
  proof (cases "size_table (rd16le b)")
    case (Some sz)
    show ?thesis
    proof (cases sz)
      case Declared
      then have four: "4 \<le> length b" using assms two Some by (simp add: client_cut_def split: if_splits)
      then have "rd16le (drop 2 (b @ x)) = rd16le (drop 2 b)" using rd16le_append [of "drop 2 b" x] by simp
      then show ?thesis using assms two four h Some Declared
        by (simp add: client_cut_def Let_def split: if_splits)
    qed (use assms two h Some in \<open>simp add: client_cut_def split: if_splits\<close>)
  qed (use assms two h in \<open>simp add: client_cut_def\<close>)
qed

interpretation client: cutter client_cut
  by unfold_locales (simp_all add: client_cut_split client_cut_append)

function client_drain :: "bytes \<Rightarrow> bytes list \<times> bytes \<times> bool" where
  "client_drain b =
     (case client_cut b of
        Need_more \<Rightarrow> ([], b, False)
      | Bad_header \<Rightarrow> ([], [], True)
      | Cut f r \<Rightarrow> (let (fs, rest, bad) = client_drain r in (f # fs, rest, bad)))"
  by pat_completeness auto
termination by (relation "measure length") (auto dest: client.cut_shrinks)

declare client_drain.simps [simp del]

interpretation client_reader: deframer client_cut client_drain
  by unfold_locales (rule client_drain.simps)

section \<open>Whole packets\<close>

definition whole :: "packet \<Rightarrow> bool" where
  "whole p \<longleftrightarrow> client_cut p = Cut p []"

lemma whole_fixed:
  assumes "size_table (rd16le p) = Some (Fixed n)" and "length p = n"
  shows "whole p"
  using assms size_table_fixed [OF assms(1)] by (simp add: whole_def client_cut_def)

lemma whole_declared:
  "size_table (rd16le p) = Some Declared \<Longrightarrow> self_delimiting p \<Longrightarrow> whole p"
  by (simp add: whole_def client_cut_def self_delimiting_def)

text \<open>A stream of whole packets, however TCP cuts it, is read back as those packets.\<close>

lemma whole_stream:
  assumes "list_all whole ps" and "concat cs = concat ps"
  shows "client_reader.feed [] cs = (ps, [])"
proof -
  have "client_cut [] = Need_more" by (simp add: client_cut_def)
  moreover have "client_drain (concat ps) = (ps, [], False)"
    using assms(1) \<open>client_cut [] = Need_more\<close> client_reader.drain_frames [of ps] by (simp add: list_all_iff whole_def)
  ultimately show ?thesis using client_reader.feed_drain [of "[]" cs] assms(2) by simp
qed

section \<open>The packets of the flows\<close>

named_theorems whole_packets "packets of which the client's table gives the size"

text \<open>The opcode is the first thing a serializer writes.\<close>

lemma rd16le_header: "rd16le (put16 [] v @ r) = v" "rd16le (put16 [] v) = v"
  using rd16le_put16 [of "[]" v] rd16le_put16 [of "[]" v "[]"] by simp_all

lemma opcode_of_put:
  "2 \<le> length p \<Longrightarrow> rd16le (put16 p v) = rd16le p" "2 \<le> length p \<Longrightarrow> rd16le (put32 p w) = rd16le p"
  "2 \<le> length p \<Longrightarrow> rd16le (putZ p z n) = rd16le p" "2 \<le> length p \<Longrightarrow> rd16le (putFixed p b) = rd16le p"
  "2 \<le> length p \<Longrightarrow> rd16le (putCoordsA3 p x y d) = rd16le p"
  by (simp_all add: wire_simps putCoordsA3_def Let_def rd16le_append)

lemmas opcode_first = rd16le_append rd16le_header opcode_of_put

lemma whole_map_packets [whole_packets]:
  "length (sy_account_id s) = 4 \<Longrightarrow> whole (sync_packet s)"
  "whole (map_loaded_packet ml)" "whole (accept_enter_packet ae)" "whole (warp_packet w)"
  "whole (attack_range_packet r)" "length (cs_stats_base cs) = 12 \<Longrightarrow> whole (stats_packet cs)"
  "whole (hp_sp_packet h)" "whole load_confirm_packet" "length (lt_account_id l) = 4 \<Longrightarrow> whole (look_to_packet l)"
  "length (ad_account_id ai) = 4 \<Longrightarrow> whole (actor_info_packet ai)"
  "length (an_account_id n) = 4 \<Longrightarrow> whole (actor_name_packet n)" "whole (preamble_09A0_packet v)"
  by (rule whole_fixed; simp add: sync_packet_def map_loaded_packet_def accept_enter_packet_def
      warp_packet_def attack_range_packet_def stats_packet_def hp_sp_packet_def load_confirm_packet_def
      look_to_packet_def actor_info_packet_def actor_name_packet_def preamble_09A0_packet_def
      opcode_first wire_len Let_def del: server_opcode.simps)+

lemma whole_redirect [whole_packets]: "redirect_wf i \<Longrightarrow> whole (redirect_packet i)"
  by (cases "rd_use_full_redirect i"; rule whole_fixed;
      simp add: length_redirect redirect_wf_def)
     (simp_all add: redirect_packet_def opcode_first wire_len Let_def redirect_wf_def del: server_opcode.simps)

lemma whole_declared_packets [whole_packets]:
  "whole (char_list_packet i)" "whole preamble_082D_packet" "whole secure_login_key_packet"
  "server_info_wf si \<Longrightarrow> whole (server_info_packet si)"
  "length (lt_token t) < 65507 \<Longrightarrow> whole (login_token_packet t)"
proof -
  have op: "rd16le (char_list_packet i) = server_opcode CharListBlock"
      "rd16le preamble_082D_packet = server_opcode Preamble082D"
    by (simp add: char_list_packet_eq rd16le_def)
       (simp add: preamble_082D_packet_def opcode_first wire_len Let_def del: server_opcode.simps)
  show "whole (char_list_packet i)" "whole preamble_082D_packet" "whole secure_login_key_packet"
    by (rule whole_declared, simp add: op opcode_of_key del: server_opcode.simps,
        rule self_delimiting_char_list self_delimiting_preamble_082D self_delimiting_login_key)+
  show "whole (server_info_packet si)" if "server_info_wf si"
    by (rule whole_declared)
       (use that in \<open>simp_all add: opcode_of_info self_delimiting_server_info del: server_opcode.simps\<close>)
  show "whole (login_token_packet t)" if "length (lt_token t) < 65507"
    by (rule whole_declared)
       (use that in \<open>simp_all add: opcode_of_token self_delimiting_login_token del: server_opcode.simps\<close>)
qed

lemma whole_chat [whole_packets]: "length (sc_message m) < 65531 \<Longrightarrow> whole (system_chat_packet m)"
proof (rule whole_declared)
  assume m: "length (sc_message m) < 65531"
  have eq: "system_chat_packet m = put16 [] (server_opcode SystemChat)
      @ (put16 [] (of_nat (4 + length (sc_message m) + 1)) @ (bytes_of_string (sc_message m) @ [0]))"
    by (simp add: system_chat_packet_def wire_simps Let_def)
  show "size_table (rd16le (system_chat_packet m)) = Some Declared"
    unfolding eq rd16le_header by (simp del: server_opcode.simps)
  have "rd16le (drop 2 (system_chat_packet m)) = of_nat (4 + length (sc_message m) + 1)"
    unfolding eq by (simp add: rd16le_header del: of_nat_Suc of_nat_add)
  moreover have "unat (of_nat (4 + length (sc_message m) + 1) :: u16) = 4 + length (sc_message m) + 1"
    using m by (intro of_nat_u16_inverse) simp
  ultimately show "self_delimiting (system_chat_packet m)" by (simp add: self_delimiting_def)
qed

lemma whole_echo [whole_packets]: "echo_stub op pl = Some out \<Longrightarrow> whole out"
proof -
  assume e: "echo_stub op pl = Some out"
  then have out: "out = put16 [] op @ pl" by (simp add: echo_stub_def wr16le_def wire_simps split: if_splits)
  from e have "size_table op = Some (Fixed (2 + length pl))"
    by (auto simp: echo_stub_def simp del: client_opcode.simps split: if_splits)
  then show "whole out" unfolding out by (intro whole_fixed) (simp_all add: rd16le_header)
qed

text \<open>A challenge is whole unless it is too long for its length field or was framed wrongly by OpenKore.\<close>

definition gg_fits :: "bytes \<Rightarrow> bool" where
  "gg_fits q \<longleftrightarrow>
     (if length q \<ge> 4 \<and> rd16le q = gg_opcode Challenge
      then unat (rd16le (drop 2 q)) \<in> {4..length q} else length q < 65532)"

lemma whole_challenge [whole_packets]: "gg_fits q \<Longrightarrow> whole (fst (frame_gg_query q))"
proof (cases "length q \<ge> 4 \<and> rd16le q = gg_opcode Challenge")
  case True
  assume "gg_fits q"
  let ?n = "unat (rd16le (drop 2 q))"
  have n: "4 \<le> ?n" "?n \<le> length q" using \<open>gg_fits q\<close> True by (simp_all add: gg_fits_def)
  then have "fst (frame_gg_query q) = take ?n q" using True by (simp add: frame_gg_query_def Let_def)
  moreover have "rd16le (take ?n q) = gg_opcode Challenge" "rd16le (drop 2 (take ?n q)) = rd16le (drop 2 q)"
    using n True by (simp_all add: rd16le_take drop_take)
  ultimately show ?thesis using n by (intro whole_declared) (simp_all add: self_delimiting_def del: gg_opcode.simps)
next
  case False
  assume "gg_fits q"
  have len: "length q < 65532" using \<open>gg_fits q\<close> False by (simp add: gg_fits_def del: gg_opcode.simps split: if_splits)
  have eq: "fst (frame_gg_query q) = put16 [] (gg_opcode Challenge) @ (put16 [] (of_nat (4 + length q)) @ q)"
    using False by (simp add: frame_gg_query_def wire_simps Let_def del: gg_opcode.simps split: if_splits)
  have "rd16le (drop 2 (fst (frame_gg_query q))) = of_nat (4 + length q)"
    unfolding eq by (simp add: rd16le_header del: of_nat_add)
  moreover have "unat (of_nat (4 + length q) :: u16) = 4 + length q" using len by (intro of_nat_u16_inverse) simp
  ultimately have "self_delimiting (fst (frame_gg_query q))" by (simp add: self_delimiting_def eq)
  moreover have "size_table (rd16le (fst (frame_gg_query q))) = Some Declared" unfolding eq rd16le_header by (rule size_table_others)
  ultimately show ?thesis by (intro whole_declared)
qed

section \<open>What the system sends\<close>

text \<open>
  The data the serializers take from the state have the sizes the C++ types give them; the packet
  kept for a retry is one the bridge has framed.
\<close>

definition sends_inv :: "thanatos \<Rightarrow> bool" where
  "sends_inv t \<longleftrightarrow> length (lc_hostIp (lh_cfg (t_login t))) = 4 \<and> length (cc_mapIp (ch_cfg (t_char t))) = 4
     \<and> char_inv (ch_cfg (t_char t)) (ch_flow (t_char t))
     \<and> (g_pending (t_bridge t) \<longrightarrow> (\<exists>q. g_last_query (t_bridge t) = fst (frame_gg_query q)))"

definition framed_query :: "packet \<Rightarrow> bool" where
  "framed_query p \<longleftrightarrow> (\<exists>q. p = fst (frame_gg_query q))"

text \<open>What one event may make the system send, and to whom.\<close>

fun may_send :: "sys_event \<Rightarrow> sys_output \<Rightarrow> bool" where
  "may_send ev (Kore k b) = True"
| "may_send ev (Net (Close s)) = False"
| "may_send (Login_data e s b) (Net (Send s' p)) = (framed_query p \<or> (s' = s \<and> whole p))"
| "may_send (Char_data e s b) (Net (Send s' p)) =
     (framed_query p \<or> (s' = s \<and> (whole p \<or> (length p = 4 \<and> isSelectServerOpcode (rd16le b)))))"
| "may_send ev (Net (Send s' p)) = framed_query p"

lemma may_send_framed: "framed_query p \<Longrightarrow> may_send ev (Net (Send s p))"
  by (cases ev) simp_all

lemma perform_gg_fields:
  "t_login (fst (perform_gg e t as)) = t_login t" "t_char (fst (perform_gg e t as)) = t_char t"
  "t_bridge (fst (perform_gg e t as)) = t_bridge t" "t_globals (fst (perform_gg e t as)) = t_globals t"
  by (induction e t as rule: perform_gg.induct) (simp_all add: split_beta Let_def)

lemma perform_gg_sends:
  "out \<in> set (snd (perform_gg e t as)) \<Longrightarrow> \<exists>s w p. out = Net (Send s p) \<and> To_client w p \<in> set as"
  by (induction e t as rule: perform_gg.induct)
     (auto simp: split_beta Let_def send_to_client_def split: option.splits)

text \<open>The bridge sends challenges only, whether fresh or repeated.\<close>

definition challenges :: "'w gg_action list \<Rightarrow> bool" where
  "challenges as \<longleftrightarrow> (\<forall>w p. To_client w p \<in> set as \<longrightarrow> framed_query p)"

definition holds_query :: "'w bridge \<Rightarrow> bool" where
  "holds_query g \<longleftrightarrow> (g_pending g \<longrightarrow> framed_query (g_last_query g))"

lemma query_holds: "holds_query g \<Longrightarrow> holds_query (fst (on_query_from_kore e g q)) \<and> challenges (snd (on_query_from_kore e g q))"
  by (cases rule: on_query_cases [of g e q]) (auto simp: holds_query_def challenges_def framed_query_def)

lemma consume_holds:
  assumes "holds_query g"
  shows "holds_query (fst (maybe_consume_c2s e g b)) \<and> challenges (snd (snd (maybe_consume_c2s e g b)))"
proof (cases rule: consume_cases [of g b e])
  case expired
  then have q: "framed_query (g_last_query g)" using assms by (simp add: holds_query_def)
  show ?thesis
    by (cases rule: retry_cases [of e g]) (use q in \<open>simp_all add: expired(3) holds_query_def challenges_def\<close>)
qed (use assms in \<open>simp_all add: holds_query_def challenges_def\<close>)

lemma perform_challenges:
  "challenges as \<Longrightarrow> out \<in> set (snd (perform_gg e t as)) \<Longrightarrow> may_send ev out"
  using perform_gg_sends [of out e t as] by (auto simp: challenges_def may_send_framed)

lemma sends_inv_parts:
  "sends_inv t \<longleftrightarrow> length (lc_hostIp (lh_cfg (t_login t))) = 4 \<and> length (cc_mapIp (ch_cfg (t_char t))) = 4
     \<and> char_inv (ch_cfg (t_char t)) (ch_flow (t_char t)) \<and> holds_query (t_bridge t)"
  by (simp add: sends_inv_def holds_query_def framed_query_def)

lemma offer_sends:
  assumes "sends_inv t" and "offer_to_bridge e gg b t = (t', co, os)"
  shows "sends_inv t' \<and> t_login t' = t_login t \<and> t_char t' = t_char t \<and> (\<forall>out \<in> set os. may_send ev out)"
proof (cases gg)
  case True
  obtain g c as where m: "maybe_consume_c2s (gg_env_of e t) (t_bridge t) b = (g, c, as)" by (metis prod_cases3)
  have h: "holds_query g" "challenges as"
    using consume_holds [of "t_bridge t" "gg_env_of e t" b] assms(1) m by (simp_all add: sends_inv_parts)
  let ?p = "perform_gg e (t\<lparr>t_bridge := g\<rparr>) as"
  have "t' = fst ?p" "os = snd ?p" using assms(2) True m by (auto simp: offer_to_bridge_def split_beta Let_def)
  then show ?thesis using assms(1) h perform_challenges [OF h(2)] by (auto simp: sends_inv_parts perform_gg_fields)
qed (use assms in \<open>simp add: offer_to_bridge_def\<close>)

lemma sendBytes_out: "out \<in> set (sendBytes alive (Some s) ps) \<Longrightarrow> \<exists>p \<in> set ps. out = Net (Send s p)"
  by (auto simp: sendBytes_def weak_lock_def split: option.splits if_splits)

lemma login_whole:
  assumes "length (lc_hostIp cfg) = 4" and "login_handle le cfg g f op = Inr (f', g', ps)" and "p \<in> set ps"
  shows "whole p"
proof (cases rule: login_handle_cases [of le cfg g f op])
  case (token t)
  then have "length t < 65507" using random16.token_length by fastforce
  then show ?thesis using assms(2,3) token(2) by (auto simp: whole_packets)
qed (use assms in \<open>auto simp: whole_packets master_info_wf\<close>)

lemma char_whole:
  assumes "char_inv cfg f" and "length (cc_mapIp cfg) = 4" and "p \<in> set (snd (char_handle cfg tick op data f))"
  shows "whole p \<or> (length p = 4 \<and> isSelectServerOpcode op)"
  using assms(1)
proof (cases rule: char_handle_cases [where tick = tick and op = op and data = data])
  case enter
  have "length (cf_accountID f) = 4" using assms(1) by (simp add: char_inv_def)
  then show ?thesis using assms(3) by (auto simp: enter(2) map_enter_packets_def whole_packets default_stats_def)
next
  case server
  have "length (replace4 data (cf_accountID f)) = 4" using assms(1) by (simp add: char_inv_def length_replace4)
  then show ?thesis using assms(3) server by (auto simp: onServerSelected_eq whole_packets)
next
  case select
  have "redirect_wf (redirect_info cfg (cf_accountID f) (replace4 data (cf_selectedCharID f)) full)" for full
    using assms(1,2) by (simp add: redirect_wf_def redirect_info_def char_inv_def length_replace4)
  then show ?thesis using assms(3) by (auto simp: select(3) onCharSelected_eq whole_packets)
qed (use assms(3) in \<open>auto simp: whole_packets\<close>)

lemma connects_keep:
  "sends_inv (login_on_connect s t) = sends_inv t" "sends_inv (login_on_disconnect s t) = sends_inv t"
  "sends_inv (char_on_connect s t) = sends_inv t" "sends_inv (char_on_disconnect s t) = sends_inv t"
  by (simp_all add: sends_inv_def login_on_connect_def login_on_disconnect_def char_on_connect_def
      char_on_disconnect_def bindClientWire_def Let_def)

lemma login_data_sends:
  assumes inv: "sends_inv t"
  shows "sends_inv (fst (login_on_data e s b t))
    \<and> (\<forall>out \<in> set (snd (login_on_data e s b t)). may_send (Login_data e s b) out)"
proof -
  let ?ev = "Login_data e s b"
  let ?t = "t\<lparr>t_login := (t_login t)\<lparr>lh_cur := Some s\<rparr>\<rparr>"
  obtain t' co os where o: "offer_to_bridge e (lh_gg (t_login ?t)) b ?t = (t', co, os)" by (metis prod_cases3)
  have "sends_inv ?t" using inv by (simp add: sends_inv_def)
  note t' = offer_sends [OF this o, of ?ev]
  then have inv': "sends_inv t'" and cur: "lh_cur (t_login t') = Some s" by simp_all
  have ip: "length (lc_hostIp (lh_cfg (t_login t'))) = 4" using inv' by (simp add: sends_inv_def)
  show ?thesis
  proof (cases "co \<or> length b < 2")
    case True
    then have "login_on_data e s b t = (t', os)" using o by (auto simp: login_on_data_def Let_def)
    then show ?thesis using t' by simp
  next
    case False
    show ?thesis
    proof (cases "login_handle (ce_login e) (lh_cfg (t_login t')) (t_globals t') (lh_flow (t_login t')) (rd16le b)")
      case (Inl err)
      then have "login_on_data e s b t = (t'\<lparr>t_dead := True\<rparr>, os)" using o False by (simp add: login_on_data_def Let_def)
      moreover have "sends_inv (t'\<lparr>t_dead := True\<rparr>)" using inv' by (simp add: sends_inv_def)
      ultimately show ?thesis using t' by simp
    next
      case (Inr x)
      obtain f g ps where x: "x = (f, g, ps)" by (cases x)
      have "login_on_data e s b t = (t'\<lparr>t_login := (t_login t')\<lparr>lh_flow := f\<rparr>, t_globals := g\<rparr>,
          os @ sendBytes (ce_alive e) (Some s) ps)"
        using o False Inr x cur by (simp add: login_on_data_def Let_def)
      moreover have "may_send ?ev out" if "out \<in> set (sendBytes (ce_alive e) (Some s) ps)" for out
        using sendBytes_out [OF that] login_whole [OF ip Inr [unfolded x]] by auto
      ultimately show ?thesis using t' by (auto simp: sends_inv_def)
    qed
  qed
qed

lemma char_data_sends:
  assumes inv: "sends_inv t"
  shows "sends_inv (fst (char_on_data e s b t))
    \<and> (\<forall>out \<in> set (snd (char_on_data e s b t)). may_send (Char_data e s b) out)"
proof -
  let ?ev = "Char_data e s b"
  let ?t = "t\<lparr>t_char := (t_char t)\<lparr>ch_cur := Some s\<rparr>\<rparr>"
  obtain t' co os where o: "offer_to_bridge e (ch_gg (t_char ?t)) b ?t = (t', co, os)" by (metis prod_cases3)
  have "sends_inv ?t" using inv by (simp add: sends_inv_def)
  note t' = offer_sends [OF this o, of ?ev]
  then have inv': "sends_inv t'" and cur: "ch_cur (t_char t') = Some s" by simp_all
  have f: "length (cc_mapIp (ch_cfg (t_char t'))) = 4" "char_inv (ch_cfg (t_char t')) (ch_flow (t_char t'))"
    using inv' by (simp_all add: sends_inv_def)
  show ?thesis
  proof (cases "co \<or> length b < 2")
    case True
    then have "char_on_data e s b t = (t', os)" using o by (auto simp: char_on_data_def Let_def)
    then show ?thesis using t' by simp
  next
    case False
    show ?thesis
    proof (cases "echo_stub (rd16le b) (drop 2 b)")
      case (Some out)
      then have "char_on_data e s b t = (t', os @ sendBytes (ce_alive e) (Some s) [out])"
        using o False cur by (simp add: char_on_data_def Let_def)
      then show ?thesis using t' whole_echo [OF Some] by (auto dest!: sendBytes_out)
    next
      case None
      let ?h = "char_handle (ch_cfg (t_char t')) (ce_tick e) (rd16le b) (drop 2 b) (ch_flow (t_char t'))"
      have "char_on_data e s b t = (t'\<lparr>t_char := (t_char t')\<lparr>ch_flow := fst ?h\<rparr>\<rparr>,
          os @ sendBytes (ce_alive e) (Some s) (snd ?h))"
        using o False None cur by (simp add: char_on_data_def split_beta Let_def)
      moreover have "may_send ?ev out" if "out \<in> set (sendBytes (ce_alive e) (Some s) (snd ?h))" for out
        using sendBytes_out [OF that] char_whole [OF f(2,1)] by auto
      ultimately show ?thesis using t' char_inv_handle [OF f(2)] by (auto simp: sends_inv_def)
    qed
  qed
qed

lemma deliver_sends:
  "sends_inv t \<Longrightarrow> sends_inv (fst (deliver e t os)) \<and> (\<forall>out \<in> set (snd (deliver e t os)). may_send ev out)"
proof (induction os arbitrary: t)
  case (Cons o1 os)
  show ?case
  proof (cases o1)
    case (Deliver_query q)
    let ?r = "on_query_from_kore (gg_env_of e t) (t_bridge t) q"
    let ?p = "perform_gg e (t\<lparr>t_bridge := fst ?r\<rparr>) (snd ?r)"
    have h: "holds_query (fst ?r)" "challenges (snd ?r)"
      using query_holds [of "t_bridge t" "gg_env_of e t" q] Cons.prems by (simp_all add: sends_inv_parts)
    then have "sends_inv (fst ?p)" using Cons.prems by (simp add: sends_inv_parts perform_gg_fields)
    then show ?thesis using Cons.IH [of "fst ?p"] perform_challenges [OF h(2)]
      by (auto simp: Deliver_query split_beta Let_def)
  next
    case (Reply_written k b)
    then show ?thesis using Cons.IH [OF Cons.prems] by (simp add: split_beta Let_def)
  qed
qed simp

lemma sends_inv_step:
  assumes "sends_inv t"
  shows "sends_inv (fst (sys_step t ev)) \<and> (\<forall>out \<in> set (snd (sys_step t ev)). may_send ev out)"
proof (cases "halted t")
  case False
  show ?thesis
  proof (cases ev)
    case (Bus_event e i c)
    let ?q = "qs_step (t_query t) (Complete i c)"
    have "sends_inv (t\<lparr>t_query := fst ?q\<rparr>)" using assms by (simp add: sends_inv_def)
    from deliver_sends [OF this, of e "snd ?q" ev] show ?thesis
      using False by (simp add: sys_step_def Bus_event bus_complete_def split_beta Let_def del: qs_step.simps)
  qed (use assms False login_data_sends char_data_sends in \<open>simp_all add: sys_step_def connects_keep\<close>)
qed (use assms in \<open>simp add: sys_step_def\<close>)

interpretation sends: invariant_machine sys_step sends_inv
  by unfold_locales (use sends_inv_step in blast)

text \<open>\<open>make_address_v4(\<dots>).to_bytes()\<close> has four bytes.\<close>

definition address_ok :: "bytes option \<Rightarrow> bool" where
  "address_ok addr \<longleftrightarrow> (case addr of Some b \<Rightarrow> length b = 4 | None \<Rightarrow> True)"

lemma sends_inv_started: "address_ok addr \<Longrightarrow> sends_inv (started_system addr cfg)"
  by (auto simp: sends_inv_def started_system_def promote_def new_ragnarok_server_def Let_def
      new_login_handler_def new_char_handler_def default_LoginCfg_def default_CharConfig_def
      set_char_port_le_def set_listen_port_def char_inv_def new_char_flow_def new_bridge_def
      set_size_bounds_def set_timeout_def set_greedy_window_def set_strategy_def address_ok_def
      split: option.split)

text \<open>
  C7: Every packet sent is of its type. Whatever clients and OpenKore do, each packet the wired system
  sends to a client is exactly one packet of the client's table, of the size its opcode fixes or
  its length field announces. There are two exceptions: the four raw bytes of the account id that
  answer a server selection, and a challenge made of a query that does not fit the bridge's frame.
\<close>

theorem system_sends_typed_packets:
  assumes "address_ok addr" and "t = fst (run sys_step (started_system addr cfg) es)"
    and "Net (Send x p) \<in> set (snd (sys_step t ev))"
  shows "client_cut p = Cut p []
    \<or> (length p = 4 \<and> (\<exists>e b. ev = Char_data e x b \<and> isSelectServerOpcode (rd16le b)))
    \<or> (\<exists>q. p = fst (frame_gg_query q) \<and> \<not> gg_fits q)"
proof -
  have "sends_inv t" unfolding assms(2) by (rule sends.inv_run [OF sends_inv_started [OF assms(1)]])
  then have "may_send ev (Net (Send x p))" using sends_inv_step assms(3) by blast
  then show ?thesis
    using whole_challenge by (cases ev) (auto simp: framed_query_def whole_def)
qed

text \<open>The first answer of the login flow, from a started server.\<close>

lemma system_sends_typed_packets_witness:
  "client_cut [0xDC, 0x01, 0x14, 0, 0, 0, 0, 0, 0, 0, 0, 0, 0, 0, 0, 0, 0, 0, 0, 0]
     = Cut [0xDC, 0x01, 0x14, 0, 0, 0, 0, 0, 0, 0, 0, 0, 0, 0, 0, 0, 0, 0, 0, 0] []"
proof -
  let ?t0 = "started_system None sample_config"
  let ?p = "[0xDC, 0x01, 0x14, 0, 0, 0, 0, 0, 0, 0, 0, 0, 0, 0, 0, 0, 0, 0, 0, 0 :: u8]"
  let ?t = "fst (run sys_step ?t0 [Login_connect 1])"
  let ?ev = "Login_data (call_at 0) 1 [0xDB, 0x01]"
  have p: "secure_login_key_packet = ?p" by (simp add: secure_login_key_eq numeral_eq_Suc)
  have b: "\<not> halted ?t" "\<not> g_pending (t_bridge ?t)"
    by (simp_all add: sys_step_def started_alive halted_def started_query started_fields started_server_fields
        login_on_connect_def bindClientWire_def Let_def)
  have "Net (Send 1 secure_login_key_packet) \<in> set (snd (sys_step ?t ?ev))"
    using b by (simp add: sys_step_def login_on_data_def offer_to_bridge_def maybe_consume_c2s_def rd16le_def
        login_handle_def secure_opcodes_def onSecureHandshake_def sendBytes_def weak_lock_def call_at_def Let_def)
  from system_sends_typed_packets [OF _ refl this] have
    "client_cut ?p = Cut ?p [] \<or> (\<exists>q. ?p = fst (frame_gg_query q) \<and> \<not> gg_fits q)"
    by (simp add: p address_ok_def)
  moreover have "gg_challenge ?p \<Longrightarrow> False" by (simp add: gg_challenge_def rd16le_def)
  ultimately show ?thesis using frame_gg_query_challenge by metis
qed

end
