(* ===== verification/Network.thy ===== *)
theory Network
  imports Client_Stream "HOL-Library.Sublist"
begin

text \<open>
  The program on its sockets: the two accept loops and the sessions of theory \<open>Net_Session\<close> around the
  application of theory \<open>Handlers\<close>. A session is named by its position in the list of all sessions
  accepted. What the application sends goes through \<open>TcpSession::send\<close>, which
  \<open>asio::dispatch\<close> runs at once on the only thread, so an overflow calls \<open>on_disconnect\<close> inside the
  call that sent.
\<close>

section \<open>State\<close>

datatype listener = Login_listener | Char_listener

record network =
  nw_app :: thanatos
  nw_sessions :: "(listener \<times> tcp_session) list"
  nw_login_srv :: "tcp_server option"
  nw_char_srv :: "tcp_server option"

definition network_of :: "ragnarok_server \<Rightarrow> network" where
  "network_of r =
     \<lparr>nw_app = rs_system r, nw_sessions = [], nw_login_srv = rs_login_srv r, nw_char_srv = rs_char_srv r\<rparr>"

datatype net_output =
    Wrote sid bytes
  | To_openkore nat bytes

text \<open>The call of the listener's handler for each thing that happens to its sessions.\<close>

fun connect_event :: "listener \<Rightarrow> sid \<Rightarrow> sys_event" where
  "connect_event Login_listener s = Login_connect s"
| "connect_event Char_listener s = Char_connect s"

fun disconnect_event :: "listener \<Rightarrow> sid \<Rightarrow> sys_event" where
  "disconnect_event Login_listener s = Login_disconnect s"
| "disconnect_event Char_listener s = Char_disconnect s"

fun data_event :: "listener \<Rightarrow> call_env \<Rightarrow> sid \<Rightarrow> bytes \<Rightarrow> sys_event" where
  "data_event Login_listener e s b = Login_data e s b"
| "data_event Char_listener e s b = Char_data e s b"

text \<open>
  A session object lives as long as a handler holds its shared pointer: those of the operations
  outstanding, and possibly that of an aborted wait of the timer, which the environment tells.
\<close>

definition holds_self :: "tcp_session \<Rightarrow> bool" where
  "holds_self ts \<longleftrightarrow> 0 < ts_reads ts \<or> ts_in_handler ts \<or> ts_writes ts \<noteq> []
     \<or> wd_armed (ts_timer ts) \<or> 0 < wd_due (ts_timer ts)"

definition live_env :: "network \<Rightarrow> call_env \<Rightarrow> call_env" where
  "live_env n e =
     e\<lparr>ce_alive := (\<lambda>s. s < length (nw_sessions n) \<and> (holds_self (snd (nw_sessions n ! s)) \<or> ce_alive e s))\<rparr>"

section \<open>Operations\<close>

definition app_step :: "network \<Rightarrow> sys_event \<Rightarrow> network \<times> sys_output list" where
  "app_step n ev = (let (t, os) = sys_step (nw_app n) ev in (n\<lparr>nw_app := t\<rparr>, os))"

definition session_do :: "network \<Rightarrow> sid \<Rightarrow> session_event \<Rightarrow> network \<times> session_output list" where
  "session_do n s ev =
     (let (l, ts) = nw_sessions n ! s;
          (ts', os) = session_step ts ev
      in (n\<lparr>nw_sessions := (nw_sessions n)[s := (l, ts')]\<rparr>, os))"

text \<open>What a session reports: a disconnect calls the handler, a completed write reaches the client.\<close>

fun notify :: "network \<Rightarrow> sid \<Rightarrow> session_output list \<Rightarrow> network \<times> net_output list" where
  "notify n s [] = (n, [])"
| "notify n s (Sent b # os) = (let (n, ws) = notify n s os in (n, Wrote s b # ws))"
| "notify n s (On_disconnect e # os) =
     (let (n, outs) = app_step n (disconnect_event (fst (nw_sessions n ! s)) s) in notify n s os)"
| "notify n s (On_data b # os) = notify n s os"

text \<open>
  The sends of one call of a handler, in order. When a send overflows a session of the handler that
  is sending, the nested \<open>on_disconnect\<close> resets its \<open>cur_\<close>, and the rest of the call sends nothing.
\<close>

fun send_out :: "listener option \<Rightarrow> network \<Rightarrow> sys_output list \<Rightarrow> network \<times> net_output list" where
  "send_out caller n [] = (n, [])"
| "send_out caller n (Kore k b # outs) =
     (let (n, ws) = send_out caller n outs in (n, To_openkore k b # ws))"
| "send_out caller n (Net (Close s) # outs) =
     (let (n, os) = session_do n s Close_call; (n, ws) = notify n s os; (n, ws') = send_out caller n outs
      in (n, ws @ ws'))"
| "send_out caller n (Net (Send s b) # outs) =
     (let l = fst (nw_sessions n ! s);
          (n, os) = session_do n s (Send_call b);
          (n, ws) = notify n s os
      in if os \<noteq> [] \<and> caller = Some l then (n, ws)
         else (let (n, ws') = send_out caller n outs in (n, ws @ ws')))"

definition listener_server :: "listener \<Rightarrow> network \<Rightarrow> tcp_server option" where
  "listener_server l n = (case l of Login_listener \<Rightarrow> nw_login_srv n | Char_listener \<Rightarrow> nw_char_srv n)"

definition set_listener_server :: "listener \<Rightarrow> tcp_server \<Rightarrow> network \<Rightarrow> network" where
  "set_listener_server l v n =
     (case l of Login_listener \<Rightarrow> n\<lparr>nw_login_srv := Some v\<rparr> | Char_listener \<Rightarrow> n\<lparr>nw_char_srv := Some v\<rparr>)"

text \<open>A completed accept: \<open>on_connect\<close> with the new session, then its \<open>start\<close>.\<close>

definition net_accept :: "listener \<Rightarrow> bool \<Rightarrow> network \<Rightarrow> network \<times> net_output list" where
  "net_accept l ok n =
     (case listener_server l n of
        None \<Rightarrow> (n, [])
      | Some v \<Rightarrow>
          (let (v, new) = server_step v (Accepted ok);
               n = set_listener_server l v n
           in case new of
                [] \<Rightarrow> (n, [])
              | ts # _ \<Rightarrow>
                  (let (n, outs) = app_step n (connect_event l (length (nw_sessions n)))
                   in (n\<lparr>nw_sessions := nw_sessions n @ [(l, ts)]\<rparr>, []))))"

text \<open>The completions of the session's own operations; the calls of the application are not among them.\<close>

fun is_completion :: "session_event \<Rightarrow> bool" where
  "is_completion (Send_call b) = False"
| "is_completion Close_call = False"
| "is_completion Data_handled = False"
| "is_completion _ = True"

definition net_io :: "call_env \<Rightarrow> sid \<Rightarrow> session_event \<Rightarrow> network \<Rightarrow> network \<times> net_output list" where
  "net_io e s ev n =
     (if s \<ge> length (nw_sessions n) \<or> \<not> is_completion ev then (n, [])
      else
        (let l = fst (nw_sessions n ! s);
             (n, os) = session_do n s ev
         in case os of
              [On_data b] \<Rightarrow>
                (let (n, outs) = app_step n (data_event l (live_env n e) s b);
                     (n, ws) = send_out (Some l) n outs
                 in if halted (nw_app n) then (n, ws)
                    else (let (n, os) = session_do n s Data_handled in (n, ws)))
            | _ \<Rightarrow> notify n s os))"

datatype net_event =
    Net_accept listener bool
  | Net_io call_env sid session_event
  | Net_bus call_env nat completion

fun net_handle :: "network \<Rightarrow> net_event \<Rightarrow> network \<times> net_output list" where
  "net_handle n (Net_accept l ok) = net_accept l ok n"
| "net_handle n (Net_io e s ev) = net_io e s ev n"
| "net_handle n (Net_bus e i c) =
     (let (n, outs) = app_step n (Bus_event (live_env n e) i c) in send_out None n outs)"

definition net_step :: "network \<Rightarrow> net_event \<Rightarrow> network \<times> net_output list" where
  "net_step n ev = (if halted (nw_app n) then (n, []) else net_handle n ev)"

section \<open>Traffic\<close>

text \<open>The packets sent to a session, those its socket has taken, and the replies for OpenKore.\<close>

fun sends_to :: "sid \<Rightarrow> sys_output list \<Rightarrow> packet list" where
  "sends_to s [] = []"
| "sends_to s (Net (Send s' p) # os) = (if s' = s then p # sends_to s os else sends_to s os)"
| "sends_to s (_ # os) = sends_to s os"

fun written_to :: "sid \<Rightarrow> net_output list \<Rightarrow> packet list" where
  "written_to s [] = []"
| "written_to s (Wrote s' p # ws) = (if s' = s then p # written_to s ws else written_to s ws)"
| "written_to s (To_openkore k b # ws) = written_to s ws"

fun kore_of_sys :: "sys_output list \<Rightarrow> (nat \<times> bytes) list" where
  "kore_of_sys [] = []"
| "kore_of_sys (Kore k b # os) = (k, b) # kore_of_sys os"
| "kore_of_sys (Net x # os) = kore_of_sys os"

fun kore_of_net :: "net_output list \<Rightarrow> (nat \<times> bytes) list" where
  "kore_of_net [] = []"
| "kore_of_net (To_openkore k b # ws) = (k, b) # kore_of_net ws"
| "kore_of_net (Wrote s b # ws) = kore_of_net ws"

lemma traffic_append [simp]:
  "sends_to s (os @ os') = sends_to s os @ sends_to s os'"
  "written_to s (ws @ ws') = written_to s ws @ written_to s ws'"
  "kore_of_sys (os @ os') = kore_of_sys os @ kore_of_sys os'"
  "kore_of_net (ws @ ws') = kore_of_net ws @ kore_of_net ws'"
proof -
  show "sends_to s (os @ os') = sends_to s os @ sends_to s os'" by (induction s os rule: sends_to.induct) simp_all
  show "written_to s (ws @ ws') = written_to s ws @ written_to s ws'" by (induction s ws rule: written_to.induct) simp_all
  show "kore_of_sys (os @ os') = kore_of_sys os @ kore_of_sys os'" by (induction os rule: kore_of_sys.induct) simp_all
  show "kore_of_net (ws @ ws') = kore_of_net ws @ kore_of_net ws'" by (induction ws rule: kore_of_net.induct) simp_all
qed

lemma traffic_wrote [simp]:
  "written_to s (map (Wrote s') ps) = (if s' = s then ps else [])" "kore_of_net (map (Wrote s') ps) = []"
  by (induction ps) auto

lemma in_sends_to: "p \<in> set (sends_to s os) \<longleftrightarrow> Net (Send s p) \<in> set os"
  by (induction s os rule: sends_to.induct) auto

lemma kore_free_sys: "kore_free os \<Longrightarrow> kore_of_sys os = []"
  by (induction os rule: kore_of_sys.induct) (auto simp: kore_free_def)

definition queued_for :: "network \<Rightarrow> sid \<Rightarrow> packet list" where
  "queued_for n s = (if s < length (nw_sessions n) then ts_queue (snd (nw_sessions n ! s)) else [])"

definition all_open :: "network \<Rightarrow> bool" where
  "all_open n \<longleftrightarrow> list_all (\<lambda>(l, ts). ts_open ts) (nw_sessions n)"

definition sessions_ok :: "network \<Rightarrow> bool" where
  "sessions_ok n \<longleftrightarrow> list_all (\<lambda>(l, ts). session_inv ts) (nw_sessions n)"

section \<open>The network implements the wired system\<close>

text \<open>
  The account of a network: \<open>pend\<close> is what the current call of a handler has still to send. What a
  socket has taken, what is queued for it and what is still to be sent is in order what the wired
  system has sent, with nothing missing while no session has been closed.
\<close>

definition accounts :: "network \<Rightarrow> net_output list \<Rightarrow> sys_output list \<Rightarrow> thanatos \<Rightarrow> sys_output list \<Rightarrow> bool" where
  "accounts n ws pend t os \<longleftrightarrow>
     nw_app n = t \<and> sends_inv t \<and> sessions_ok n
     \<and> kore_of_net ws @ kore_of_sys pend = kore_of_sys os
     \<and> (\<forall>s. subseq (written_to s ws @ queued_for n s @ sends_to s pend) (sends_to s os))
     \<and> (all_open n \<longrightarrow> (\<forall>s. written_to s ws @ queued_for n s @ sends_to s pend = sends_to s os))
     \<and> (\<forall>s p. Net (Send s p) \<in> set os \<longrightarrow> s < length (nw_sessions n)
           \<and> (fst (nw_sessions n ! s) = Login_listener \<longrightarrow> framed_query p \<or> whole p))"

text \<open>One operation of a session moves packets from what is pending to its queue, and from there to the wire.\<close>

lemma session_do_fields:
  assumes "s < length (nw_sessions n)"
  shows "nw_app (fst (session_do n s ev)) = nw_app n"
    "length (nw_sessions (fst (session_do n s ev))) = length (nw_sessions n)"
    "fst (nw_sessions (fst (session_do n s ev)) ! s') = fst (nw_sessions n ! s')"
    "snd (session_do n s ev) = snd (session_step (snd (nw_sessions n ! s)) ev)"
    "queued_for (fst (session_do n s ev)) s' =
       (if s' = s then ts_queue (fst (session_step (snd (nw_sessions n ! s)) ev)) else queued_for n s')"
  using assms by (auto simp: session_do_def split_beta Let_def queued_for_def nth_list_update simp del: session_step.simps)

lemma session_do_ok:
  assumes "s < length (nw_sessions n)" and "sessions_ok n"
  shows "sessions_ok (fst (session_do n s ev))" and "session_inv (snd (nw_sessions n ! s))"
proof -
  show i: "session_inv (snd (nw_sessions n ! s))"
    using assms by (auto simp: sessions_ok_def list_all_length split_beta)
  show "sessions_ok (fst (session_do n s ev))"
    using assms session_inv_step [OF i, of ev]
    by (auto simp: sessions_ok_def list_all_length session_do_def split_beta Let_def nth_list_update
        simp del: session_step.simps)
qed

lemma session_stays_closed: "\<not> ts_open ts \<Longrightarrow> \<not> ts_open (fst (session_step ts ev))"
  by (cases ev) (auto simp: session_defs split: list.split option.split)

lemma session_do_open:
  assumes "s < length (nw_sessions n)" and "all_open (fst (session_do n s ev))"
  shows "all_open n"
  unfolding all_open_def list_all_length
proof (intro allI impI)
  fix k assume k: "k < length (nw_sessions n)"
  have "case (nw_sessions n)[s := (fst (nw_sessions n ! s), fst (session_step (snd (nw_sessions n ! s)) ev))] ! k
      of (l, ts) \<Rightarrow> ts_open ts"
    using assms k by (auto simp: all_open_def list_all_length session_do_def split_beta Let_def simp del: session_step.simps)
  then show "case nw_sessions n ! k of (l, ts) \<Rightarrow> ts_open ts"
    using k session_stays_closed [of "snd (nw_sessions n ! s)" ev]
    by (cases "k = s") (auto simp: split_beta simp del: session_step.simps)
qed

lemma accounts_session:
  assumes a: "accounts n ws pend t os" and s: "s < length (nw_sessions n)"
    and move: "\<And>s'. sends_to s' pend = (if s' = s then given_payload ev else []) @ sends_to s' pend'"
    and kore: "kore_of_sys pend' = kore_of_sys pend"
  shows "accounts (fst (session_do n s ev)) (ws @ map (Wrote s) (sent_bytes (snd (session_do n s ev)))) pend' t os"
proof -
  let ?ts = "snd (nw_sessions n ! s)"
  note f = session_do_fields [OF s, of ev]
  have ok: "sessions_ok n" using a by (simp add: accounts_def)
  note o = session_do_ok [OF s ok]
  have "sent_bytes (snd (session_step ?ts ev)) @ ts_queue (fst (session_step ?ts ev)) = ts_queue ?ts @ given_payload ev"
    by (rule session_queue.fifo_step [OF o(2)])
  then have fifo: "sent_bytes (snd (session_step ?ts ev)) @ ts_queue (fst (session_step ?ts ev))
      = queued_for n s @ given_payload ev"
    using s by (simp add: queued_for_def del: session_step.simps)
  define n' where "n' = fst (session_do n s ev)"
  define ws' where "ws' = ws @ map (Wrote s) (sent_bytes (snd (session_do n s ev)))"
  have same: "written_to s' ws' @ queued_for n' s' @ sends_to s' pend' = written_to s' ws @ queued_for n s' @ sends_to s' pend" for s'
    by (simp add: n'_def ws'_def move [of s'] f(4,5) fifo del: session_step.simps)
  have n': "nw_app n' = nw_app n" "length (nw_sessions n') = length (nw_sessions n)" "sessions_ok n'"
      "all_open n' \<Longrightarrow> all_open n" "kore_of_net ws' = kore_of_net ws"
      "fst (nw_sessions n' ! s') = fst (nw_sessions n ! s')" for s'
    using f o(1) session_do_open [OF s] by (simp_all add: n'_def ws'_def)
  show ?thesis
    unfolding n'_def [symmetric] ws'_def [symmetric] using a n'(3,4) unfolding accounts_def same n'(1,2,5,6) kore by blast
qed

text \<open>A call of the handler that sends nothing.\<close>

lemma app_step_fields [simp]:
  "nw_sessions (fst (app_step n ev)) = nw_sessions n" "nw_app (fst (app_step n ev)) = fst (sys_step (nw_app n) ev)"
  "snd (app_step n ev) = snd (sys_step (nw_app n) ev)" "queued_for (fst (app_step n ev)) s = queued_for n s"
  "all_open (fst (app_step n ev)) = all_open n" "sessions_ok (fst (app_step n ev)) = sessions_ok n"
  by (simp_all add: app_step_def split_beta Let_def queued_for_def all_open_def sessions_ok_def)

lemma accounts_app_silent:
  "accounts n ws pend t os \<Longrightarrow> snd (sys_step t ev) = [] \<Longrightarrow> accounts (fst (app_step n ev)) ws pend (fst (sys_step t ev)) os"
  using sends_inv_step [of t ev] by (simp add: accounts_def)

lemma silent_events [simp]:
  "snd (sys_step t (connect_event l s)) = []" "snd (sys_step t (disconnect_event l s)) = []"
  by (cases l; simp add: sys_step_def)+

lemma notify_fields [simp]:
  "nw_sessions (fst (notify n s os)) = nw_sessions n" "snd (notify n s os) = map (Wrote s) (sent_bytes os)"
proof -
  have "nw_sessions (fst (notify n s os)) = nw_sessions n \<and> snd (notify n s os) = map (Wrote s) (sent_bytes os)"
  proof (induction os arbitrary: n)
    case (Cons o1 os)
    then show ?case by (cases o1) (simp_all add: split_beta Let_def sent_payload_def)
  qed simp
  then show "nw_sessions (fst (notify n s os)) = nw_sessions n" "snd (notify n s os) = map (Wrote s) (sent_bytes os)"
    by simp_all
qed

lemma accounts_notify:
  assumes "accounts n ws pend t os"
  shows "\<exists>fs. accounts (fst (notify n s outs)) ws pend (fst (run sys_step t fs)) (os @ snd (run sys_step t fs))"
  using assms
proof (induction outs arbitrary: n t os)
  case Nil
  then show ?case by (intro exI [of _ "[]"]) simp
next
  case (Cons o1 outs)
  show ?case
  proof (cases o1)
    case (On_disconnect e)
    let ?ev = "disconnect_event (fst (nw_sessions n ! s)) s"
    obtain fs where "accounts (fst (notify (fst (app_step n ?ev)) s outs)) ws pend
        (fst (run sys_step (fst (sys_step t ?ev)) fs)) (os @ snd (run sys_step (fst (sys_step t ?ev)) fs))"
      using Cons.IH [OF accounts_app_silent [OF Cons.prems silent_events(2)]] by blast
    then show ?thesis by (intro exI [of _ "?ev # fs"]) (simp add: On_disconnect split_beta Let_def)
  qed (use Cons in \<open>simp_all add: split_beta Let_def\<close>)
qed

lemma accounts_drop:
  assumes "accounts n ws pend t os" and "\<not> all_open n" and "kore_free pend"
  shows "accounts n ws [] t os"
proof -
  have "subseq (xs @ ys) zs" if "subseq (xs @ ys @ ps) zs" for xs ys ps zs :: "packet list"
  proof -
    have "subseq (xs @ ys) ((xs @ ys) @ ps)" by (rule prefix_imp_subseq) simp
    then show ?thesis using that by (metis append_assoc subseq_order.order_trans)
  qed
  then show ?thesis using assms by (simp add: accounts_def kore_free_sys) blast
qed

text \<open>A send that reports something has overflowed the queue and closed the session.\<close>

lemma send_overflow:
  assumes "s < length (nw_sessions n)" and "snd (session_do n s (Send_call b)) \<noteq> []"
  shows "\<not> all_open (fst (session_do n s (Send_call b)))"
proof -
  have "\<not> ts_open (fst (session_step (snd (nw_sessions n ! s)) (Send_call b)))"
    using assms by (auto simp: session_do_fields session_defs split: if_splits)
  then show ?thesis using assms(1)
    by (auto simp: all_open_def list_all_length session_do_def split_beta Let_def simp del: session_step.simps
        intro!: exI [of _ s])
qed

definition sendable :: "network \<Rightarrow> sys_output list \<Rightarrow> bool" where
  "sendable n os \<longleftrightarrow> (\<forall>s p. Net (Send s p) \<in> set os \<longrightarrow> s < length (nw_sessions n)) \<and> (\<forall>s. Net (Close s) \<notin> set os)"

lemma accounts_send_out:
  assumes "accounts n ws pend t os" and "sendable n pend" and "caller = None \<or> kore_free pend"
  shows "\<exists>fs. accounts (fst (send_out caller n pend)) (ws @ snd (send_out caller n pend)) []
      (fst (run sys_step t fs)) (os @ snd (run sys_step t fs))
    \<and> length (nw_sessions (fst (send_out caller n pend))) = length (nw_sessions n)"
  using assms
proof (induction caller n pend arbitrary: ws t os rule: send_out.induct)
  case (1 caller n)
  then show ?case by (intro exI [of _ "[]"]) simp
next
  case (2 caller n k b outs)
  have "accounts n (ws @ [To_openkore k b]) outs t os" "sendable n outs" "caller = None \<or> kore_free outs"
    using 2(2-4) by (auto simp: accounts_def sendable_def)
  from 2(1) [OF this] show ?case by (simp add: split_beta Let_def)
next
  case (3 caller n s outs)
  then have False unfolding sendable_def by auto
  then show ?case ..
next
  case (4 caller n s b outs)
  let ?l = "fst (nw_sessions n ! s)"
  define d where "d = session_do n s (Send_call b)"
  define m where "m = notify (fst d) s (snd d)"
  have s: "s < length (nw_sessions n)" using 4(3) by (auto simp: sendable_def)
  have "accounts (fst d) (ws @ map (Wrote s) (sent_bytes (snd d))) outs t os"
    unfolding d_def by (rule accounts_session [OF 4(2) s]) (simp_all add: given_payload_def)
  from accounts_notify [OF this, of s "snd d"] obtain fs where
    acc: "accounts (fst m) (ws @ snd m) outs (fst (run sys_step t fs)) (os @ snd (run sys_step t fs))"
    by (auto simp: m_def)
  have len: "length (nw_sessions (fst m)) = length (nw_sessions n)"
    using session_do_fields(2) [OF s] by (simp add: m_def d_def)
  have sent: "send_out caller n (Net (Send s b) # outs) =
      (if snd d \<noteq> [] \<and> caller = Some ?l then m
       else (fst (send_out caller (fst m) outs), snd m @ snd (send_out caller (fst m) outs)))"
    by (simp add: m_def d_def split_beta Let_def prod_eq_iff)
  show ?case
  proof (cases "snd d \<noteq> [] \<and> caller = Some ?l")
    case True
    have "\<not> all_open (fst m)" using send_overflow [OF s] True by (simp add: m_def d_def all_open_def)
    moreover have "kore_free outs" using 4(4) True by simp
    ultimately have "accounts (fst m) (ws @ snd m) [] (fst (run sys_step t fs)) (os @ snd (run sys_step t fs))"
      using accounts_drop [OF acc] by blast
    then show ?thesis using True len unfolding sent by auto
  next
    case False
    have prems: "sendable (fst m) outs" "caller = None \<or> kore_free outs"
      using 4(3,4) len by (auto simp: sendable_def)
    have "\<exists>gs. accounts (fst (send_out caller (fst m) outs)) ((ws @ snd m) @ snd (send_out caller (fst m) outs)) []
        (fst (run sys_step (fst (run sys_step t fs)) gs))
        ((os @ snd (run sys_step t fs)) @ snd (run sys_step (fst (run sys_step t fs)) gs))
      \<and> length (nw_sessions (fst (send_out caller (fst m) outs))) = length (nw_sessions (fst m))"
      by (rule 4(1) [OF _ _ _ _ _ _ acc prems]) (use False in \<open>simp_all add: d_def m_def prod_eq_iff\<close>)
    then obtain gs where "accounts (fst (send_out caller (fst m) outs)) ((ws @ snd m) @ snd (send_out caller (fst m) outs)) []
        (fst (run sys_step t (fs @ gs))) (os @ snd (run sys_step t (fs @ gs)))"
      "length (nw_sessions (fst (send_out caller (fst m) outs))) = length (nw_sessions (fst m))"
      by (auto simp: run_append)
    then show ?thesis using len unfolding sent if_not_P [OF False] by (intro exI [of _ "fs @ gs"]) simp
  qed
qed

text \<open>A call sends only to sessions that are alive.\<close>

fun alive_at :: "sys_event \<Rightarrow> sid \<Rightarrow> bool" where
  "alive_at (Login_data e s b) = ce_alive e"
| "alive_at (Char_data e s b) = ce_alive e"
| "alive_at (Bus_event e i c) = ce_alive e"
| "alive_at ev = (\<lambda>s. False)"

definition sends_alive :: "(sid \<Rightarrow> bool) \<Rightarrow> sys_output list \<Rightarrow> bool" where
  "sends_alive alive os \<longleftrightarrow> (\<forall>s p. Net (Send s p) \<in> set os \<longrightarrow> alive s)"

lemma sends_alive_simps [simp]:
  "sends_alive alive []" "sends_alive alive (os @ os') \<longleftrightarrow> sends_alive alive os \<and> sends_alive alive os'"
  "sends_alive alive (Kore k b # os) \<longleftrightarrow> sends_alive alive os"
  "sends_alive alive (sendBytes alive cur ps)" "sends_alive alive (map Net (snd (send_to_client alive w b)))"
  by (auto simp: sends_alive_def sendBytes_def send_to_client_def weak_lock_def split: option.splits if_splits)

lemma perform_gg_alive: "sends_alive (ce_alive e) (snd (perform_gg e t as))"
  by (induction e t as rule: perform_gg.induct) (simp_all add: split_beta Let_def)

lemma deliver_alive: "sends_alive (ce_alive e) (snd (deliver e t os))"
proof (induction os arbitrary: t)
  case (Cons o1 os)
  then show ?case by (cases o1) (simp_all add: split_beta Let_def perform_gg_alive)
qed simp

lemma offer_alive: "sends_alive (ce_alive e) (snd (snd (offer_to_bridge e gg b t)))"
  by (simp add: offer_to_bridge_def split_beta Let_def perform_gg_alive)

lemma data_alive:
  "sends_alive (ce_alive e) (snd (login_on_data e s b t))" "sends_alive (ce_alive e) (snd (char_on_data e s b t))"
  by (simp_all add: login_on_data_def char_on_data_def split_beta Let_def offer_alive split: sum.split option.split)

lemma sys_sends_alive: "sends_alive (alive_at ev) (snd (sys_step t ev))"
  by (cases ev) (simp_all add: sys_step_def data_alive bus_complete_def split_beta Let_def deliver_alive del: qs_step.simps)

lemma live_env_alive: "ce_alive (live_env n e) s \<Longrightarrow> s < length (nw_sessions n)"
  by (simp add: live_env_def)

text \<open>Which call of the application an event of the network may make: only of the session's own listener.\<close>

fun proper_event :: "network \<Rightarrow> sys_event \<Rightarrow> bool" where
  "proper_event n (Login_data e s b) = (fst (nw_sessions n ! s) = Login_listener)"
| "proper_event n (Char_data e s b) = (fst (nw_sessions n ! s) = Char_listener)"
| "proper_event n ev = True"

lemma accounts_app:
  assumes a: "accounts n ws [] t os" and live: "\<And>s. alive_at ev s \<Longrightarrow> s < length (nw_sessions n)"
    and proper: "proper_event n ev"
  shows "accounts (fst (app_step n ev)) ws (snd (sys_step t ev)) (fst (sys_step t ev)) (os @ snd (sys_step t ev))
    \<and> sendable (fst (app_step n ev)) (snd (sys_step t ev))"
proof -
  let ?outs = "snd (sys_step t ev)"
  have inv: "sends_inv (fst (sys_step t ev))" and may: "\<forall>out \<in> set ?outs. may_send ev out"
    using sends_inv_step [of t ev] a by (simp_all add: accounts_def)
  have here: "s < length (nw_sessions n)" if "Net (Send s p) \<in> set ?outs" for s p
    using sys_sends_alive [of ev t] live that by (auto simp: sends_alive_def)
  have typed: "framed_query p \<or> whole p" if "Net (Send s p) \<in> set ?outs" "fst (nw_sessions n ! s) = Login_listener" for s p
    using may that proper by (cases ev) fastforce+
  have "Net (Close s) \<notin> set ?outs" for s using may by (cases ev) auto
  then have "sendable (fst (app_step n ev)) ?outs" using here by (auto simp: sendable_def)
  moreover have "subseq (written_to s ws @ queued_for n s @ sends_to s ?outs) (sends_to s os @ sends_to s ?outs)" for s
    using a list_emb_append_mono [of "(=)" "written_to s ws @ queued_for n s" "sends_to s os" "sends_to s ?outs" "sends_to s ?outs"]
    by (simp add: accounts_def)
  ultimately show ?thesis
    using a inv here typed by (auto simp: accounts_def)
qed

lemma proper_data: "proper_event n (data_event (fst (nw_sessions n ! s)) e s b)"
  by (cases "fst (nw_sessions n ! s)") simp_all

lemma data_kore_free: "kore_free (snd (sys_step t (data_event l e s b)))"
proof -
  have "settles t (sys_handle t (data_event l e s b))" by (rule client_event_settles) (cases l; simp)
  then show ?thesis by (auto simp: sys_step_def settles_def quiet_def answered_def)
qed

lemma accounts_accept:
  assumes a: "accounts n ws [] t os"
  shows "accounts (n\<lparr>nw_sessions := nw_sessions n @ [(l, started_session)]\<rparr>) ws [] t os"
proof -
  let ?n = "n\<lparr>nw_sessions := nw_sessions n @ [(l, started_session)]\<rparr>"
  have q: "queued_for ?n s = queued_for n s" for s
    by (simp add: queued_for_def nth_append started_session_def ts_start_def ts_do_read_def new_tcp_session_def)
  have o: "sessions_ok ?n = sessions_ok n" "all_open ?n \<Longrightarrow> all_open n"
    by (simp_all add: sessions_ok_def all_open_def session_inv_started)
  have "s < length (nw_sessions n) \<Longrightarrow> s < length (nw_sessions ?n) \<and> fst (nw_sessions ?n ! s) = fst (nw_sessions n ! s)" for s
    by (simp add: nth_append)
  then show ?thesis using a o unfolding accounts_def q by (fastforce intro: less_SucI)
qed

lemma accounts_set_server: "accounts (set_listener_server l v n) ws pend t os = accounts n ws pend t os"
  by (cases l) (simp_all add: accounts_def set_listener_server_def sessions_ok_def all_open_def queued_for_def)

lemma accounts_io:
  assumes a: "accounts n ws [] t os"
  shows "\<exists>fs. accounts (fst (net_io e s ev n)) (ws @ snd (net_io e s ev n)) []
      (fst (run sys_step t fs)) (os @ snd (run sys_step t fs))"
proof (cases "s \<ge> length (nw_sessions n) \<or> \<not> is_completion ev")
  case True
  then show ?thesis using a by (intro exI [of _ "[]"]) (auto simp: net_io_def)
next
  case False
  then have s: "s < length (nw_sessions n)" and given: "given_payload ev = []"
    by (cases ev; simp add: given_payload_def)+
  let ?l = "fst (nw_sessions n ! s)"
  define d where "d = session_do n s ev"
  have acc: "accounts (fst d) (ws @ map (Wrote s) (sent_bytes (snd d))) [] t os"
    unfolding d_def by (rule accounts_session [OF a s]) (simp_all add: given)
  note f = session_do_fields [OF s, of ev, folded d_def]
  show ?thesis
  proof (cases "\<exists>b. snd d = [On_data b]")
    case False
    then have "net_io e s ev n = notify (fst d) s (snd d)"
      using \<open>\<not> (length (nw_sessions n) \<le> s \<or> \<not> is_completion ev)\<close>
      by (cases "snd d" rule: remdups_adj.cases)
         (auto simp: net_io_def d_def split_beta Let_def prod_eq_iff sent_payload_def split: session_output.split)
    then show ?thesis using accounts_notify [OF acc, of s "snd d"] by simp
  next
    case True
    then obtain b where b: "snd d = [On_data b]" by blast
    let ?ev = "data_event ?l (live_env (fst d) e) s b"
    define m where "m = app_step (fst d) ?ev"
    define u where "u = send_out (Some ?l) (fst m) (snd m)"
    have acc1: "accounts (fst d) ws [] t os" using acc by (simp add: b sent_payload_def)
    have t: "nw_app (fst d) = t" using acc1 by (simp add: accounts_def)
    have "\<And>x. alive_at ?ev x \<Longrightarrow> x < length (nw_sessions (fst d))"
      using live_env_alive by (cases ?l) auto
    moreover have "proper_event (fst d) ?ev" using proper_data [of "fst d" s] by (simp add: f(3))
    ultimately have acc2: "accounts (fst m) ws (snd m) (fst (sys_step t ?ev)) (os @ snd (sys_step t ?ev))"
        and snd2: "sendable (fst m) (snd m)"
      using accounts_app [OF acc1, of ?ev] by (simp_all add: m_def t)
    have "kore_free (snd m)" using data_kore_free by (simp add: m_def)
    with accounts_send_out [OF acc2 snd2, of "Some ?l"] obtain fs where
      acc3: "accounts (fst u) (ws @ snd u) [] (fst (run sys_step t (?ev # fs))) (os @ snd (run sys_step t (?ev # fs)))"
        and len: "length (nw_sessions (fst u)) = length (nw_sessions (fst m))"
      by (auto simp: u_def)
    have s3: "s < length (nw_sessions (fst u))" using len s f(2) by (simp add: m_def)
    have io: "net_io e s ev n = (if halted (nw_app (fst u)) then u else (fst (session_do (fst u) s Data_handled), snd u))"
      using \<open>\<not> (length (nw_sessions n) \<le> s \<or> \<not> is_completion ev)\<close> b
      by (simp add: net_io_def u_def m_def d_def split_beta Let_def)
    have "snd (session_do (fst u) s Data_handled) = []"
      using session_do_fields(4) [OF s3, of Data_handled] by simp
    then have "accounts (fst (session_do (fst u) s Data_handled)) (ws @ snd u) []
        (fst (run sys_step t (?ev # fs))) (os @ snd (run sys_step t (?ev # fs)))"
      using accounts_session [OF acc3 s3, of Data_handled "[]"] by (simp add: given_payload_def)
    then show ?thesis unfolding io using acc3 by (intro exI [of _ "?ev # fs"]) (simp del: run_fst_Cons run_snd_Cons)
  qed
qed

lemma server_step_new: "snd (server_step v ev) \<in> {[], [started_session]}"
  by (cases ev) (auto simp: on_accepted_def started_session_def Let_def)

lemma accounts_net_accept:
  assumes a: "accounts n ws [] t os"
  shows "\<exists>fs. accounts (fst (net_accept l ok n)) (ws @ snd (net_accept l ok n)) []
      (fst (run sys_step t fs)) (os @ snd (run sys_step t fs))"
proof (cases "listener_server l n")
  case None
  then show ?thesis using a by (intro exI [of _ "[]"]) (simp add: net_accept_def)
next
  case (Some v)
  let ?n = "set_listener_server l (fst (server_step v (Accepted ok))) n"
  have acc: "accounts ?n ws [] t os" using a by (simp add: accounts_set_server)
  show ?thesis
  proof (cases "snd (server_step v (Accepted ok)) = []")
    case True
    then have "net_accept l ok n = (?n, [])" using Some by (simp add: net_accept_def split_beta Let_def)
    then show ?thesis using acc by (intro exI [of _ "[]"]) simp
  next
    case False
    let ?ev = "connect_event l (length (nw_sessions ?n))"
    let ?m = "fst (app_step ?n ?ev)"
    have "snd (server_step v (Accepted ok)) = [started_session]" using False server_step_new [of v "Accepted ok"] by auto
    then have "net_accept l ok n = (?m\<lparr>nw_sessions := nw_sessions ?m @ [(l, started_session)]\<rparr>, [])"
      using Some by (simp add: net_accept_def split_beta Let_def)
    then show ?thesis
      using accounts_accept [OF accounts_app_silent [OF acc silent_events(1)]]
      by (intro exI [of _ "[?ev]"]) simp
  qed
qed

interpretation network: simulation_machine net_step sys_step "\<lambda>n ws t os. accounts n ws [] t os"
proof
  fix n ws t os ev
  assume a: "accounts n ws [] t os"
  show "\<exists>fs. accounts (fst (net_step n ev)) (ws @ snd (net_step n ev)) []
      (fst (run sys_step t fs)) (os @ snd (run sys_step t fs))"
  proof (cases "halted (nw_app n)")
    case True
    then show ?thesis using a by (intro exI [of _ "[]"]) (simp add: net_step_def)
  next
    case False
    show ?thesis
    proof (cases ev)
      case (Net_bus e i c)
      let ?ev = "Bus_event (live_env n e) i c"
      let ?m = "app_step n ?ev"
      have "\<And>s. alive_at ?ev s \<Longrightarrow> s < length (nw_sessions n)" using live_env_alive by simp
      from accounts_app [where ev = ?ev, OF a this] have
        "accounts (fst ?m) ws (snd (sys_step t ?ev)) (fst (sys_step t ?ev)) (os @ snd (sys_step t ?ev))"
        "sendable (fst ?m) (snd (sys_step t ?ev))" by simp_all
      from accounts_send_out [OF this, of None] obtain fs where
        "accounts (fst (send_out None (fst ?m) (snd (sys_step t ?ev))))
          (ws @ snd (send_out None (fst ?m) (snd (sys_step t ?ev)))) []
          (fst (run sys_step t (?ev # fs))) (os @ snd (run sys_step t (?ev # fs)))" by auto
      moreover have "nw_app n = t" using a by (simp add: accounts_def)
      ultimately show ?thesis using False
        by (intro exI [of _ "?ev # fs"]) (simp add: net_step_def Net_bus split_beta Let_def)
    qed (use False accounts_io [OF a] accounts_net_accept [OF a] in \<open>simp_all add: net_step_def\<close>)
  qed
qed

section \<open>From a started server\<close>

lemma started_by_promote:
  assumes "server_start env (new_ragnarok_server addr cfg) = Inr r"
  obtains d b l c p i where "r = promote ((new_ragnarok_server addr cfg)\<lparr>rs_dangling := d\<rparr>) (start_query b)
      (fresh_listener l) (fresh_listener c) l c p i"
proof -
  let ?r = "new_ragnarok_server addr cfg"
  let ?P = "\<lambda>k. k < port_sets (rs_cfg ?r) \<and> set_binds env k"
  have start: "server_start env ?r = (if port_sets (rs_cfg ?r) = 0 then Inl No_port_sets
      else try_sets env (port_sets (rs_cfg ?r)) 0 ?r)"
    by (simp add: server_start_def port_sets_def [symmetric] Let_def)
  have "\<exists>k. ?P k"
  proof (rule ccontr)
    assume "\<not> (\<exists>k. ?P k)"
    then have "try_sets env (port_sets (rs_cfg ?r)) 0 ?r = Inl All_sets_failed" by (intro try_sets_fails) blast
    then show False using assms start by (simp split: if_splits)
  qed
  then obtain k where "?P k" "\<forall>j < k. \<not> ?P j" using exists_least_iff [of ?P] by blast
  then have "k < port_sets (rs_cfg ?r)" "set_binds env k" "\<forall>j < k. \<not> set_binds env j" by auto
  from server_start_first [OF this] obtain d where "r = promote (?r\<lparr>rs_dangling := d\<rparr>) (start_query (se_query (env k)))
      (fresh_listener (login_ports (rs_cfg ?r) ! k)) (fresh_listener (char_ports (rs_cfg ?r) ! k))
      (login_ports (rs_cfg ?r) ! k) (char_ports (rs_cfg ?r) ! k) (query_ports (rs_cfg ?r) ! k) k"
    using assms by auto
  then show ?thesis by (rule that)
qed

lemma sends_inv_promote:
  "address_ok addr \<Longrightarrow> sends_inv (rs_system (promote ((new_ragnarok_server addr cfg)\<lparr>rs_dangling := d\<rparr>) q ls cs l c p i))"
  by (auto simp: sends_inv_def promote_def new_ragnarok_server_def Let_def
      new_login_handler_def new_char_handler_def default_LoginCfg_def default_CharConfig_def
      set_char_port_le_def set_listen_port_def char_inv_def new_char_flow_def new_bridge_def
      set_size_bounds_def set_timeout_def set_greedy_window_def set_strategy_def address_ok_def
      split: option.split)

lemma accounts_started:
  assumes "server_start env (new_ragnarok_server addr cfg) = Inr r" and "address_ok addr"
  shows "accounts (network_of r) [] [] (rs_system r) []"
proof -
  have "sends_inv (rs_system r)"
    by (rule started_by_promote [OF assms(1)]) (simp add: sends_inv_promote [OF assms(2)])
  then show ?thesis
    by (simp add: accounts_def network_of_def sessions_ok_def all_open_def queued_for_def)
qed

text \<open>
  C6: The sockets implement the wired system. Whatever happens on the connections of a started server,
  there is a run of the wired system in which the same replies go to OpenKore and which leaves the
  application in the same state, and each client's socket has taken, in order and none twice, packets that
  this run sends to it. While no session has been closed by its overflow, what it has taken
  followed by what is queued for it is exactly what the run sends to it.
\<close>

theorem network_implements_system:
  assumes "server_start env (new_ragnarok_server addr cfg) = Inr r" and "address_ok addr"
  shows "\<exists>ses. let n = fst (run net_step (network_of r) es); ws = snd (run net_step (network_of r) es);
           os = snd (run sys_step (rs_system r) ses)
         in nw_app n = fst (run sys_step (rs_system r) ses) \<and> kore_of_net ws = kore_of_sys os
            \<and> (\<forall>s. subseq (written_to s ws) (sends_to s os))
            \<and> (all_open n \<longrightarrow> (\<forall>s. written_to s ws @ queued_for n s = sends_to s os))"
proof -
  obtain ses where acc: "accounts (fst (run net_step (network_of r) es)) ([] @ snd (run net_step (network_of r) es)) []
      (fst (run sys_step (rs_system r) ses)) ([] @ snd (run sys_step (rs_system r) ses))"
    using network.sim_run [OF accounts_started [OF assms], of es] by blast
  have "subseq xs zs" if "subseq (xs @ ys) zs" for xs ys zs :: "packet list"
    using that by (metis prefixI prefix_imp_subseq subseq_order.order_trans)
  with acc show ?thesis by (intro exI [of _ ses]) (auto simp: accounts_def Let_def)
qed


section \<open>The theorems at a concrete run\<close>

text \<open>A client connects to the login port and asks for the key; the answer is written.\<close>

definition demo_events :: "net_event list" where
  "demo_events = [Net_accept Login_listener True, Net_io (call_at 0) 0 (Read_done [0xDB, 0x01]),
     Net_io (call_at 0) 0 Write_done]"

definition demo_env :: "nat \<Rightarrow> set_env" where
  "demo_env i = \<lparr>se_query = (True, True, True, True), se_login = (True, True, True, True), se_char = (True, True, True, True)\<rparr>"

lemma login_key_reply:
  assumes "\<not> halted t" and "\<not> g_pending (t_bridge t)" and "ce_alive e 0"
  shows "\<not> halted (fst (sys_step t (Login_data e 0 [0xDB, 0x01])))
    \<and> snd (sys_step t (Login_data e 0 [0xDB, 0x01])) = [Net (Send 0 secure_login_key_packet)]"
  using assms by (simp add: sys_step_def login_on_data_def offer_to_bridge_def maybe_consume_c2s_def rd16le_def
      login_handle_def secure_opcodes_def onSecureHandshake_def sendBytes_def weak_lock_def halted_def Let_def)

lemma demo_run:
  assumes "\<not> halted (rs_system r)" and "\<not> g_pending (t_bridge (rs_system r))"
    and "rs_login_srv r = Some (fresh_listener p)"
  shows "snd (run net_step (network_of r) demo_events) = [Wrote 0 secure_login_key_packet]
    \<and> all_open (fst (run net_step (network_of r) demo_events))
    \<and> queued_for (fst (run net_step (network_of r) demo_events)) 0 = []
    \<and> fst (nw_sessions (fst (run net_step (network_of r) demo_events)) ! 0) = Login_listener"
proof -
  let ?e = "call_at 0" and ?s = started_session
  define n1 where "n1 = fst (net_step (network_of r) (Net_accept Login_listener True))"
  define t where "t = nw_app n1"
  have n1: "snd (net_step (network_of r) (Net_accept Login_listener True)) = []"
      "nw_sessions n1 = [(Login_listener, ?s)]" "\<not> halted t" "\<not> g_pending (t_bridge t)"
    using assms
    by (simp_all add: n1_def t_def net_step_def network_of_def net_accept_def listener_server_def
        set_listener_server_def fresh_listener_def on_accepted_def do_accept_def started_session_def app_step_def
        sys_step_def login_on_connect_def bindClientWire_def halted_def split_beta Let_def)
  have s: "session_step ?s (Read_done b) = (?s\<lparr>ts_reads := 0, ts_in_handler := True\<rparr>, [On_data b])" for b
    by (simp add: started_session_def ts_start_def ts_do_read_def new_tcp_session_def)
  define s2 where "s2 = ?s\<lparr>ts_writes := [secure_login_key_packet], ts_queue := [secure_login_key_packet],
      ts_timer := wd_start wd_off\<rparr>"
  define n2 where "n2 = fst (net_step n1 (Net_io ?e 0 (Read_done [0xDB, 0x01])))"
  define n1' where "n1' = n1\<lparr>nw_sessions := [(Login_listener, ?s\<lparr>ts_reads := 0, ts_in_handler := True\<rparr>)]\<rparr>"
  have d: "session_do n1 0 (Read_done b) = (n1', [On_data b])" for b
    using n1(2) s [of b] by (simp add: session_do_def n1'_def del: session_step.simps)
  have "ce_alive (live_env n1' ?e) 0" by (simp add: live_env_def n1'_def holds_self_def)
  from login_key_reply [OF n1(3,4) this] obtain t' where
    t': "sys_step t (Login_data (live_env n1' ?e) 0 [0xDB, 0x01]) = (t', [Net (Send 0 secure_login_key_packet)])" "\<not> halted t'"
    by (metis prod.collapse)
  have app: "nw_app n1' = t" by (simp add: n1'_def t_def)
  have io: "net_step n1 (Net_io ?e 0 (Read_done [0xDB, 0x01])) = (n1\<lparr>nw_app := t', nw_sessions := [(Login_listener, s2)]\<rparr>, [])"
    using n1(3) t' by (simp add: net_step_def net_io_def d app n1(2) app_step_def t_def [symmetric])
      (simp add: n1'_def n1(2) session_do_def session_defs started_session_def ts_start_def new_tcp_session_def s2_def)
  have n2: "n2 = n1\<lparr>nw_app := t', nw_sessions := [(Login_listener, s2)]\<rparr>" by (simp add: n2_def io)
  have w: "net_step n2 (Net_io ?e 0 Write_done) = (n2\<lparr>nw_sessions := [(Login_listener, s2\<lparr>ts_writes := [],
      ts_queue := [], ts_timer := wd_cancel (wd_start wd_off)\<rparr>)]\<rparr>, [Wrote 0 secure_login_key_packet])"
    using t'(2) by (simp add: n2 net_step_def net_io_def session_do_def s2_def session_defs started_session_def
        ts_start_def new_tcp_session_def sent_payload_def)
  have "run net_step (network_of r) demo_events
      = (n2\<lparr>nw_sessions := [(Login_listener, s2\<lparr>ts_writes := [], ts_queue := [], ts_timer := wd_cancel (wd_start wd_off)\<rparr>)]\<rparr>,
         [Wrote 0 secure_login_key_packet])"
    using w n1(1) io by (simp add: demo_events_def prod_eq_iff n1_def [symmetric] n2_def [symmetric])
  then show ?thesis by (simp add: all_open_def queued_for_def s2_def started_session_def ts_start_def ts_do_read_def new_tcp_session_def)
qed

lemma promote_dead: "t_dead (rs_system (promote r q ls cs l c p i)) = t_dead (rs_system r)"
  by (simp add: promote_def Let_def)

lemma demo_started:
  obtains r where "server_start demo_env (new_ragnarok_server None sample_config) = Inr r"
    and "\<not> halted (rs_system r)" and "\<not> g_pending (t_bridge (rs_system r))"
    and "rs_login_srv r = Some (fresh_listener 6900)" and "qs_listening (t_query (rs_system r))"
proof -
  let ?r = "new_ragnarok_server None sample_config"
  have "0 < port_sets (rs_cfg ?r)" "set_binds demo_env 0"
    by (simp_all add: port_sets_def new_ragnarok_server_def sample_config_def set_binds_def demo_env_def)
  from server_start_first [OF this] obtain d where
    "server_start demo_env ?r = Inr (promote (?r\<lparr>rs_dangling := d\<rparr>) (start_query (se_query (demo_env 0)))
      (fresh_listener (login_ports (rs_cfg ?r) ! 0)) (fresh_listener (char_ports (rs_cfg ?r) ! 0))
      (login_ports (rs_cfg ?r) ! 0) (char_ports (rs_cfg ?r) ! 0) (query_ports (rs_cfg ?r) ! 0) 0)" by auto
  then show ?thesis
    by (rule that)
       (simp_all add: promote_fields halted_def demo_env_def start_query_def onQuery_def qs_start_def new_query_server_def
          async_accept_def arm_def Let_def new_ragnarok_server_def sample_config_def promote_dead)
qed

lemma network_implements_system_witness:
  "\<exists>r ses. server_start demo_env (new_ragnarok_server None sample_config) = Inr r
     \<and> sends_to 0 (snd (run sys_step (rs_system r) ses)) = [secure_login_key_packet]
     \<and> nw_app (fst (run net_step (network_of r) demo_events)) = fst (run sys_step (rs_system r) ses)"
proof -
  obtain r where r: "server_start demo_env (new_ragnarok_server None sample_config) = Inr r"
      "\<not> halted (rs_system r)" "\<not> g_pending (t_bridge (rs_system r))" "rs_login_srv r = Some (fresh_listener 6900)"
    by (rule demo_started)
  have "address_ok None" by (simp add: address_ok_def)
  from network_implements_system [OF r(1) this, of demo_events] obtain ses where
    app: "nw_app (fst (run net_step (network_of r) demo_events)) = fst (run sys_step (rs_system r) ses)"
    and all: "all_open (fst (run net_step (network_of r) demo_events)) \<longrightarrow>
      (\<forall>s. written_to s (snd (run net_step (network_of r) demo_events))
          @ queued_for (fst (run net_step (network_of r) demo_events)) s = sends_to s (snd (run sys_step (rs_system r) ses)))"
    by (auto simp: Let_def)
  have "sends_to 0 (snd (run sys_step (rs_system r) ses)) = [secure_login_key_packet]"
    using all demo_run [OF r(2-4)] by (metis append_Nil2 written_to.simps(1,2))
  then show ?thesis using app r(1) by blast
qed


end
