(* ===== verification/Service.thy ===== *)
theory Service
  imports Network
begin

text \<open>
  The service on the sockets: the exchanges of theory \<open>System\<close> run through the sessions and their write
  queues, from the start of the server to the bytes the client and OpenKore read.
\<close>

section \<open>A connected client\<close>

definition idle_client :: "network \<Rightarrow> sid \<Rightarrow> bool" where
  "idle_client n s \<longleftrightarrow> s < length (nw_sessions n) \<and>
     (case nw_sessions n ! s of (l, ts) \<Rightarrow> l = Char_listener \<and> ts_open ts \<and> ts_reads ts = 1
        \<and> \<not> ts_in_handler ts \<and> ts_writes ts = [] \<and> ts_queue ts = [])"

lemma idle_clientE:
  assumes "idle_client n s"
  obtains ts where "s < length (nw_sessions n)" and "nw_sessions n ! s = (Char_listener, ts)" and "ts_open ts"
    and "ts_reads ts = 1" and "\<not> ts_in_handler ts" and "ts_writes ts = []" and "ts_queue ts = []"
  using assms by (auto simp: idle_client_def)

lemma idle_client_app [simp]: "idle_client (n\<lparr>nw_app := t\<rparr>) s = idle_client n s"
  by (simp add: idle_client_def)

lemma live_env_app [simp]: "live_env (n\<lparr>nw_app := t\<rparr>) e = live_env n e"
  by (simp add: live_env_def)

lemma live_env_fields [simp]: "ce_now (live_env n e) = ce_now e"
  by (simp add: live_env_def)

lemma idle_alive: "idle_client n s \<Longrightarrow> ce_alive (live_env n e) s"
  by (auto simp: idle_client_def live_env_def holds_self_def)

section \<open>One step each\<close>

lemma net_bus_silent:
  "\<not> halted (nw_app n) \<Longrightarrow> sys_step (nw_app n) (Bus_event (live_env n e) i c) = (t, []) \<Longrightarrow>
     net_step n (Net_bus e i c) = (n\<lparr>nw_app := t\<rparr>, [])"
  by (simp add: net_step_def app_step_def)

lemma net_bus_reply:
  "\<not> halted (nw_app n) \<Longrightarrow> sys_step (nw_app n) (Bus_event (live_env n e) i c) = (t, [Kore k w]) \<Longrightarrow>
     net_step n (Net_bus e i c) = (n\<lparr>nw_app := t\<rparr>, [To_openkore k w])"
  by (simp add: net_step_def app_step_def)

text \<open>A challenge is queued on the idle session and its write starts; the completed write reaches the client.\<close>

lemma net_bus_sends:
  assumes "\<not> halted (nw_app n)" and "sys_step (nw_app n) (Bus_event (live_env n e) i c) = (t, [Net (Send s p)])"
    and "\<not> halted t" and "idle_client n s"
  obtains n1 n2 where "net_step n (Net_bus e i c) = (n1, [])" and "net_step n1 (Net_io e' s Write_done) = (n2, [Wrote s p])"
    and "nw_app n2 = t" and "idle_client n2 s"
proof -
  obtain ts where ts: "s < length (nw_sessions n)" "nw_sessions n ! s = (Char_listener, ts)" "ts_open ts"
      "ts_reads ts = 1" "\<not> ts_in_handler ts" "ts_writes ts = []" "ts_queue ts = []"
    using assms(4) by (rule idle_clientE)
  define ts1 where "ts1 = ts\<lparr>ts_queue := [p], ts_timer := wd_start (ts_timer ts), ts_writes := [p]\<rparr>"
  define n1 where "n1 = n\<lparr>nw_app := t, nw_sessions := (nw_sessions n)[s := (Char_listener, ts1)]\<rparr>"
  have s1: "session_step ts (Send_call p) = (ts1, [])" using ts by (simp add: session_defs ts1_def)
  have one: "net_step n (Net_bus e i c) = (n1, [])"
    using assms(1,2) ts(1,2) s1
    by (simp add: net_step_def app_step_def session_do_def n1_def del: session_step.simps)
  define ts2 where "ts2 = ts1\<lparr>ts_writes := [], ts_queue := [], ts_timer := wd_cancel (ts_timer ts1)\<rparr>"
  have s2: "session_step ts1 Write_done = (ts2, [Sent p])" using ts(5) by (simp add: session_defs ts2_def ts1_def)
  have two: "net_step n1 (Net_io e' s Write_done) = (n1\<lparr>nw_sessions := (nw_sessions n1)[s := (Char_listener, ts2)]\<rparr>, [Wrote s p])"
    using assms(3) ts(1) s2
    by (simp add: net_step_def net_io_def session_do_def n1_def sent_payload_def del: session_step.simps)
  have "idle_client (n1\<lparr>nw_sessions := (nw_sessions n1)[s := (Char_listener, ts2)]\<rparr>) s"
    using ts by (simp add: idle_client_def n1_def ts2_def ts1_def)
  then show ?thesis using that [OF one two] by (simp add: n1_def)
qed

text \<open>A packet of the client is read and handled without an answer.\<close>

lemma net_read_silent:
  assumes "\<not> halted (nw_app n)" and "idle_client n s"
    and "\<And>e'. ce_now e' = ce_now e \<Longrightarrow> sys_step (nw_app n) (Char_data e' s b) = (f e', []) \<and> \<not> halted (f e')"
  obtains n' e' where "net_step n (Net_io e s (Read_done b)) = (n', [])" and "nw_app n' = f e'" and "ce_now e' = ce_now e"
    and "idle_client n' s"
proof -
  obtain ts where ts: "s < length (nw_sessions n)" "nw_sessions n ! s = (Char_listener, ts)" "ts_open ts"
      "ts_reads ts = 1" "\<not> ts_in_handler ts" "ts_writes ts = []" "ts_queue ts = []"
    using assms(2) by (rule idle_clientE)
  define ts1 where "ts1 = ts\<lparr>ts_reads := 0, ts_in_handler := True\<rparr>"
  define n1 where "n1 = n\<lparr>nw_sessions := (nw_sessions n)[s := (Char_listener, ts1)]\<rparr>"
  define e' where "e' = live_env n1 e"
  define n2 where "n2 = n1\<lparr>nw_app := f e'\<rparr>"
  define ts2 where "ts2 = ts1\<lparr>ts_in_handler := False, ts_reads := 1\<rparr>"
  have s1: "session_step ts (Read_done b) = (ts1, [On_data b])" using ts by (simp add: ts1_def)
  have s2: "session_step ts1 Data_handled = (ts2, [])" using ts by (simp add: ts1_def ts2_def session_defs)
  have d: "session_do n s (Read_done b) = (n1, [On_data b])" using ts(2) s1 by (simp add: session_do_def n1_def del: session_step.simps)
  have d2: "session_do n2 s Data_handled = (n2\<lparr>nw_sessions := (nw_sessions n2)[s := (Char_listener, ts2)]\<rparr>, [])"
    using ts(1) by (simp add: session_do_def s2 n2_def n1_def del: session_step.simps)
  have app: "sys_step (nw_app n1) (Char_data e' s b) = (f e', [])" "\<not> halted (f e')"
    using assms(3) [of e'] by (simp_all add: n1_def e'_def)
  have step: "net_step n (Net_io e s (Read_done b)) = (n2\<lparr>nw_sessions := (nw_sessions n2)[s := (Char_listener, ts2)]\<rparr>, [])"
    using assms(1) ts(1,2) app d2
    by (simp add: net_step_def net_io_def d app_step_def e'_def [symmetric] n2_def)
  have idle: "idle_client (n2\<lparr>nw_sessions := (nw_sessions n2)[s := (Char_listener, ts2)]\<rparr>) s"
    using ts by (simp add: idle_client_def n2_def n1_def ts2_def ts1_def)
  show ?thesis by (rule that [OF step _ _ idle, of e']) (simp_all add: n2_def e'_def)
qed

section \<open>One exchange\<close>

definition net_exchange_events :: "sid \<Rightarrow> exchange \<Rightarrow> net_event list" where
  "net_exchange_events s x =
     [Net_bus (x_ask x) 0 (C_accepted True),
      Net_bus (x_ask x) 0 (C_bytes (take 4 (kore_frame (x_query x)))),
      Net_bus (x_ask x) 0 (C_bytes (drop 4 (kore_frame (x_query x)))),
      Net_io (x_ask x) s Write_done,
      Net_io (x_answer x) s (Read_done (x_response x)),
      Net_bus (x_answer x) 0 C_written]"

definition challenge_for :: "exchange \<Rightarrow> packet" where
  "challenge_for x = fst (frame_gg_query (x_query x))"

lemma net_exchange:
  assumes r: "ready s k (nw_app n)" and c: "idle_client n s" and x: "exchange_ok s x"
  obtains n' w where "run net_step n (net_exchange_events s x) = (n', [Wrote s (challenge_for x), To_openkore k w])"
    and "decode w = Inr (packet_message ReplyId (answer x), length w)"
    and "ready s (k + 1) (nw_app n')" and "idle_client n' s"
proof -
  let ?x = "x\<lparr>x_ask := live_env n (x_ask x)\<rparr>"
  have "exchange_ok s ?x" using x idle_alive [OF c] by (simp add: exchange_ok_def)
  from exchange_asks [OF r this] obtain t1 t2 t3 where ask:
    "sys_step (nw_app n) (Bus_event (live_env n (x_ask x)) 0 (C_accepted True)) = (t1, [])"
    "sys_step t1 (Bus_event (live_env n (x_ask x)) 0 (C_bytes (take 4 (kore_frame (x_query x))))) = (t2, [])"
    "sys_step t2 (Bus_event (live_env n (x_ask x)) 0 (C_bytes (drop 4 (kore_frame (x_query x))))) =
       (t3, [Net (Send s (challenge_for x))])"
    "asked s k (after_ms (ce_now (x_ask x)) kConfiguredTimeout) t3"
    by (auto simp: challenge_for_def)
  have awake: "\<not> halted t" if "sys_step t ev = (t', os)" "os \<noteq> [] \<or> \<not> halted t'" for t t' ev os
    using that by (auto simp: sys_step_def split: if_splits)
  have alive: "\<not> halted t3" using ask(4) by (simp add: asked_def)
  then have h: "\<not> halted (nw_app n)" "\<not> halted t1" "\<not> halted t2"
    using r awake [OF ask(2)] awake [OF ask(3)] by (simp_all add: ready_def)
  let ?n2 = "n\<lparr>nw_app := t2\<rparr>"
  have s12: "net_step n (Net_bus (x_ask x) 0 (C_accepted True)) = (n\<lparr>nw_app := t1\<rparr>, [])"
      "net_step (n\<lparr>nw_app := t1\<rparr>) (Net_bus (x_ask x) 0 (C_bytes (take 4 (kore_frame (x_query x))))) = (?n2, [])"
    using net_bus_silent [OF h(1) ask(1)] net_bus_silent [of "n\<lparr>nw_app := t1\<rparr>" "x_ask x"] h(2) ask(2) by simp_all
  obtain n3 n4 where s34: "net_step ?n2 (Net_bus (x_ask x) 0 (C_bytes (drop 4 (kore_frame (x_query x))))) = (n3, [])"
      "net_step n3 (Net_io (x_ask x) s Write_done) = (n4, [Wrote s (challenge_for x)])" "nw_app n4 = t3" "idle_client n4 s"
    by (rule net_bus_sends [of ?n2 "x_ask x" 0 "C_bytes (drop 4 (kore_frame (x_query x)))" t3 s "challenge_for x" "x_ask x"])
       (use h(3) ask(3) alive c in simp_all)
  let ?f = "\<lambda>e. fst (sys_step t3 (Char_data e s (x_response x)))"
  have resp: "gg_response (x_response x)" "length (x_response x) \<le> 16000000"
    "ce_now (x_answer x) \<le> after_ms (ce_now (x_ask x)) kConfiguredTimeout" using x by (simp_all add: exchange_ok_def)
  have ans: "sys_step t3 (Char_data e s (x_response x)) = (?f e, []) \<and> (\<exists>w. replying s k w (?f e)
      \<and> decode w = Inr (packet_message ReplyId (answer x), length w))" if "ce_now e = ce_now (x_answer x)" for e
    using exchange_answered [OF ask(4) resp(1,2), of e] resp(3) that by (metis answer_def fst_conv)
  then have "sys_step (nw_app n4) (Char_data e s (x_response x)) = (?f e, []) \<and> \<not> halted (?f e)"
    if "ce_now e = ce_now (x_answer x)" for e
    using that by (auto simp: s34(3) replying_def)
  with net_read_silent [of n4 s "x_answer x" "x_response x" ?f] s34(3,4) alive
  obtain n5 e where s5: "net_step n4 (Net_io (x_answer x) s (Read_done (x_response x))) = (n5, [])"
      "nw_app n5 = ?f e" "ce_now e = ce_now (x_answer x)" "idle_client n5 s" by metis
  obtain w where w: "replying s k w (nw_app n5)" "decode w = Inr (packet_message ReplyId (answer x), length w)"
    using ans [OF s5(3)] s5(2) by auto
  obtain t6 where wr: "sys_step (nw_app n5) (Bus_event (live_env n5 (x_answer x)) 0 C_written) = (t6, [Kore k w])"
      "ready s (k + 1) t6" by (rule exchange_written [OF w(1)])
  have "\<not> halted (nw_app n5)" using w(1) by (simp add: replying_def)
  note s6 = net_bus_reply [OF this wr(1)]
  have "run net_step n (net_exchange_events s x)
      = (n5\<lparr>nw_app := t6\<rparr>, [Wrote s (challenge_for x), To_openkore k w])"
    by (simp add: net_exchange_events_def s12 s34(1,2) s5(1) s6 prod_eq_iff)
  then show ?thesis by (rule that) (use w(2) wr(2) s5(4) in simp_all)
qed

section \<open>The service\<close>

lemma net_exchanges:
  assumes "ready s k (nw_app n)" and "idle_client n s" and "list_all (exchange_ok s) xs"
  shows "\<exists>kws. snd (run net_step n (concat (map (net_exchange_events s) xs)))
        = concat (map2 (\<lambda>x (k, w). [Wrote s (challenge_for x), To_openkore k w]) xs kws)
      \<and> length kws = length xs \<and> map (reply_of \<circ> snd) kws = map (\<lambda>x. Some (answer x)) xs"
    and "ready s (k + length xs) (nw_app (fst (run net_step n (concat (map (net_exchange_events s) xs)))))"
  using assms
proof (induction xs arbitrary: n k)
  case Nil
  { case 1 then show ?case by simp }
  { case 2 then show ?case by simp }
next
  case (Cons x xs)
  have step: "\<exists>n' w. run net_step n (net_exchange_events s x) = (n', [Wrote s (challenge_for x), To_openkore k w])
      \<and> decode w = Inr (packet_message ReplyId (answer x), length w) \<and> ready s (k + 1) (nw_app n') \<and> idle_client n' s"
    if "ready s k (nw_app n)" "idle_client n s" "list_all (exchange_ok s) (x # xs)" for k n
    by (rule net_exchange [OF that(1,2), of x]) (use that(3) in auto)
  { case 1
    from step [OF this] obtain n' w where one: "run net_step n (net_exchange_events s x) = (n', [Wrote s (challenge_for x), To_openkore k w])"
      "decode w = Inr (packet_message ReplyId (answer x), length w)" "ready s (k + 1) (nw_app n')" "idle_client n' s" by blast
    obtain kws where rest: "snd (run net_step n' (concat (map (net_exchange_events s) xs)))
          = concat (map2 (\<lambda>x (k, w). [Wrote s (challenge_for x), To_openkore k w]) xs kws)"
        "length kws = length xs" "map (reply_of \<circ> snd) kws = map (\<lambda>x. Some (answer x)) xs"
      using Cons.IH(1) [OF one(3,4)] 1(3) unfolding list.pred_inject by blast
    show ?case
      by (rule exI [of _ "(k, w) # kws"]) (simp add: run_append one(1) rest(1,2) rest(3) [unfolded comp_def] reply_of_packet [OF one(2)]) }
  { case 2
    from step [OF this] obtain n' w where one: "run net_step n (net_exchange_events s x) = (n', [Wrote s (challenge_for x), To_openkore k w])"
      "ready s (k + 1) (nw_app n')" "idle_client n' s" by blast
    from Cons.IH(2) [OF one(2,3)] 2(3) show ?case by (simp add: run_append one(1)) }
qed

lemma exchange_traffic:
  assumes "length kws = length xs"
  shows "written_to s (concat (map2 (\<lambda>x (k, w). [Wrote s (challenge_for x), To_openkore k w]) xs kws)) = map challenge_for xs"
    and "kore_of_net (concat (map2 (\<lambda>x (k, w). [Wrote s (challenge_for x), To_openkore k w]) xs kws)) = kws"
  using assms by (induction kws xs rule: list_induct2) auto

text \<open>The server is started with its query port bound, and a client connects to the char port.\<close>

lemma started_by_promote_query:
  assumes "server_start env (new_ragnarok_server addr cfg) = Inr r" and "qs_listening (t_query (rs_system r))"
  obtains d l c p i where "r = promote ((new_ragnarok_server addr cfg)\<lparr>rs_dangling := d\<rparr>) (start_query (True, True, True, True))
      (fresh_listener l) (fresh_listener c) l c p i"
proof -
  obtain d b l c p i where r: "r = promote ((new_ragnarok_server addr cfg)\<lparr>rs_dangling := d\<rparr>) (start_query b)
      (fresh_listener l) (fresh_listener c) l c p i"
    by (rule started_by_promote [OF assms(1)])
  have "qs_listening (onQuery (start_query b))" using assms(2) by (simp add: r promote_fields)
  then have "b = (True, True, True, True)"
    by (cases b) (auto simp: start_query_def onQuery_def qs_start_def new_query_server_def split: if_splits)
  then show ?thesis using that r by blast
qed

lemma ready_connected:
  assumes "server_start env (new_ragnarok_server addr cfg) = Inr r" and "qs_listening (t_query (rs_system r))"
  shows "ready s 0 (fst (sys_step (rs_system r) (Char_connect s)))" and "\<not> halted (rs_system r)"
    and "\<exists>p. rs_char_srv r = Some (fresh_listener p)"
proof -
  obtain d l c p i where r: "r = promote ((new_ragnarok_server addr cfg)\<lparr>rs_dangling := d\<rparr>) (start_query (True, True, True, True))
      (fresh_listener l) (fresh_listener c) l c p i"
    by (rule started_by_promote_query [OF assms])
  let ?t = "rs_system r"
  have b: "\<not> g_randomize (t_bridge ?t)" "g_base_timeout (t_bridge ?t) = kConfiguredTimeout" "\<not> t_dead ?t"
    by (simp_all add: r promote_def Let_def set_size_bounds_def set_timeout_def new_ragnarok_server_def
        set_greedy_window_def set_strategy_def new_bridge_def)
  have q: "t_query ?t = started_server"
    by (simp add: r promote_fields start_query_def started_server_def onQuery_def
      qs_start_def new_query_server_def async_accept_def arm_def Let_def)
  have f: "lh_gg (t_login ?t)" "ch_gg (t_char ?t)" "\<not> g_pending (t_bridge ?t)" by (simp_all add: r promote_fields)
  show alive: "\<not> halted ?t" by (simp add: halted_def q b started_server_fields)
  have w: "wire_reset x y = Some x" for x y by (simp add: wire_reset_def split: option.split)
  show "ready s 0 (fst (sys_step ?t (Char_connect s)))"
    using alive f b by (simp add: sys_step_def char_on_connect_def Let_def ready_def
        attached_def halted_def q started_server_fields bindClientWire_def w)
  show "\<exists>p. rs_char_srv r = Some (fresh_listener p)" unfolding r promote_fields by blast
qed

text \<open>What the client makes of its stream: the packets its table cuts it into, each read as a challenge.\<close>

definition client_challenges :: "bytes list \<Rightarrow> (u16 \<times> nat \<times> bytes) option list" where
  "client_challenges chunks = map gg_client_reads (fst (client_reader.feed [] chunks))"

text \<open>After the accept the application is ready and the client's session idle.\<close>

lemma client_accepted:
  assumes "server_start env (new_ragnarok_server addr cfg) = Inr r" and "qs_listening (t_query (rs_system r))"
  obtains n where "net_step (network_of r) (Net_accept Char_listener True) = (n, [])" and "ready 0 0 (nw_app n)" and "idle_client n 0"
proof -
  note c = ready_connected [OF assms]
  obtain p where srv: "rs_char_srv r = Some (fresh_listener p)" using c(3) by blast
  define n where "n = fst (net_step (network_of r) (Net_accept Char_listener True))"
  have acc: "snd (net_step (network_of r) (Net_accept Char_listener True)) = []" "nw_app n = fst (sys_step (rs_system r) (Char_connect 0))"
      "nw_sessions n = [(Char_listener, started_session)]"
    using c(2) srv by (simp_all add: n_def net_step_def network_of_def net_accept_def listener_server_def
        set_listener_server_def fresh_listener_def on_accepted_def do_accept_def started_session_def app_step_def
        split_beta Let_def)
  have "idle_client n 0"
    by (simp add: idle_client_def acc(3) started_session_def ts_start_def ts_do_read_def new_tcp_session_def)
  moreover have "net_step (network_of r) (Net_accept Char_listener True) = (n, [])" using acc(1) by (simp add: n_def prod_eq_iff)
  moreover have "ready 0 0 (nw_app n)" using c(1) by (simp add: acc(2))
  ultimately show ?thesis using that by blast
qed

lemma service_keeps_running:
  assumes "server_start env (new_ragnarok_server addr cfg) = Inr r" and "qs_listening (t_query (rs_system r))"
    and "list_all (exchange_ok 0) xs"
  shows "\<not> halted (nw_app (fst (run net_step (network_of r)
               (Net_accept Char_listener True # concat (map (net_exchange_events 0) xs)))))"
proof -
  obtain n where n: "net_step (network_of r) (Net_accept Char_listener True) = (n, [])" "ready 0 0 (nw_app n)" "idle_client n 0"
    by (rule client_accepted [OF assms(1,2)])
  show ?thesis using net_exchanges(2) [OF n(2,3) assms(3)] by (simp add: n(1) ready_def)
qed

text \<open>
  The service, from socket to socket. A server that started with its query port accepts a client on
  its char port, and any number of exchanges follow: however TCP cuts the bytes the client is sent, it
  reads exactly OpenKore's queries, one challenge each and in order, and OpenKore reads, on one
  connection after the other, exactly the client's responses, each cut to its length field, as long as
  each response comes within the timeout.
\<close>

theorem service_on_sockets:
  assumes "server_start env (new_ragnarok_server addr cfg) = Inr r" and "qs_listening (t_query (rs_system r))"
    and "list_all (exchange_ok 0) xs"
    and "ws = snd (run net_step (network_of r)
               (Net_accept Char_listener True # concat (map (net_exchange_events 0) xs)))"
    and "concat chunks = concat (written_to 0 ws)"
  shows "client_challenges chunks = map (\<lambda>x. Some (gg_opcode Challenge, 4 + length (x_query x), x_query x)) xs
    \<and> map (reply_of \<circ> snd) (kore_of_net ws) = map (\<lambda>x. Some (answer x)) xs"
proof -
  obtain n where n: "net_step (network_of r) (Net_accept Char_listener True) = (n, [])" "ready 0 0 (nw_app n)" "idle_client n 0"
    by (rule client_accepted [OF assms(1,2)])
  obtain kws where kws: "ws = concat (map2 (\<lambda>x (k, w). [Wrote 0 (challenge_for x), To_openkore k w]) xs kws)"
      "length kws = length xs" "map (reply_of \<circ> snd) kws = map (\<lambda>x. Some (answer x)) xs"
    using net_exchanges(1) [OF n(2,3) assms(3)] unfolding assms(4) by (auto simp: n(1))
  note traffic = exchange_traffic [OF kws(2), of 0, folded kws(1)]
  have "whole (challenge_for x)" "gg_client_reads (challenge_for x) = Some (gg_opcode Challenge, 4 + length (x_query x), x_query x)"
    if "x \<in> set xs" for x
  proof -
    have "exchange_ok 0 x" using assms(3) that by (simp add: list_all_iff)
    then have q: "rd16le (x_query x) \<noteq> gg_opcode Challenge" "length (x_query x) < 65532" by (simp_all add: exchange_ok_def)
    then have "gg_fits (x_query x)" by (simp add: gg_fits_def)
    then show "whole (challenge_for x)" unfolding challenge_for_def by (rule whole_challenge)
    show "gg_client_reads (challenge_for x) = Some (gg_opcode Challenge, 4 + length (x_query x), x_query x)"
      unfolding challenge_for_def using q by (intro frame_gg_query_raw)
  qed
  then have "client_reader.feed [] chunks = (map challenge_for xs, [])"
    and "map (gg_client_reads \<circ> challenge_for) xs = map (\<lambda>x. Some (gg_opcode Challenge, 4 + length (x_query x), x_query x)) xs"
    using assms(5) unfolding traffic(1) by (simp_all add: whole_stream list_all_iff)
  then show ?thesis using kws(3) by (simp add: client_challenges_def traffic(2))
qed

lemma service_on_sockets_witness:
  "\<exists>r ws. server_start demo_env (new_ragnarok_server None sample_config) = Inr r
    \<and> ws = snd (run net_step (network_of r)
        (Net_accept Char_listener True # concat (map (net_exchange_events 0) [sample_exchange, sample_exchange])))
    \<and> client_challenges (written_to 0 ws) = [Some (gg_opcode Challenge, 6, [1, 2]), Some (gg_opcode Challenge, 6, [1, 2])]"
proof -
  obtain r where r: "server_start demo_env (new_ragnarok_server None sample_config) = Inr r" "qs_listening (t_query (rs_system r))"
    by (rule demo_started)
  have "exchange_ok 0 sample_exchange"
    by (simp add: exchange_ok_def sample_exchange_def call_at_def after_ms_def kConfiguredTimeout_def
        gg_response_def rd16le_def)
  then have "list_all (exchange_ok 0) [sample_exchange, sample_exchange]" by simp
  from service_on_sockets [OF r this refl refl]
  have "client_challenges (written_to 0 (snd (run net_step (network_of r)
        (Net_accept Char_listener True # concat (map (net_exchange_events 0) [sample_exchange, sample_exchange])))))
      = [Some (gg_opcode Challenge, 6, [1, 2]), Some (gg_opcode Challenge, 6, [1, 2])]"
    by (simp add: sample_exchange_def del: run_snd_Cons)
  then show ?thesis using r(1) by blast
qed

end
