(* ===== verification/Program.thy ===== *)
theory Program
  imports Service Bootstrap
begin

text \<open>
  The whole program: \<open>main\<close> with the event loop filled in. The network of theory \<open>Network\<close> runs on the
  started server until a signal stops the loop or an exception leaves a handler, and the exit code
  and what main shows follow from that.
\<close>

section \<open>What cannot end the process\<close>

text \<open>
  The channel between the bridge and the query server while the process is alive: either the query
  server keeps its discipline, or it never came to listen and does nothing.
\<close>

definition calm :: "thanatos \<Rightarrow> bool" where
  "calm t \<longleftrightarrow> \<not> halted t \<and> (sys_inv t \<or> qs_ops (t_query t) = [] \<and> qs_sock (t_query t) = None)"

text \<open>\<open>read_buf_\<close> of a session holds 8192 bytes; a token needs the random device.\<close>

definition kReadBuffer :: nat where "kReadBuffer = 8192"

definition random_works :: "call_env \<Rightarrow> bool" where
  "random_works e \<longleftrightarrow> makeLoginToken (le_rng (ce_login e)) \<noteq> None"

fun harmless :: "sys_event \<Rightarrow> bool" where
  "harmless (Login_data e s b) \<longleftrightarrow> random_works e \<and> length b \<le> kReadBuffer"
| "harmless (Char_data e s b) \<longleftrightarrow> length b \<le> kReadBuffer"
| "harmless (Bus_event e i c) \<longleftrightarrow> c \<noteq> C_accepted False"
| "harmless _ \<longleftrightarrow> True"

text \<open>A response fits into a frame, so \<open>encode\<close> does not throw.\<close>

lemma reply_encodes: "length r \<le> kReadBuffer \<Longrightarrow> qs_crashed (send_reply_bin r q) = qs_crashed q"
  using encode_packet_message [of ReplyId r]
  by (auto simp: send_reply_bin_def kReadBuffer_def arm_def Let_def split: option.split)

lemma reply_unconnected: "qs_sock q = None \<Longrightarrow> send_reply_bin r q = q"
  by (simp add: send_reply_bin_def)

lemma offer_alive_process:
  assumes "length b \<le> kReadBuffer"
  shows "halted (fst (offer_to_bridge e gg b t)) = halted t"
proof -
  have fit: "length (take (trim_to_pkt_len b) b) \<le> kReadBuffer" using assms by simp
  have one: "fst (perform_gg e t [To_client w p]) = t" for t w p by simp
  show ?thesis
  proof (cases rule: consume_cases [of "t_bridge t" b "gg_env_of e t"])
    case expired
    then show ?thesis
      by (cases rule: retry_cases [of "gg_env_of e t" "t_bridge t"])
         (simp_all add: offer_to_bridge_def halted_def)
  qed (simp_all add: offer_to_bridge_def halted_def reply_encodes [OF fit])
qed

lemma login_data_alive:
  assumes "random_works e" and "length b \<le> kReadBuffer"
  shows "halted (fst (login_on_data e s b t)) = halted t"
proof -
  let ?t = "t\<lparr>t_login := (t_login t)\<lparr>lh_cur := Some s\<rparr>\<rparr>"
  obtain t' co os where o: "offer_to_bridge e (lh_gg (t_login ?t)) b ?t = (t', co, os)" by (metis prod_cases3)
  have h: "halted t' = halted t" using offer_alive_process [OF assms(2), of e "lh_gg (t_login ?t)" ?t] o by (simp add: halted_def)
  have "\<exists>r. login_handle (ce_login e) cfg g f op = Inr r" for cfg g f op
    using assms(1) by (auto simp: random_works_def login_handle_def onTokenRequest_def Let_def simp del: split_paired_Ex)
  then obtain r where r: "login_handle (ce_login e) (lh_cfg (t_login t')) (t_globals t') (lh_flow (t_login t')) (rd16le b) = Inr r" by blast
  show ?thesis using h o r by (cases r) (auto simp: login_on_data_def Let_def halted_def)
qed

lemma char_data_alive:
  assumes "length b \<le> kReadBuffer"
  shows "halted (fst (char_on_data e s b t)) = halted t"
proof -
  let ?t = "t\<lparr>t_char := (t_char t)\<lparr>ch_cur := Some s\<rparr>\<rparr>"
  obtain t' co os where o: "offer_to_bridge e (ch_gg (t_char ?t)) b ?t = (t', co, os)" by (metis prod_cases3)
  have "halted t' = halted t" using offer_alive_process [OF assms, of e "ch_gg (t_char ?t)" ?t] o by (simp add: halted_def)
  then show ?thesis using o by (auto simp: char_on_data_def Let_def halted_def split: option.split prod.split)
qed

lemma connection_alive:
  "halted (login_on_connect s t) = halted t" "halted (login_on_disconnect s t) = halted t"
  "halted (char_on_connect s t) = halted t" "halted (char_on_disconnect s t) = halted t"
  by (simp_all add: login_on_connect_def login_on_disconnect_def char_on_connect_def char_on_disconnect_def halted_def Let_def)

text \<open>A completion other than the accept of a peer that has gone.\<close>

lemma bus_step_alive:
  assumes "q_shape q" and "\<not> qs_crashed q" and "c \<noteq> C_accepted False"
  shows "\<not> qs_crashed (fst (qs_step q (Complete i c)))"
proof (cases "i < length (qs_ops q) \<and> completes q (qs_ops q ! i) c")
  case True
  then obtain x where ops: "qs_ops q = [x]" "i = 0"
    using assms(1) by (cases "qs_ops q") (auto simp: q_shape_def split: list.splits)
  show ?thesis
  proof (cases x)
    case (Accept_op k)
    then show ?thesis using assms ops True
      by (cases c) (auto simp: q_shape_def on_accept_def current_sock_def async_accept_def read_len_def arm_def Let_def)
  qed (use assms ops in \<open>auto simp: q_shape_def on_read_len_def on_read_rest_def on_write_def recycle_def async_accept_def
        read_rest_def arm_def Let_def split: completion.split option.split sum.split\<close>)
qed (use assms in auto)

lemma deliver_query_frame:
  "t_query (fst (deliver e t [Deliver_query b])) = t_query t" "t_dead (fst (deliver e t [Deliver_query b])) = t_dead t"
  by (cases rule: deliver_query_cases [of t e b]; simp del: deliver.simps)+

lemma deliver_frame:
  "t_query (fst (deliver e t os)) = t_query t \<and> t_dead (fst (deliver e t os)) = t_dead t"
proof (induction os arbitrary: t)
  case (Cons x os)
  show ?case
  proof (cases x)
    case (Deliver_query b)
    obtain g acts where g: "on_query_from_kore (gg_env_of e t) (t_bridge t) b = (g, acts)" by fastforce
    obtain t1 o1 where p: "perform_gg e (t\<lparr>t_bridge := g\<rparr>) acts = (t1, o1)" by fastforce
    have "t_query t1 = t_query t \<and> t_dead t1 = t_dead t"
      using deliver_query_frame [of e t b] by (simp add: g p)
    then show ?thesis using Cons.IH [of t1] by (simp add: Deliver_query g p split_beta)
  qed (use Cons.IH in \<open>simp add: split_beta\<close>)
qed simp

lemma bus_alive:
  assumes "calm t" and "c \<noteq> C_accepted False"
  shows "calm (fst (bus_complete e i c t))"
proof -
  obtain q os where q: "qs_step (t_query t) (Complete i c) = (q, os)" by fastforce
  have f: "t_query (fst (bus_complete e i c t)) = q" "t_dead (fst (bus_complete e i c t)) = t_dead t"
    using q deliver_frame [of e "t\<lparr>t_query := q\<rparr>" os] by (simp_all add: bus_complete_def del: qs_step.simps)
  show ?thesis
  proof (cases "sys_inv t")
    case True
    then have "\<not> qs_crashed q" using assms q bus_step_alive [of "t_query t" c i]
      by (simp add: calm_def halted_def sys_inv_def del: qs_step.simps)
    then show ?thesis using assms(1) bus_inv [OF True, of e i c] by (simp add: calm_def halted_def f)
  next
    case False
    then have "q = t_query t" using assms(1) q by (auto simp: calm_def)
    then show ?thesis using assms(1) False by (simp add: calm_def halted_def f)
  qed
qed

lemma calm_step:
  assumes "calm t" and "harmless ev"
  shows "calm (fst (sys_step t ev))"
proof (cases "is_bus_event ev")
  case True
  then show ?thesis using assms bus_alive [OF assms(1)] by (cases ev) (simp_all add: sys_step_def calm_def [of t])
next
  case False
  have alive: "\<not> halted t" using assms(1) by (simp add: calm_def)
  then have step: "sys_step t ev = sys_handle t ev" by (simp add: sys_step_def)
  have "halted (fst (sys_handle t ev)) = halted t"
    using False assms(2)
    by (cases ev) (simp_all add: login_data_alive char_data_alive connection_alive)
  moreover have "settles t (sys_handle t ev)" by (rule client_event_settles [OF False])
  then have "qs_ops (t_query t) = [] \<and> qs_sock (t_query t) = None \<Longrightarrow> t_query (fst (sys_handle t ev)) = t_query t"
    by (auto simp: settles_def quiet_def answered_def reply_unconnected)
  ultimately show ?thesis
    using assms(1) alive settles_inv [OF client_event_settles [OF False, of t]] by (auto simp: calm_def step)
qed

text \<open>The same on the sockets.\<close>

fun harmless_net :: "net_event \<Rightarrow> bool" where
  "harmless_net (Net_io e s (Read_done b)) \<longleftrightarrow> random_works e \<and> length b \<le> kReadBuffer"
| "harmless_net (Net_bus e i c) \<longleftrightarrow> c \<noteq> C_accepted False"
| "harmless_net _ \<longleftrightarrow> True"

lemma random_works_live [simp]: "random_works (live_env n e) = random_works e"
  by (simp add: random_works_def live_env_def)

lemma calm_app: "calm (nw_app n) \<Longrightarrow> harmless ev \<Longrightarrow> calm (nw_app (fst (app_step n ev)))"
  by (simp add: calm_step)

lemma calm_session_do [simp]: "nw_app (fst (session_do n s ev)) = nw_app n"
  by (simp add: session_do_def split_beta Let_def)

lemma harmless_connection [simp]: "harmless (connect_event l s)" "harmless (disconnect_event l s)"
  by (cases l; simp)+

lemma calm_notify: "calm (nw_app n) \<Longrightarrow> calm (nw_app (fst (notify n s os)))"
proof (induction n s os rule: notify.induct)
  case (3 n s e os)
  then show ?case using calm_app [OF 3(2), of "disconnect_event (fst (nw_sessions n ! s)) s"] by (simp add: app_step_def split_beta)
qed (simp_all add: split_beta)

lemma calm_send_out: "calm (nw_app n) \<Longrightarrow> calm (nw_app (fst (send_out caller n outs)))"
proof (induction outs arbitrary: n)
  case (Cons x outs)
  show ?case
  proof (cases x)
    case (Kore k b)
    then show ?thesis using Cons by (simp add: split_beta)
  next
    case (Net a)
    then show ?thesis using Cons by (cases a) (simp_all add: split_beta Let_def calm_notify)
  qed
qed simp

lemma session_hands_on: "snd (session_step ts ev) = [On_data b] \<Longrightarrow> is_completion ev \<Longrightarrow> ev = Read_done b"
  by (cases ev) (auto simp: session_defs split: list.splits option.splits if_splits)

lemma calm_accept: "calm (nw_app n) \<Longrightarrow> calm (nw_app (fst (net_accept l ok n)))"
proof (cases "listener_server l n")
  case (Some v)
  assume c: "calm (nw_app n)"
  have f: "nw_app (set_listener_server l v' n) = nw_app n" for v' by (cases l) (simp_all add: set_listener_server_def)
  have "calm (fst (sys_step (nw_app n) (connect_event l k)))" for k using calm_step [OF c] by simp
  then show ?thesis using c by (auto simp: net_accept_def Some split_beta Let_def f split: list.split)
qed (simp add: net_accept_def)

lemma calm_io:
  assumes "calm (nw_app n)" and "harmless_net (Net_io e s ev)"
  shows "calm (nw_app (fst (net_io e s ev n)))"
proof (cases "s < length (nw_sessions n) \<and> is_completion ev")
  case True
  obtain n1 os where d: "session_do n s ev = (n1, os)" by fastforce
  have n1: "nw_app n1 = nw_app n" using calm_session_do [of n s ev] d by simp
  have io: "net_io e s ev n = (case os of
      [On_data b] \<Rightarrow>
        (let (n, outs) = app_step n1 (data_event (fst (nw_sessions n ! s)) (live_env n1 e) s b);
             (n, ws) = send_out (Some (fst (nw_sessions n1 ! s))) n outs
         in if halted (nw_app n) then (n, ws)
            else (let (n, os) = session_do n s Data_handled in (n, ws)))
    | _ \<Rightarrow> notify n1 s os)"
    using True d by (auto simp: net_io_def Let_def session_do_def split_beta nth_list_update split: list.split session_output.split)
  show ?thesis
  proof (cases "\<exists>b. os = [On_data b]")
    case True
    then obtain b where b: "os = [On_data b]" by blast
    have "snd (session_step (snd (nw_sessions n ! s)) ev) = os" using d by (simp add: session_do_def split_beta Let_def prod_eq_iff)
    then have "ev = Read_done b" using session_hands_on b \<open>s < length (nw_sessions n) \<and> is_completion ev\<close> by blast
    then have "harmless (data_event l (live_env n1 e) s b)" for l using assms(2) by (cases l) simp_all
    then have "calm (nw_app (fst (app_step n1 (data_event (fst (nw_sessions n ! s)) (live_env n1 e) s b))))"
      using calm_app [of n1] assms(1) n1 by simp
    from calm_send_out [OF this] show ?thesis by (simp add: io b split_beta Let_def)
  next
    case False
    then have "net_io e s ev n = notify n1 s os"
      by (auto simp: io split: list.split session_output.split)
    then show ?thesis using calm_notify [of n1 s os] assms(1) n1 by simp
  qed
qed (use assms in \<open>auto simp: net_io_def\<close>)

lemma calm_net_step: "calm (nw_app n) \<Longrightarrow> harmless_net ev \<Longrightarrow> calm (nw_app (fst (net_step n ev)))"
  by (cases ev) (simp_all add: net_step_def calm_accept calm_io calm_send_out calm_step split_beta)

lemma calm_net_run: "calm (nw_app n) \<Longrightarrow> list_all harmless_net evs \<Longrightarrow> calm (nw_app (fst (run net_step n evs)))"
  by (induction evs arbitrary: n) (simp_all add: calm_net_step)

lemma calm_started:
  assumes "server_start env (new_ragnarok_server addr cfg) = Inr r"
  shows "calm (rs_system r)"
proof -
  obtain d b l c p i where r: "r = promote ((new_ragnarok_server addr cfg)\<lparr>rs_dangling := d\<rparr>) (start_query b)
      (fresh_listener l) (fresh_listener c) l c p i"
    by (rule started_by_promote [OF assms])
  have t: "\<not> t_dead (rs_system r)" by (simp add: r promote_def Let_def new_ragnarok_server_def)
  have q: "t_query (rs_system r) = onQuery (start_query b)" by (simp add: r promote_fields)
  have "attached (rs_system r)" "\<not> g_pending (t_bridge (rs_system r))" by (simp_all add: r promote_fields attached_def)
  then show ?thesis
    by (cases b) (simp add: calm_def halted_def sys_inv_def t q start_query_def onQuery_def qs_start_def
        new_query_server_def q_shape_def async_accept_def arm_def Let_def)
qed

section \<open>The event loop inside main\<close>

text \<open>
  \<open>io_context::run\<close> on the started server: the events up to the one whose handler throws, or up to the
  signal that stops the loop. \<open>main\<close> then stops the server as the loop has left it.
\<close>

definition after_run :: "ragnarok_server \<Rightarrow> network \<Rightarrow> ragnarok_server" where
  "after_run r n = r\<lparr>rs_system := nw_app n, rs_login_srv := nw_login_srv n, rs_char_srv := nw_char_srv n\<rparr>"

definition io_run :: "net_event list \<Rightarrow> ragnarok_server \<Rightarrow> run_outcome \<times> ragnarok_server" where
  "io_run evs r =
     (let n = fst (run net_step (network_of r) evs)
      in (if halted (nw_app n) then Threw_exception else Returned, after_run r n))"

definition program ::
  "'n toml_api \<Rightarrow> (string \<Rightarrow> 'n option) \<Rightarrow> main_env \<Rightarrow> string list \<Rightarrow> net_event list \<Rightarrow> int \<times> main_effect list" where
  "program A parse e argv evs = main_program A parse (e\<lparr>me_run := io_run evs\<rparr>) argv"

definition program_traffic ::
  "'n toml_api \<Rightarrow> (string \<Rightarrow> 'n option) \<Rightarrow> main_env \<Rightarrow> string list \<Rightarrow> net_event list \<Rightarrow> net_output list" where
  "program_traffic A parse e argv evs =
     (case LoadConfig A (me_exists e) parse (GetConfigPathFromArgs argv) of
        Inl err \<Rightarrow> []
      | Inr config \<Rightarrow>
          (case server_start (me_sets e) (new_ragnarok_server (me_address e (ro_host config)) config) of
             Inl err \<Rightarrow> []
           | Inr ro \<Rightarrow> snd (run net_step (network_of ro) evs)))"

text \<open>The program comes up on a port set, with or without its query port.\<close>

definition comes_up ::
  "'n toml_api \<Rightarrow> (string \<Rightarrow> 'n option) \<Rightarrow> main_env \<Rightarrow> string list \<Rightarrow> Config \<Rightarrow> nat \<Rightarrow> bool" where
  "comes_up A parse e argv cfg k \<longleftrightarrow>
     LoadConfig A (me_exists e) parse (GetConfigPathFromArgs argv) = Inr cfg
     \<and> k < port_sets cfg \<and> set_binds (me_sets e) k \<and> (\<forall>j < k. \<not> set_binds (me_sets e) j)"

text \<open>How it ends, given what has been shown and the network at the end of the loop.\<close>

definition program_end :: "main_effect list \<Rightarrow> ragnarok_server \<Rightarrow> network \<Rightarrow> int \<times> main_effect list" where
  "program_end shown ro n =
     (if halted (nw_app n) then (1, shown @ [Fatal]) else (0, shown @ [Stopped (server_stop (after_run ro n)), Bye]))"

lemma program_comes_up:
  assumes "comes_up A parse e argv cfg k"
  obtains ro shown c where "server_start (me_sets e) (new_ragnarok_server (me_address e (ro_host cfg)) cfg) = Inr ro"
    and "qs_listening (t_query (rs_system ro)) \<longleftrightarrow> se_query (me_sets e k) = (True, True, True, True)"
    and "Summary (startup_summary (summary_of (binding_of_set cfg k)) True True c) \<in> set shown"
    and "rs_binding ro = Some (binding_of_set cfg k)"
    and "\<forall>evs. program_traffic A parse e argv evs = snd (run net_step (network_of ro) evs)"
    and "\<forall>evs. program A parse e argv evs = program_end shown ro (fst (run net_step (network_of ro) evs))"
proof -
  have up: "LoadConfig A (me_exists e) parse (GetConfigPathFromArgs argv) = Inr cfg" "k < port_sets cfg"
      "set_binds (me_sets e) k" "\<forall>j < k. \<not> set_binds (me_sets e) j"
    using assms by (simp_all add: comes_up_def)
  obtain ro where ro: "server_start (me_sets e) (new_ragnarok_server (me_address e (ro_host cfg)) cfg) = Inr ro"
      "qs_listening (t_query (rs_system ro)) \<longleftrightarrow> se_query (me_sets e k) = (True, True, True, True)"
      "rs_binding ro = Some (binding_of_set cfg k)"
    by (rule program_on_set [OF up])
  have traffic: "program_traffic A parse e argv evs = snd (run net_step (network_of ro) evs)" for evs
    by (simp add: program_traffic_def up(1) ro(1))
  obtain blob inner where sig: "build_signature (me_ndebug e) True True = (blob, inner)" by fastforce
  define lg where "lg = logger_init (me_from_str e) (me_platform e) (me_file_ok e) (service_name cfg) (log_level cfg)
    (log_to_file cfg) (log_file cfg) (log_max_size_bytes cfg) (log_max_files cfg) (setConfig cfg initial_logger)"
  let ?card = "Summary (startup_summary (summary_of (binding_of_set cfg k)) True True (int inner))"
  have "program A parse e argv evs
      = program_end [Logging lg, Signature blob, ?card] ro (fst (run net_step (network_of ro) evs))" for evs
    by (simp add: program_def main_program_def up(1) ro(1,3) locale_is_utf8_def sig io_run_def program_end_def lg_def Let_def)
  then show ?thesis using traffic ro(3) by (intro that [OF ro(1,2), of "int inner" "[Logging lg, Signature blob, ?card]"]) simp_all
qed

lemma accept_of_lost_peer:
  assumes "server_start env (new_ragnarok_server addr cfg) = Inr r" and "qs_listening (t_query (rs_system r))"
  shows "halted (nw_app (fst (net_step (network_of r) (Net_bus b 0 (C_accepted False)))))
    \<and> snd (net_step (network_of r) (Net_bus b 0 (C_accepted False))) = []"
proof -
  obtain d l c p i where r: "r = promote ((new_ragnarok_server addr cfg)\<lparr>rs_dangling := d\<rparr>) (start_query (True, True, True, True))
      (fresh_listener l) (fresh_listener c) l c p i"
    by (rule started_by_promote_query [OF assms])
  have q: "t_query (rs_system r) = started_server"
    by (simp add: r promote_fields start_query_def started_server_def onQuery_def
      qs_start_def new_query_server_def async_accept_def arm_def Let_def)
  have "qs_step started_server (Complete 0 (C_accepted False)) = (started_server\<lparr>qs_ops := [], qs_sock := Some (0, True), qs_crashed := True\<rparr>, [])"
    by (simp add: started_server_fields current_sock_def on_accept_def)
  moreover have "\<not> halted (rs_system r)" using calm_started [OF assms(1)] by (simp add: calm_def)
  ultimately show ?thesis
    by (simp add: net_step_def network_of_def app_step_def sys_step_def bus_complete_def q halted_def [of "_ \<lparr>t_query := _\<rparr>"]
        del: qs_step.simps)
qed

section \<open>The program at work\<close>



lemma started_sys_inv:
  assumes "server_start env (new_ragnarok_server addr cfg) = Inr r" and "qs_listening (t_query (rs_system r))"
  shows "sys_inv (rs_system r)"
proof -
  obtain d l c p i where r: "r = promote ((new_ragnarok_server addr cfg)\<lparr>rs_dangling := d\<rparr>) (start_query (True, True, True, True))
      (fresh_listener l) (fresh_listener c) l c p i"
    by (rule started_by_promote_query [OF assms])
  show ?thesis
    by (simp add: r promote_fields sys_inv_def attached_def start_query_def onQuery_def qs_start_def
        new_query_server_def q_shape_def async_accept_def arm_def Let_def)
qed

text \<open>
  C3: The bridge and the query server never disagree. Whatever happens on the sockets of a server started
  with its query port, and however clients and OpenKore interleave, at most one operation is
  outstanding towards OpenKore, and while a challenge is outstanding there is none while the peer's
  socket is open. So a second query never reaches a bridge that is busy, and a response always
  finds the peer that asked.
\<close>

theorem one_operation_on_network:
  assumes "server_start env (new_ragnarok_server addr cfg) = Inr r" and "address_ok addr"
    and "qs_listening (t_query (rs_system r))" and "t = nw_app (fst (run net_step (network_of r) evs))"
  shows "length (qs_ops (t_query t)) \<le> 1
    \<and> (g_pending (t_bridge t) \<longrightarrow> qs_ops (t_query t) = [] \<and> (\<exists>k. qs_sock (t_query t) = Some (k, True)))"
proof -
  obtain ses where "accounts (fst (run net_step (network_of r) evs)) ([] @ snd (run net_step (network_of r) evs)) []
      (fst (run sys_step (rs_system r) ses)) ([] @ snd (run sys_step (rs_system r) ses))"
    using network.sim_run [OF accounts_started [OF assms(1,2)], of evs] by blast
  then have t: "t = fst (run sys_step (rs_system r) ses)" by (simp add: accounts_def assms(4))
  have "sys_inv (rs_system r)" by (rule started_sys_inv [OF assms(1,3)])
  then have "sys_inv t" unfolding t by (rule system.inv_run)
  then show ?thesis by (auto simp: sys_inv_def q_shape_def split: list.splits)
qed

section \<open>The theorems at a concrete run\<close>

definition up_env :: main_env where
  "up_env = (sample_main_env Returned)\<lparr>me_sets := demo_env\<rparr>"

lemma up_env_comes_up: "\<exists>cfg. comes_up doc_api (\<lambda>_. Some sample_doc) up_env [''thanatos''] cfg 0"
proof -
  obtain cfg where c: "LoadConfig doc_api (me_exists up_env) (\<lambda>_. Some sample_doc) (GetConfigPathFromArgs [''thanatos'']) = Inr cfg"
    using sample_doc_loads by (auto simp: up_env_def sample_main_env_def)
  have "0 < port_sets cfg" using LoadConfig_cases [OF c] by (metis length_greater_0_conv min_less_iff_conj port_sets_def)
  then have "comes_up doc_api (\<lambda>_. Some sample_doc) up_env [''thanatos''] cfg 0"
    using c by (simp add: comes_up_def set_binds_def up_env_def demo_env_def)
  then show ?thesis ..
qed



lemma one_operation_on_network_witness:
  "\<exists>r t. server_start demo_env (new_ragnarok_server None sample_config) = Inr r
    \<and> t = nw_app (fst (run net_step (network_of r)
        (Net_accept Char_listener True # concat (map (net_exchange_events 0) [sample_exchange]))))
    \<and> length (qs_ops (t_query t)) \<le> 1"
proof -
  obtain r where r: "server_start demo_env (new_ragnarok_server None sample_config) = Inr r" "qs_listening (t_query (rs_system r))"
    by (rule demo_started)
  have "address_ok None" by (simp add: address_ok_def)
  from one_operation_on_network [OF r(1) this r(2) refl] show ?thesis using r(1) by blast
qed

end
