(* ===== verification/Journey.thy ===== *)
theory Journey
  imports Program
begin

text \<open>
  The way of a client into the game, through the whole program: the login port, the char port and, after
  the redirect, the char port again. Each packet of the client is read, handled and answered, and
  the answers are written, on the sockets of theory \<open>Network\<close>.
\<close>

section \<open>One packet and its answers\<close>

text \<open>A session whose queue holds \<open>bs\<close>, the first being written, while it handles a packet or reads.\<close>

definition holding :: "bool \<Rightarrow> bytes list \<Rightarrow> tcp_session \<Rightarrow> bool" where
  "holding busy bs ts \<longleftrightarrow> ts_open ts \<and> ts_in_handler ts = busy \<and> ts_reads ts = (if busy then 0 else 1)
     \<and> ts_queue ts = bs \<and> ts_writes ts = take 1 bs"

lemma holding_steps:
  "holding busy bs ts \<Longrightarrow> length bs < 1000 \<Longrightarrow> \<exists>ts'. session_step ts (Send_call b) = (ts', []) \<and> holding busy (bs @ [b]) ts'"
  "holding False [] ts \<Longrightarrow> \<exists>ts'. session_step ts (Read_done b) = (ts', [On_data b]) \<and> holding True [] ts'"
  "holding True bs ts \<Longrightarrow> \<exists>ts'. session_step ts Data_handled = (ts', []) \<and> holding False bs ts'"
  "holding False (b # bs) ts \<Longrightarrow> \<exists>ts'. session_step ts Write_done = (ts', [Sent b]) \<and> holding False bs ts'"
  by (cases bs; auto simp: holding_def session_defs)+

definition set_session :: "network \<Rightarrow> sid \<Rightarrow> listener \<times> tcp_session \<Rightarrow> network" where
  "set_session n s x = n\<lparr>nw_sessions := (nw_sessions n)[s := x]\<rparr>"

lemma set_session_fields [simp]:
  "nw_app (set_session n s x) = nw_app n" "length (nw_sessions (set_session n s x)) = length (nw_sessions n)"
  "s < length (nw_sessions n) \<Longrightarrow> nw_sessions (set_session n s x) ! s = x"
  "set_session (set_session n s x) s y = set_session n s y"
  "nw_sessions (n\<lparr>nw_app := t\<rparr>) = nw_sessions n"
  by (simp_all add: set_session_def)

lemma live_env_given [simp]: "ce_login (live_env n e) = ce_login e" "ce_tick (live_env n e) = ce_tick e"
  by (simp_all add: live_env_def)

lemma session_do_set:
  "nw_sessions n ! s = (l, ts) \<Longrightarrow> session_step ts ev = (ts', os) \<Longrightarrow> session_do n s ev = (set_session n s (l, ts'), os)"
  by (simp add: session_do_def set_session_def del: session_step.simps)

lemma send_out_burst:
  assumes "s < length (nw_sessions n)" and "nw_sessions n ! s = (l, ts)" and "holding busy bs ts" and "length bs + length ps \<le> 1000"
  shows "\<exists>ts'. send_out caller n (map (\<lambda>p. Net (Send s p)) ps) = (set_session n s (l, ts'), []) \<and> holding busy (bs @ ps) ts'"
  using assms
proof (induction ps arbitrary: n ts bs)
  case Nil
  then have "set_session n s (l, ts) = n" by (metis list_update_id network.surjective network.update_convs(2) set_session_def)
  then show ?case using Nil(3) by (intro exI [of _ ts]) simp
next
  case (Cons p ps)
  have "length bs < 1000" using Cons.prems(4) by simp
  then obtain ts1 where ts1: "session_step ts (Send_call p) = (ts1, [])" "holding busy (bs @ [p]) ts1"
    using holding_steps(1) [OF Cons.prems(3)] by blast
  have d: "session_do n s (Send_call p) = (set_session n s (l, ts1), [])" by (rule session_do_set [OF Cons.prems(2) ts1(1)])
  have "\<exists>ts'. send_out caller (set_session n s (l, ts1)) (map (\<lambda>p. Net (Send s p)) ps)
      = (set_session (set_session n s (l, ts1)) s (l, ts'), []) \<and> holding busy ((bs @ [p]) @ ps) ts'"
    by (rule Cons.IH [OF _ _ ts1(2)]) (use Cons.prems in simp_all)
  then obtain ts' where "send_out caller (set_session n s (l, ts1)) (map (\<lambda>p. Net (Send s p)) ps) = (set_session n s (l, ts'), [])"
      "holding busy (bs @ p # ps) ts'" by auto
  then show ?case by (intro exI [of _ ts']) (simp add: d)
qed

lemma burst_written:
  assumes "\<not> halted (nw_app n)" and "s < length (nw_sessions n)" and "nw_sessions n ! s = (l, ts)" and "holding False bs ts"
  shows "\<exists>ts'. run net_step n (replicate (length bs) (Net_io e s Write_done)) = (set_session n s (l, ts'), map (Wrote s) bs)
    \<and> holding False [] ts'"
  using assms
proof (induction bs arbitrary: n ts)
  case Nil
  then have "set_session n s (l, ts) = n" by (metis list_update_id network.surjective network.update_convs(2) set_session_def)
  then show ?case using Nil(4) by (intro exI [of _ ts]) simp
next
  case (Cons b bs)
  obtain ts1 where ts1: "session_step ts Write_done = (ts1, [Sent b])" "holding False bs ts1"
    using holding_steps(4) [OF Cons.prems(4)] by blast
  have d: "session_do n s Write_done = (set_session n s (l, ts1), [Sent b])" by (rule session_do_set [OF Cons.prems(3) ts1(1)])
  have step: "net_step n (Net_io e s Write_done) = (set_session n s (l, ts1), [Wrote s b])"
    using Cons.prems(1,2) by (simp add: net_step_def net_io_def d Let_def)
  have "\<exists>ts'. run net_step (set_session n s (l, ts1)) (replicate (length bs) (Net_io e s Write_done))
      = (set_session (set_session n s (l, ts1)) s (l, ts'), map (Wrote s) bs) \<and> holding False [] ts'"
    by (rule Cons.IH [OF _ _ _ ts1(2)]) (use Cons.prems in simp_all)
  then show ?case by (auto simp: run.simps(2) step)
qed

text \<open>A connected session that waits for the client, and what it does with a packet that is answered by \<open>ps\<close>.\<close>

definition waits :: "network \<Rightarrow> listener \<Rightarrow> sid \<Rightarrow> bool" where
  "waits n l s \<longleftrightarrow> s < length (nw_sessions n) \<and> (\<exists>ts. nw_sessions n ! s = (l, ts) \<and> holding False [] ts)"

definition asks :: "call_env \<Rightarrow> sid \<Rightarrow> bytes \<Rightarrow> nat \<Rightarrow> net_event list" where
  "asks e s b k = Net_io e s (Read_done b) # replicate k (Net_io e s Write_done)"

lemma net_answer:
  assumes "waits n l s" and "\<not> halted (nw_app n)" and "length ps \<le> 1000"
    and answer: "\<And>e'. ce_alive e' s \<Longrightarrow> ce_login e' = ce_login e \<Longrightarrow> ce_tick e' = ce_tick e \<Longrightarrow>
      sys_step (nw_app n) (data_event l e' s b) = (t, map (\<lambda>p. Net (Send s p)) ps)" and "\<not> halted t"
  obtains n' where "run net_step n (asks e s b (length ps)) = (n', map (Wrote s) ps)" and "nw_app n' = t" and "waits n' l s"
    and "length (nw_sessions n') = length (nw_sessions n)" and "nw_login_srv n' = nw_login_srv n" and "nw_char_srv n' = nw_char_srv n"
proof -
  obtain ts where ts: "s < length (nw_sessions n)" "nw_sessions n ! s = (l, ts)" "holding False [] ts"
    using assms(1) by (auto simp: waits_def)
  obtain ts1 where ts1: "session_step ts (Read_done b) = (ts1, [On_data b])" "holding True [] ts1"
    using holding_steps(2) [OF ts(3)] by blast
  let ?n1 = "set_session n s (l, ts1)"
  have d1: "session_do n s (Read_done b) = (?n1, [On_data b])" by (rule session_do_set [OF ts(2) ts1(1)])
  have "ce_alive (live_env ?n1 e) s" using ts(1) ts1(2) by (simp add: live_env_def holds_self_def holding_def)
  then have a: "app_step ?n1 (data_event l (live_env ?n1 e) s b) = (?n1\<lparr>nw_app := t\<rparr>, map (\<lambda>p. Net (Send s p)) ps)"
    using answer [of "live_env ?n1 e"] by (simp add: app_step_def)
  let ?n2 = "?n1\<lparr>nw_app := t\<rparr>"
  obtain ts2 where ts2: "send_out (Some l) ?n2 (map (\<lambda>p. Net (Send s p)) ps) = (set_session ?n2 s (l, ts2), [])" "holding True ps ts2"
    using send_out_burst [of s ?n2 l ts1 True "[]" ps "Some l"] ts(1) ts1(2) assms(3) by auto
  obtain ts3 where ts3: "session_step ts2 Data_handled = (ts3, [])" "holding False ps ts3"
    using holding_steps(3) [OF ts2(2)] by blast
  let ?n3 = "set_session ?n2 s (l, ts3)"
  have d3: "session_do (set_session ?n2 s (l, ts2)) s Data_handled = (?n3, [])"
    using session_do_set [of "set_session ?n2 s (l, ts2)" s l ts2 Data_handled ts3 "[]"] ts(1) ts3(1) by simp
  have step: "net_step n (Net_io e s (Read_done b)) = (?n3, [])"
    using assms(2,5) ts(1,2) a ts2(1) d3 by (simp add: net_step_def net_io_def d1 Let_def)
  obtain ts4 where ts4: "run net_step ?n3 (replicate (length ps) (Net_io e s Write_done)) = (set_session ?n3 s (l, ts4), map (Wrote s) ps)"
      "holding False [] ts4"
    using burst_written [of ?n3 s l ts3 ps e] assms(5) ts(1) ts3(2) by auto
  let ?n4 = "set_session ?n3 s (l, ts4)"
  have "run net_step n (asks e s b (length ps)) = (?n4, map (Wrote s) ps)" using ts4(1) by (simp add: asks_def run.simps(2) step)
  moreover have "nw_app ?n4 = t" "waits ?n4 l s" "length (nw_sessions ?n4) = length (nw_sessions n)"
      "nw_login_srv ?n4 = nw_login_srv n" "nw_char_srv ?n4 = nw_char_srv n"
    using ts(1) ts4(2) by (simp_all add: waits_def set_session_def)
  ultimately show ?thesis by (rule that)
qed

section \<open>The handlers without a challenge outstanding\<close>

text \<open>The configurations and the states of the two flows while no challenge is outstanding.\<close>

definition walking :: "LoginCfg \<Rightarrow> CharConfig \<Rightarrow> login_flow \<Rightarrow> u32 \<Rightarrow> char_flow \<Rightarrow> thanatos \<Rightarrow> bool" where
  "walking lc cc lf g cf t \<longleftrightarrow> \<not> halted t \<and> attached t \<and> \<not> g_pending (t_bridge t)
     \<and> lh_cfg (t_login t) = lc \<and> ch_cfg (t_char t) = cc
     \<and> lh_flow (t_login t) = lf \<and> next_account_id (t_globals t) = g \<and> ch_flow (t_char t) = cf"

lemma idle_offer:
  assumes "\<not> g_pending (t_bridge t)" and "rd16le b \<noteq> gg_opcode Response"
  shows "offer_to_bridge e gg b t = (t, False, [])"
  using assms by (simp add: offer_to_bridge_def maybe_consume_c2s_def)

lemma login_answer:
  assumes "walking lc cc lf g cf t" and "2 \<le> length b" and "rd16le b \<noteq> gg_opcode Response"
    and "login_handle (ce_login e) lc (t_globals t) lf (rd16le b) = Inr (lf', gl', ps)" and "ce_alive e s"
  shows "sys_step t (Login_data e s b)
    = (t\<lparr>t_login := (t_login t)\<lparr>lh_cur := Some s, lh_flow := lf'\<rparr>, t_globals := gl'\<rparr>, map (\<lambda>p. Net (Send s p)) ps)"
  using assms by (simp add: walking_def sys_step_def login_on_data_def idle_offer sendBytes_def weak_lock_def Let_def)

lemma char_answer:
  assumes "walking lc cc lf g cf t" and "2 \<le> length b" and "rd16le b \<noteq> gg_opcode Response"
    and "echo_stub (rd16le b) (drop 2 b) = None" and "char_handle cc (ce_tick e) (rd16le b) (drop 2 b) cf = (cf', ps)" and "ce_alive e s"
  shows "sys_step t (Char_data e s b)
    = (t\<lparr>t_char := (t_char t)\<lparr>ch_cur := Some s, ch_flow := cf'\<rparr>\<rparr>, map (\<lambda>p. Net (Send s p)) ps)"
  using assms by (simp add: walking_def sys_step_def char_on_data_def idle_offer sendBytes_def weak_lock_def Let_def)

lemma walking_updates:
  "walking lc cc lf g cf t \<Longrightarrow> walking lc cc lf' (next_account_id gl') cf
     (t\<lparr>t_login := (t_login t)\<lparr>lh_cur := c, lh_flow := lf'\<rparr>, t_globals := gl'\<rparr>)"
  "walking lc cc lf g cf t \<Longrightarrow> walking lc cc lf g cf' (t\<lparr>t_char := (t_char t)\<lparr>ch_cur := c, ch_flow := cf'\<rparr>\<rparr>)"
  "walking lc cc lf g cf t \<Longrightarrow> walking lc cc lf g cf (fst (sys_step t (connect_event l s)))"
  by (cases l; simp add: walking_def halted_def attached_def sys_step_def login_on_connect_def char_on_connect_def bindClientWire_def Let_def)+

text \<open>The same on a session that waits.\<close>

definition beside :: "network \<Rightarrow> network \<Rightarrow> bool" where
  "beside n n' \<longleftrightarrow> nw_login_srv n' = nw_login_srv n \<and> nw_char_srv n' = nw_char_srv n"

lemma login_visit:
  assumes "waits n Login_listener s" and "walking lc cc lf g cf (nw_app n)"
    and "2 \<le> length b" and "rd16le b \<noteq> gg_opcode Response" and "k = length ps" and "k \<le> 1000"
    and "login_handle (ce_login e) lc (t_globals (nw_app n)) lf (rd16le b) = Inr (lf', gl', ps)"
  obtains n' where "run net_step n (asks e s b k) = (n', map (Wrote s) ps)" and "waits n' Login_listener s"
    and "walking lc cc lf' (next_account_id gl') cf (nw_app n')" and "length (nw_sessions n') = length (nw_sessions n)" and "beside n n'"
proof -
  let ?t = "(nw_app n)\<lparr>t_login := (t_login (nw_app n))\<lparr>lh_cur := Some s, lh_flow := lf'\<rparr>, t_globals := gl'\<rparr>"
  have w: "walking lc cc lf' (next_account_id gl') cf ?t" by (rule walking_updates(1) [OF assms(2)])
  have alive: "\<not> halted (nw_app n)" "\<not> halted ?t" using assms(2) w by (simp_all add: walking_def)
  have answer: "sys_step (nw_app n) (data_event Login_listener e' s b) = (?t, map (\<lambda>p. Net (Send s p)) ps)"
    if "ce_alive e' s" "ce_login e' = ce_login e" for e'
    using login_answer [OF assms(2-4), of e' lf' gl' ps s] assms(7) that by simp
  obtain n' where n': "run net_step n (asks e s b (length ps)) = (n', map (Wrote s) ps)" "nw_app n' = ?t" "waits n' Login_listener s"
      "length (nw_sessions n') = length (nw_sessions n)" "nw_login_srv n' = nw_login_srv n" "nw_char_srv n' = nw_char_srv n"
    using net_answer [OF assms(1) alive(1) assms(6) [unfolded assms(5)] answer alive(2)] by blast
  show ?thesis by (rule that [OF n'(1) [folded assms(5)] n'(3)]) (use w n' in \<open>simp_all add: beside_def\<close>)
qed

lemma char_visit:
  assumes "waits n Char_listener s" and "walking lc cc lf g cf (nw_app n)"
    and "2 \<le> length b" and "rd16le b \<noteq> gg_opcode Response" and "k = length ps" and "k \<le> 1000"
    and "echo_stub (rd16le b) (drop 2 b) = None" and "char_handle cc (ce_tick e) (rd16le b) (drop 2 b) cf = (cf', ps)"
  obtains n' where "run net_step n (asks e s b k) = (n', map (Wrote s) ps)" and "waits n' Char_listener s"
    and "walking lc cc lf g cf' (nw_app n')" and "length (nw_sessions n') = length (nw_sessions n)" and "beside n n'"
proof -
  let ?t = "(nw_app n)\<lparr>t_char := (t_char (nw_app n))\<lparr>ch_cur := Some s, ch_flow := cf'\<rparr>\<rparr>"
  have w: "walking lc cc lf g cf' ?t" by (rule walking_updates(2) [OF assms(2)])
  have alive: "\<not> halted (nw_app n)" "\<not> halted ?t" using assms(2) w by (simp_all add: walking_def)
  have answer: "sys_step (nw_app n) (data_event Char_listener e' s b) = (?t, map (\<lambda>p. Net (Send s p)) ps)"
    if "ce_alive e' s" "ce_tick e' = ce_tick e" for e'
    using char_answer [OF assms(2-4,7), of e' cf' ps s] assms(8) that by simp
  obtain n' where n': "run net_step n (asks e s b (length ps)) = (n', map (Wrote s) ps)" "nw_app n' = ?t" "waits n' Char_listener s"
      "length (nw_sessions n') = length (nw_sessions n)" "nw_login_srv n' = nw_login_srv n" "nw_char_srv n' = nw_char_srv n"
    using net_answer [OF assms(1) alive(1) assms(6) [unfolded assms(5)] answer alive(2)] by blast
  show ?thesis by (rule that [OF n'(1) [folded assms(5)] n'(3)]) (use w n' in \<open>simp_all add: beside_def\<close>)
qed

text \<open>A new connection.\<close>

lemma client_connects:
  assumes "walking lc cc lf g cf (nw_app n)" and "listener_server l n = Some (fresh_listener p)"
  obtains n' where "net_step n (Net_accept l True) = (n', [])" and "waits n' l (length (nw_sessions n))"
    and "walking lc cc lf g cf (nw_app n')" and "length (nw_sessions n') = Suc (length (nw_sessions n))" and "beside n n'"
proof -
  let ?s = "length (nw_sessions n)"
  let ?n' = "n\<lparr>nw_app := fst (sys_step (nw_app n) (connect_event l ?s)), nw_sessions := nw_sessions n @ [(l, started_session)]\<rparr>"
  have same: "set_listener_server l (fresh_listener p) n = n"
    using assms(2) by (cases l) (simp_all add: set_listener_server_def listener_server_def)
  have "server_step (fresh_listener p) (Accepted True) = (fresh_listener p, [started_session])"
    by (simp add: fresh_listener_def on_accepted_def do_accept_def started_session_def)
  then have "net_accept l True n = (?n', [])"
    by (simp add: net_accept_def assms(2) same app_step_def split_beta Let_def)
  then have "net_step n (Net_accept l True) = (?n', [])" using assms(1) by (simp add: net_step_def walking_def)
  moreover have "holding False [] started_session"
    by (simp add: holding_def started_session_def ts_start_def ts_do_read_def new_tcp_session_def)
  ultimately show ?thesis
    by (intro that [of ?n']) (use walking_updates(3) [OF assms(1), of l ?s] in \<open>simp_all add: waits_def beside_def nth_append\<close>)
qed

text \<open>Where the walk begins.\<close>

definition login_cfg_of :: "bytes option \<Rightarrow> u16 \<Rightarrow> LoginCfg" where
  "login_cfg_of addr port = lh_cfg (set_char_port_le port (new_login_handler addr))"

definition char_cfg_of :: "bytes option \<Rightarrow> u16 \<Rightarrow> CharConfig" where
  "char_cfg_of addr port = ch_cfg (set_listen_port port (new_char_handler addr))"

lemma walk_begins:
  assumes "server_start env (new_ragnarok_server addr cfg) = Inr r" and "rs_binding r = Some b"
  shows "walking (login_cfg_of addr (bi_char_port b)) (char_cfg_of addr (bi_char_port b)) new_login_flow 2000001 new_char_flow (nw_app (network_of r))"
    and "nw_sessions (network_of r) = []"
    and "\<exists>p. nw_login_srv (network_of r) = Some (fresh_listener p)" and "\<exists>p. nw_char_srv (network_of r) = Some (fresh_listener p)"
proof -
  obtain d q l c p i where r: "r = promote ((new_ragnarok_server addr cfg)\<lparr>rs_dangling := d\<rparr>) (start_query q)
      (fresh_listener l) (fresh_listener c) l c p i"
    by (rule started_by_promote [OF assms(1)])
  have b: "bi_char_port b = c" using assms(2) by (auto simp: r promote_fields)
  have "\<not> halted (rs_system r)" using calm_started [OF assms(1)] by (simp add: calm_def)
  moreover have "attached (rs_system r)" "\<not> g_pending (t_bridge (rs_system r))" by (simp_all add: r promote_fields attached_def)
  moreover have "lh_flow (t_login (rs_system r)) = new_login_flow" "ch_flow (t_char (rs_system r)) = new_char_flow"
      "next_account_id (t_globals (rs_system r)) = 2000001"
      "lh_cfg (t_login (rs_system r)) = login_cfg_of addr c" "ch_cfg (t_char (rs_system r)) = char_cfg_of addr c"
    by (simp_all add: r promote_def Let_def new_ragnarok_server_def initial_globals_def set_char_port_le_def set_listen_port_def
        new_login_handler_def new_char_handler_def login_cfg_of_def char_cfg_of_def split: option.split)
  ultimately show "walking (login_cfg_of addr (bi_char_port b)) (char_cfg_of addr (bi_char_port b)) new_login_flow 2000001 new_char_flow (nw_app (network_of r))"
    by (simp add: walking_def network_of_def b)
  show "nw_sessions (network_of r) = []" "\<exists>p. nw_login_srv (network_of r) = Some (fresh_listener p)"
      "\<exists>p. nw_char_srv (network_of r) = Some (fresh_listener p)"
    by (auto simp: network_of_def r promote_fields)
qed

section \<open>The three visits\<close>

definition login_walk :: "(nat \<Rightarrow> call_env) \<Rightarrow> bytes \<Rightarrow> bytes \<Rightarrow> bytes \<Rightarrow> net_event list" where
  "login_walk e key ticket master =
     Net_accept Login_listener True # asks (e 0) 0 key 1 @ asks (e 1) 0 ticket 1 @ asks (e 2) 0 master 1"

definition char_walk :: "(nat \<Rightarrow> call_env) \<Rightarrow> bytes \<Rightarrow> bytes \<Rightarrow> net_event list" where
  "char_walk e sel pick = Net_accept Char_listener True # asks (e 3) 1 sel 4 @ asks (e 4) 1 pick 2"

definition map_walk :: "(nat \<Rightarrow> call_env) \<Rightarrow> bytes \<Rightarrow> net_event list" where
  "map_walk e enter = Net_accept Char_listener True # asks (e 5) 2 enter 12"

text \<open>The client's packets, by their opcodes only.\<close>

definition login_packets :: "bytes \<Rightarrow> bytes \<Rightarrow> bytes \<Rightarrow> bool" where
  "login_packets key ticket master \<longleftrightarrow> 2 \<le> length key \<and> 2 \<le> length ticket \<and> 2 \<le> length master
     \<and> rd16le key \<in> set secure_opcodes \<and> rd16le ticket \<in> set token_opcodes \<and> rd16le master \<in> set master_opcodes"

definition char_packets :: "bytes \<Rightarrow> bytes \<Rightarrow> bytes \<Rightarrow> bool" where
  "char_packets sel pick enter \<longleftrightarrow> 2 \<le> length sel \<and> 2 \<le> length pick \<and> 2 \<le> length enter
     \<and> isSelectServerOpcode (rd16le sel) \<and> isCharSelectOpcode (rd16le pick) \<and> isEnterOpcode (rd16le enter)"

lemma login_opcodes_apart:
  "op \<in> set secure_opcodes \<Longrightarrow> op \<noteq> gg_opcode Response"
  "op \<in> set token_opcodes \<Longrightarrow> op \<noteq> gg_opcode Response \<and> op \<notin> set secure_opcodes"
  "op \<in> set master_opcodes \<Longrightarrow> op \<noteq> gg_opcode Response \<and> op \<notin> set secure_opcodes \<and> op \<notin> set token_opcodes"
  by (auto simp: secure_opcodes_def token_opcodes_def master_opcodes_def)

lemma char_opcodes_apart:
  "isSelectServerOpcode op \<Longrightarrow> op \<noteq> gg_opcode Response \<and> echo_stub op pl = None"
  "isCharSelectOpcode op \<Longrightarrow> op \<noteq> gg_opcode Response \<and> echo_stub op pl = None"
  "isEnterOpcode op \<Longrightarrow> op \<noteq> gg_opcode Response \<and> echo_stub op pl = None"
  by (auto simp: isSelectServerOpcode_def select_server_opcodes_def isCharSelectOpcode_def isEnterOpcode_def echo_stub_def)

lemma login_part:
  assumes "walking lc cc lf g cf (nw_app n)" and "nw_sessions n = []" and "nw_login_srv n = Some (fresh_listener p)"
    and "login_packets key ticket master" and "makeLoginToken (le_rng (ce_login (e 1))) = Some tok"
  obtains n' lf' gl where "run net_step n (login_walk e key ticket master)
      = (n', [Wrote 0 secure_login_key_packet, Wrote 0 (login_token_packet \<lparr>lt_token = tok\<rparr>),
              Wrote 0 (server_info_packet (master_info (ce_login (e 2)) lc gl (rd16le master)))])"
    and "next_account_id gl = g" and "walking lc cc lf' (g + 1) cf (nw_app n')" and "length (nw_sessions n') = 1" and "beside n n'"
proof -
  have k: "rd16le key \<in> set secure_opcodes" "2 \<le> length key" "rd16le ticket \<in> set token_opcodes" "2 \<le> length ticket"
      "rd16le master \<in> set master_opcodes" "2 \<le> length master" using assms(4) by (simp_all add: login_packets_def)
  note a = login_opcodes_apart(1) [OF k(1)] login_opcodes_apart(2) [OF k(3)] login_opcodes_apart(3) [OF k(5)]
  have "listener_server Login_listener n = Some (fresh_listener p)" using assms(3) by (simp add: listener_server_def)
  from client_connects [OF assms(1) this] obtain n0 where n0: "net_step n (Net_accept Login_listener True) = (n0, [])"
      "waits n0 Login_listener 0" "walking lc cc lf g cf (nw_app n0)" "length (nw_sessions n0) = 1" "beside n n0"
    by (metis One_nat_def assms(2) list.size(3))
  have h1: "login_handle (ce_login (e 0)) lc (t_globals (nw_app n0)) lf (rd16le key) = Inr (lf, t_globals (nw_app n0), [secure_login_key_packet])"
    using k(1) by (simp add: login_handle_def onSecureHandshake_def)
  have g0: "next_account_id (t_globals (nw_app n0)) = g" using n0(3) by (simp add: walking_def)
  obtain n1 where n1: "run net_step n0 (asks (e 0) 0 key 1) = (n1, [Wrote 0 secure_login_key_packet])" "waits n1 Login_listener 0"
      "walking lc cc lf (next_account_id (t_globals (nw_app n0))) cf (nw_app n1)"
      "length (nw_sessions n1) = length (nw_sessions n0)" "beside n0 n1"
    by (rule login_visit [OF n0(2,3) k(2) a(1) _ _ h1, of 1]) simp_all
  let ?lf = "lf\<lparr>lf_awaiting_master := True\<rparr>"
  have h2: "login_handle (ce_login (e 1)) lc (t_globals (nw_app n1)) lf (rd16le ticket)
      = Inr (?lf, t_globals (nw_app n1), [login_token_packet \<lparr>lt_token = tok\<rparr>])"
    using k(3) a(2) assms(5) by (simp add: login_handle_def onTokenRequest_def Let_def)
  have g1: "next_account_id (t_globals (nw_app n1)) = g" using n1(3) g0 by (simp add: walking_def)
  obtain n2 where n2: "run net_step n1 (asks (e 1) 0 ticket 1) = (n2, [Wrote 0 (login_token_packet \<lparr>lt_token = tok\<rparr>)])"
      "waits n2 Login_listener 0" "walking lc cc ?lf (next_account_id (t_globals (nw_app n1))) cf (nw_app n2)"
      "length (nw_sessions n2) = length (nw_sessions n1)" "beside n1 n2"
    by (rule login_visit [OF n1(2,3) k(4) _ _ _ h2, of 1]) (use a(2) in simp_all)
  let ?gl = "t_globals (nw_app n2)"
  have g2: "next_account_id ?gl = g" using n2(3) g1 by (simp add: walking_def)
  obtain lf' gl' where h3: "login_handle (ce_login (e 2)) lc ?gl ?lf (rd16le master)
      = Inr (lf', gl', [server_info_packet (master_info (ce_login (e 2)) lc ?gl (rd16le master))])" and g': "next_account_id gl' = g + 1"
    using k(5) a(3) g2 by (simp add: login_handle_def onMasterLogin_awaiting)
  obtain n3 where n3: "run net_step n2 (asks (e 2) 0 master 1)
      = (n3, [Wrote 0 (server_info_packet (master_info (ce_login (e 2)) lc ?gl (rd16le master)))])"
      "walking lc cc lf' (next_account_id gl') cf (nw_app n3)" "length (nw_sessions n3) = length (nw_sessions n2)" "beside n2 n3"
    by (rule login_visit [OF n2(2,3) k(6) _ _ _ h3, of 1]) (use a(3) in simp_all)
  have "run net_step n (login_walk e key ticket master)
      = (n3, [Wrote 0 secure_login_key_packet, Wrote 0 (login_token_packet \<lparr>lt_token = tok\<rparr>),
              Wrote 0 (server_info_packet (master_info (ce_login (e 2)) lc ?gl (rd16le master)))])"
    by (simp add: login_walk_def run.simps(2) run_append n0(1) n1(1) n2(1) n3(1) del: One_nat_def)
  then show ?thesis by (rule that [OF _ g2]) (use n0(4,5) n1(4,5) n2(4,5) n3(2-4) g' in \<open>simp_all add: beside_def\<close>)
qed

lemma char_part:
  assumes "walking lc cc lf g cf (nw_app n)" and "char_inv cc cf" and "\<not> cf_expecting_map_login cf" and "length (nw_sessions n) = 1"
    and "nw_char_srv n = Some (fresh_listener p)" and "char_packets sel pick enter" and "6 \<le> length sel"
  obtains n' charid where "run net_step n (char_walk e sel pick @ map_walk e enter)
      = (n', map (Wrote 1) [take 4 (drop 2 sel), preamble_082D_packet, preamble_09A0_packet \<lparr>pc_value = 1\<rparr>, char_list_packet (makeDemoCharList cc),
            redirect_packet (redirect_info cc (take 4 (drop 2 sel)) charid False),
            redirect_packet (redirect_info cc (take 4 (drop 2 sel)) charid True)]
          @ map (Wrote 2) (map_enter_packets cc (ce_tick (e 5)) (take 4 (drop 2 sel)) 49 113 0))"
    and "charid = (if 6 \<le> length pick then take 4 (drop 2 pick) else cf_selectedCharID cf)" and "\<not> halted (nw_app n')"
proof -
  have k: "isSelectServerOpcode (rd16le sel)" "2 \<le> length sel" "isCharSelectOpcode (rd16le pick)" "2 \<le> length pick"
      "isEnterOpcode (rd16le enter)" "2 \<le> length enter" using assms(6) by (simp_all add: char_packets_def)
  note a = char_opcodes_apart(1) [OF k(1), of "drop 2 sel"] char_opcodes_apart(2) [OF k(3), of "drop 2 pick"]
    char_opcodes_apart(3) [OF k(5), of "drop 2 enter"]
  let ?acc = "take 4 (drop 2 sel)"
  let ?id = "replace4 (drop 2 pick) (cf_selectedCharID cf)"
  have "listener_server Char_listener n = Some (fresh_listener p)" using assms(5) by (simp add: listener_server_def)
  from client_connects [OF assms(1) this] obtain n0 where n0: "net_step n (Net_accept Char_listener True) = (n0, [])"
      "waits n0 Char_listener 1" "walking lc cc lf g cf (nw_app n0)" "length (nw_sessions n0) = 2" "beside n n0"
    by (metis Suc_1 assms(4))
  have "replace4 (drop 2 sel) (cf_accountID cf) = ?acc" using assms(7) by (simp add: replace4_def)
  then obtain cf1 where h1: "char_handle cc (ce_tick (e 3)) (rd16le sel) (drop 2 sel) cf
      = (cf1, [?acc, preamble_082D_packet, preamble_09A0_packet \<lparr>pc_value = 1\<rparr>, char_list_packet (makeDemoCharList cc)])"
      and cf1: "cf_accountID cf1 = ?acc" "\<not> cf_expecting_map_login cf1" "cf_selectedCharID cf1 = cf_selectedCharID cf"
    using k(1) assms(3) by (simp add: char_handle_def onServerSelected_eq)
  have inv1: "char_inv cc cf1" using char_inv_handle [OF assms(2), of "ce_tick (e 3)" "rd16le sel" "drop 2 sel"] h1 by simp
  obtain n1 where n1: "run net_step n0 (asks (e 3) 1 sel 4)
      = (n1, map (Wrote 1) [?acc, preamble_082D_packet, preamble_09A0_packet \<lparr>pc_value = 1\<rparr>, char_list_packet (makeDemoCharList cc)])"
      "waits n1 Char_listener 1" "walking lc cc lf g cf1 (nw_app n1)" "length (nw_sessions n1) = length (nw_sessions n0)" "beside n0 n1"
    by (rule char_visit [OF n0(2,3) k(2) _ _ _ _ h1, of 4]) (use a(1) in simp_all)
  obtain cf2 where h2: "char_handle cc (ce_tick (e 4)) (rd16le pick) (drop 2 pick) cf1
      = (cf2, [redirect_packet (redirect_info cc ?acc ?id False), redirect_packet (redirect_info cc ?acc ?id True)])"
      and cf2: "cf_accountID cf2 = ?acc" "cf_expecting_map_login cf2"
    using k(3) cf1 char_select_not_server [OF k(3)] by (simp add: char_handle_def onCharSelected_eq)
  have inv2: "char_inv cc cf2" using char_inv_handle [OF inv1, of "ce_tick (e 4)" "rd16le pick" "drop 2 pick"] h2 by simp
  obtain n2 where n2: "run net_step n1 (asks (e 4) 1 pick 2)
      = (n2, map (Wrote 1) [redirect_packet (redirect_info cc ?acc ?id False), redirect_packet (redirect_info cc ?acc ?id True)])"
      "waits n2 Char_listener 1" "walking lc cc lf g cf2 (nw_app n2)" "length (nw_sessions n2) = length (nw_sessions n1)" "beside n1 n2"
    by (rule char_visit [OF n1(2,3) k(4) _ _ _ _ h2, of 2]) (use a(2) in simp_all)
  have "listener_server Char_listener n2 = Some (fresh_listener p)"
    using assms(5) n0(5) n1(5) n2(5) by (simp add: listener_server_def beside_def)
  from client_connects [OF n2(3) this] obtain n3 where n3: "net_step n2 (Net_accept Char_listener True) = (n3, [])"
      "waits n3 Char_listener 2" "walking lc cc lf g cf2 (nw_app n3)"
    by (metis n0(4) n1(4) n2(4))
  obtain cf3 where h3: "char_handle cc (ce_tick (e 5)) (rd16le enter) (drop 2 enter) cf2
      = (cf3, map_enter_packets cc (ce_tick (e 5)) ?acc 49 113 0)"
    using char_handle_expecting [OF inv2 cf2(2)] cf2(1) by simp
  obtain n4 where n4: "run net_step n3 (asks (e 5) 2 enter 12)
      = (n4, map (Wrote 2) (map_enter_packets cc (ce_tick (e 5)) ?acc 49 113 0))" "waits n4 Char_listener 2" "walking lc cc lf g cf3 (nw_app n4)"
    by (rule char_visit [OF n3(2,3) k(6) _ _ _ _ h3, of 12]) (use a(3) in simp_all)
  have run: "run net_step n (char_walk e sel pick @ map_walk e enter)
      = (n4, map (Wrote 1) [?acc, preamble_082D_packet, preamble_09A0_packet \<lparr>pc_value = 1\<rparr>, char_list_packet (makeDemoCharList cc),
            redirect_packet (redirect_info cc ?acc ?id False), redirect_packet (redirect_info cc ?acc ?id True)]
          @ map (Wrote 2) (map_enter_packets cc (ce_tick (e 5)) ?acc 49 113 0))"
    by (simp add: char_walk_def map_walk_def run.simps(2) run_append n0(1) n1(1) n2(1) n3(1) n4(1) del: One_nat_def)
  show ?thesis by (rule that [OF run]) (use n4(3) in \<open>auto simp: replace4_def walking_def\<close>)
qed

section \<open>The whole way\<close>

lemma walk_cfgs:
  assumes "address_ok addr"
  shows "length (lc_hostIp (login_cfg_of addr port)) = 4" "cc_mapIp (char_cfg_of addr port) = lc_hostIp (login_cfg_of addr port)"
    "lc_hostPortLE (login_cfg_of addr port) = port" "cc_mapPortLE (char_cfg_of addr port) = port"
    "lc_serverName (login_cfg_of addr port) = ''Arkan Software''" "cc_initialMap (char_cfg_of addr port) = ''moc_pryd03.gat''"
    "cc_sex (char_cfg_of addr port) = 1"
  using assms by (auto simp: address_ok_def login_cfg_of_def char_cfg_of_def set_char_port_le_def set_listen_port_def
      new_login_handler_def new_char_handler_def default_LoginCfg_def default_CharConfig_def Let_def split: option.splits)



end
