(* ===== verification/Project_Tests.thy ===== *)
theory Project_Tests
  imports Query_Handler Net_Client
begin

text \<open>
  The test programs of the repository, \<open>tests/SessionRegistryTests.cpp\<close>,
  \<open>tests/QueryServerRoundtripTests.cpp\<close> and \<open>tests/NetClientTests.cpp\<close>, run on the models: what each test does
  to the objects is a list of events, what it expects is compared with what the model puts out. A
  session the test fakes is part of the test.
\<close>

section \<open>SessionRegistryTests\<close>

definition waiter_predicate :: "bytes \<Rightarrow> bool" where
  "waiter_predicate b \<longleftrightarrow> length b = 3 \<and> b ! 0 = 0xAA"

definition waiter_test :: "nat registry_event list" where
  "waiter_test =
     [Wait_next waiter_predicate 0, Notify [0x00, 0x01], Notify [0xAA, 0xBB, 0xCC], Notify [0xAA, 0xBB, 0xCC]]"

text \<open>The callback fires once, for the first packet that matches, with its bytes.\<close>

theorem waiter_test_passes:
  "snd (run registry_step empty_registry waiter_test) = [(0, [0xAA, 0xBB, 0xCC])]"
  by (simp add: waiter_test_def waiter_predicate_def empty_registry_def wait_next_c2s_def notify_c2s_def
      peek_waiter_def drop_waiter_def)

section \<open>QueryServerRoundtripTests\<close>

text \<open>
  Session 0 is the peer the test watches, session 1 the client it fakes: bytes sent to it are
  reported to the registry as if the client had answered with them.
\<close>

definition fake_client :: "session_action list \<Rightarrow> query_event list" where
  "fake_client acts = concat (map (\<lambda>a. case a of Send s b \<Rightarrow> if s = 1 then [Client_bytes b] else [] | Close s \<Rightarrow> []) acts)"

definition roundtrip_test :: "bool \<Rightarrow> session_action list" where
  "roundtrip_test key_first =
     (let blob = [0x10, 0x20, 0x30];
          step = query_step key_first (\<lambda>s. True);
          (h, acts) = run step (new_query_handler 1048576)
            [Peer_connect 0, Active_client (Some 1), Peer_data 0 (frame MSG_THANATOS_QUERY (encode_blob blob))]
      in acts @ snd (run step h (fake_client acts @ [Peer_disconnect 0])))"

definition roundtrip_expected :: "session_action list \<Rightarrow> bool" where
  "roundtrip_expected acts =
     (case last acts of
        Send s out \<Rightarrow> s = 0 \<and> 4 \<le> length out \<and> unat (r16 out) = length out \<and> r16 (drop 2 out) = MSG_THANATOS_REPLY
          \<and> decode_blob (drop 4 out) = Some [0x10, 0x20, 0x30]
      | Close s \<Rightarrow> False)"

text \<open>
  The test passes when the session pointer is read before it is moved into the connection; in the
  other order of evaluation nothing is sent at all.
\<close>

lemma roundtrip_test_sends:
  "roundtrip_test True =
     [Send 1 [0x10, 0x20, 0x30], Send 0 (frame MSG_THANATOS_REPLY (encode_blob [0x10, 0x20, 0x30]))]"
proof -
  define b :: bytes where "b = [0x10, 0x20, 0x30]"
  have b: "length b = 3" by (simp add: b_def)
  let ?q = "frame MSG_THANATOS_QUERY (encode_blob b)"
  let ?step = "query_step True (\<lambda>s. True)"
  let ?reg = "set_active_client empty_registry (Some 1)"
  let ?c = "\<lparr>qc_session = 0, qc_buf = []\<rparr>"
  let ?h = "\<lparr>peers = [Some 0 \<mapsto> ?c], qh_registry = ?reg, max_buf = 1048576\<rparr>"
  have "get_active_client (\<lambda>s. True) ?reg = Some 1"
    by (simp add: get_active_client_def set_active_client_def weak_lock_def)
  then have "handle_frame (\<lambda>s. True) ?reg 0 ?q = (wait_next_c2s ?reg (\<lambda>_. True) 0, [Send 1 b])"
    by (intro handle_query_frame) (simp add: b)
  moreover have "qh_drain ?q = ([?q], [], False)" by (rule drain_one_frame) (simp add: b)
  ultimately have data: "qh_on_data (\<lambda>s. True) ?h 0 ?q
      = (?h\<lparr>qh_registry := wait_next_c2s ?reg (\<lambda>_. True) 0\<rparr>, [Send 1 b])"
    using b by (subst qh_on_data_ok [of _ _ ?c]) simp_all
  have "run ?step (new_query_handler 1048576) [Peer_connect 0, Active_client (Some 1), Peer_data 0 ?q]
      = (?h\<lparr>qh_registry := wait_next_c2s ?reg (\<lambda>_. True) 0\<rparr>, [Send 1 b])"
    using data by (simp add: prod_eq_iff new_query_handler_def qh_on_connect_def)
  then show ?thesis
    unfolding roundtrip_test_def Let_def b_def [symmetric]
    by (simp add: fake_client_def notify_waiting reply_callback_def Let_def)
qed

theorem roundtrip_test_passes: "roundtrip_expected (roundtrip_test True)"
proof -
  let ?b = "encode_blob [0x10, 0x20, 0x30]"
  have "r16 (frame MSG_THANATOS_REPLY ?b) = 9" "r16 (drop 2 (frame MSG_THANATOS_REPLY ?b)) = MSG_THANATOS_REPLY"
    using frame_size [of _ _ "[]"] frame_id [of _ _ "[]"] by simp_all
  moreover have "decode_blob ?b = Some [0x10, 0x20, 0x30]"
    using decode_encode_blob [of "[0x10, 0x20, 0x30]" "[]"] by simp
  ultimately show ?thesis by (simp add: roundtrip_expected_def roundtrip_test_sends frame_payload)
qed

theorem roundtrip_test_order: "roundtrip_test False = []"
proof -
  let ?run = "run (query_step False (\<lambda>s. True)) (new_query_handler 1048576)"
  have "snd (?run es) = []" for es by (rule query_mute_when_moved_first)
  then have "snd (?run es) = []" "snd (run (query_step False (\<lambda>s. True)) (fst (?run es)) es') = []" for es es'
    by (simp, metis run_append snd_conv append_is_Nil_conv)
  then show ?thesis by (simp add: roundtrip_test_def split_beta Let_def del: run_snd_Cons run_fst_Cons)
qed

section \<open>NetClientTests\<close>

definition echo_test :: "bytes \<Rightarrow> client_event list" where
  "echo_test msg =
     [Set_on_data, Set_on_error, Connect_call True ''127.0.0.1'' 40000, Client_send msg, Connect_done True,
      Client_write True, Client_read (Some msg), Data_returned, Client_close]"

theorem echo_test_passes:
  assumes "msg \<noteq> []"
  shows "snd (run client_step new_tcp_client (echo_test msg))
    = [Resolving ''127.0.0.1'' 40000, Client_sent msg, Client_data msg]"
  using assms by (simp add: echo_test_def new_tcp_client_def client_defs)

definition upstream_close_test :: "client_event list" where
  "upstream_close_test =
     [Set_on_error, Connect_call True ''127.0.0.1'' 40000, Connect_done True, Client_read None]"

text \<open>
  The second test waits two seconds for an error after the peer has closed the connection. The client
  does not report one: it announces a retry after one second, connects again (the acceptor of the
  test still listens) and waits for data.
\<close>

theorem upstream_close_test_fails:
  "snd (run client_step new_tcp_client (upstream_close_test
      @ [Expires Reconnect_timer, Timer_handler Reconnect_timer True, Connect_done True]))
    = [Resolving ''127.0.0.1'' 40000, Retry_in 1, Resolving ''127.0.0.1'' 40000]"
  by (simp add: upstream_close_test_def new_tcp_client_def client_defs)

end
