(* ===== verification/Windows_Calls.thy ===== *)
theory Windows_Calls
  imports Terminal_Output Token
begin

text \<open>
  The code under \<open>_WIN32\<close>: the console (\<open>infrastructure/terminal/Console.cpp\<close>, \<open>shared/BannerPrinter.hpp\<close>)
  and the random source \<open>infrastructure/crypto/WinCngRng.hpp\<close>. The functions of the system are arguments:
  what \<open>BCryptGenRandom\<close> returns and fills in, the text \<open>MultiByteToWideChar\<close> makes of UTF-8, the modes
  \<open>SetConsoleMode\<close> accepts. The console itself is a record of what the calls changed.
\<close>

section \<open>Random source\<close>

text \<open>The length of the buffer goes out as 32 bits; the status 0 is success.\<close>

definition wincng_random :: "(u32 \<Rightarrow> u32 \<times> bytes) \<Rightarrow> nat \<Rightarrow> bool \<times> bytes" where
  "wincng_random gen n = (let (st, out) = gen (of_nat n) in (st = 0, out))"

text \<open>A token is made exactly when the system call succeeds, from the bytes it filled in.\<close>

lemma wincng_token:
  "makeLoginToken (wincng_random gen 12) = (if fst (gen 12) = 0 then Some (b64url_12 (snd (gen 12))) else None)"
  by (simp add: makeLoginToken_def wincng_random_def split_beta Let_def)

section \<open>Console\<close>

text \<open>\<open>GetConsoleMode\<close> fails for a handle that is no console: no mode. Written are the buffers of \<open>WriteConsoleW\<close>.\<close>

record win_console =
  wc_handle :: bool
  wc_mode :: "u32 option"
  wc_accepts :: "u32 \<Rightarrow> bool"
  wc_output_cp :: u32
  wc_written :: "u16 list list"
  wc_stdout :: string

definition set_console_mode :: "u32 \<Rightarrow> win_console \<Rightarrow> win_console" where
  "set_console_mode m c = (if wc_accepts c m then c\<lparr>wc_mode := Some m\<rparr> else c)"

definition with_vt :: "u32 \<Rightarrow> u32" where
  "with_vt m = m OR 0x0004"

definition enable_vt_sequences_if_possible :: "win_console \<Rightarrow> win_console" where
  "enable_vt_sequences_if_possible c =
     (if \<not> wc_handle c then c
      else (case wc_mode c of None \<Rightarrow> c | Some m \<Rightarrow> set_console_mode (with_vt m) c))"

definition is_console :: "win_console \<Rightarrow> bool" where
  "is_console c \<longleftrightarrow> wc_handle c \<and> wc_mode c \<noteq> None"

definition enable_vt_utf8 :: "win_console \<Rightarrow> win_console" where
  "enable_vt_utf8 c =
     (let c = c\<lparr>wc_output_cp := 65001\<rparr>
      in (case wc_mode c of Some m \<Rightarrow> set_console_mode (with_vt m) c | None \<Rightarrow> c))"

definition utf8_to_utf16 :: "(string \<Rightarrow> u16 list) \<Rightarrow> string \<Rightarrow> u16 list" where
  "utf8_to_utf16 to_wide s = (if s = [] then [] else to_wide s)"

definition win_print_utf8_banner :: "(string \<Rightarrow> u16 list) \<Rightarrow> string \<Rightarrow> win_console \<Rightarrow> win_console" where
  "win_print_utf8_banner to_wide utf8 c =
     (if is_console c then
        (let c = enable_vt_utf8 c
         in c\<lparr>wc_written := wc_written c @ [utf8_to_utf16 to_wide utf8]\<rparr>)
      else c\<lparr>wc_stdout := wc_stdout c @ utf8\<rparr>)"

definition win_emit_utf8_line :: "(string \<Rightarrow> u16 list) \<Rightarrow> string \<Rightarrow> win_console \<Rightarrow> win_console" where
  "win_emit_utf8_line to_wide utf8 c =
     win_print_utf8_banner to_wide [CHR 0x0D, CHR 0x0A] (win_print_utf8_banner to_wide utf8 c)"

section \<open>Where the text goes\<close>

lemma console_stays [simp]:
  "is_console (enable_vt_utf8 c) = is_console c" "wc_stdout (enable_vt_utf8 c) = wc_stdout c"
  "wc_written (enable_vt_utf8 c) = wc_written c" "is_console (win_print_utf8_banner w s c) = is_console c"
  by (auto simp: is_console_def enable_vt_utf8_def set_console_mode_def win_print_utf8_banner_def Let_def split: option.splits)

lemma with_vt_again [simp]: "with_vt (with_vt m) = with_vt m"
  by (simp add: with_vt_def or.assoc)

text \<open>
  A list of printed texts goes to one place as a whole: to the console as one buffer each, in order, or,
  when standard output is redirected, unchanged to standard output. So a redirected start
  writes the same bytes as the printers of theory \<open>Terminal_Output\<close> say.
\<close>

lemma printed_to_console:
  "is_console c \<Longrightarrow> wc_written (fold (win_print_utf8_banner w) ss c) = wc_written c @ map (utf8_to_utf16 w) ss
     \<and> wc_stdout (fold (win_print_utf8_banner w) ss c) = wc_stdout c"
proof (induction ss arbitrary: c)
  case (Cons s ss)
  have "is_console (win_print_utf8_banner w s c)" using Cons.prems by simp
  from Cons.IH [OF this] show ?case using Cons.prems by (simp add: win_print_utf8_banner_def Let_def)
qed simp

lemma printed_to_stdout:
  "\<not> is_console c \<Longrightarrow> wc_stdout (fold (win_print_utf8_banner w) ss c) = wc_stdout c @ concat (map (print_utf8_banner Windows e) ss)
     \<and> wc_written (fold (win_print_utf8_banner w) ss c) = wc_written c"
proof (induction ss arbitrary: c)
  case (Cons s ss)
  have "\<not> is_console (win_print_utf8_banner w s c)" using Cons.prems by simp
  from Cons.IH [OF this] show ?case
    using Cons.prems by (simp add: win_print_utf8_banner_def print_utf8_banner_def)
qed simp

lemma line_to_stdout:
  assumes "\<not> is_console c"
  shows "wc_stdout (win_emit_utf8_line w l c) = wc_stdout c @ emit_utf8_line Windows e l"
  using printed_to_stdout [OF assms, of w "[l, [CHR 0x0D, CHR 0x0A]]" e] by (simp add: win_emit_utf8_line_def emit_utf8_line_def)

text \<open>
  Escape sequences are interpreted from the first card on, if the console accepts the mode: switching
  it on keeps every other bit, and printing does not switch it off.
\<close>

lemma vt_enabled:
  assumes "is_console c" and "wc_mode c = Some m" and "wc_accepts c (with_vt m)"
  shows "wc_mode (enable_vt_sequences_if_possible c) = Some (with_vt m)"
    and "wc_mode (win_print_utf8_banner w s (enable_vt_sequences_if_possible c)) = Some (with_vt m)"
  using assms by (simp_all add: enable_vt_sequences_if_possible_def is_console_def set_console_mode_def
      win_print_utf8_banner_def enable_vt_utf8_def Let_def)

end
