(* ===== verification/Orchestrator.thy ===== *)
theory Orchestrator
  imports Config Environment
begin

text \<open>
  The orchestrator, \<open>scripts/thanatos-orchestrator-cli\<close> (Python): a command line that runs blocks of
  servers, each on its own triple of ports. Modelled are the domain entities, the application service
  \<open>application/services/orchestrator.py\<close> and the configuration it writes for an instance
  (\<open>infrastructure/config/toml_config_repo.py\<close>). Which processes have exited and which ports listen when
  they are looked at, what the repository loads and whether the system calls succeed is given with
  the command. A process that has exited stays so (\<open>Popen.poll\<close> keeps the return code).
\<close>

section \<open>Entities\<close>

record PortTriple =
  pt_config_index :: nat
  pt_login :: int
  pt_char :: int
  pt_query :: int

definition as_list :: "PortTriple \<Rightarrow> int list" where
  "as_list t = [pt_login t, pt_char t, pt_query t]"

record ServerInstance =
  in_block :: nat
  in_slot :: nat
  in_proc :: nat
  in_ports :: PortTriple
  in_name :: string
  in_config_path :: string

datatype ServerStatus = ONLINE | STARTING | STOPPING | OFFLINE | ERROR

definition proc_running :: "nat set \<Rightarrow> ServerInstance \<Rightarrow> bool" where
  "proc_running exited i \<longleftrightarrow> in_proc i \<notin> exited"

definition ports_listening :: "(int \<Rightarrow> bool) \<Rightarrow> ServerInstance \<Rightarrow> bool" where
  "ports_listening up i \<longleftrightarrow> list_all up (as_list (in_ports i))"

definition get_status :: "nat set \<Rightarrow> (int \<Rightarrow> bool) \<Rightarrow> ServerInstance \<Rightarrow> ServerStatus" where
  "get_status exited up i =
     (let running = proc_running exited i; listening = ports_listening up i
      in if running \<and> listening then ONLINE
         else if running \<and> \<not> listening then STARTING
         else if \<not> running \<and> listening then ERROR
         else OFFLINE)"

text \<open>The uptime shown, for the whole seconds since the start.\<close>

definition two_digits :: "nat \<Rightarrow> string" where
  "two_digits n = (if n < 10 then ''0'' @ to_string n else to_string n)"

definition uptime :: "nat set \<Rightarrow> ServerInstance \<Rightarrow> int \<Rightarrow> string" where
  "uptime exited i seconds =
     (if \<not> proc_running exited i then ''--:--:--''
      else (let elapsed = nat (max 0 seconds);
                h = elapsed div 3600; m = (elapsed mod 3600) div 60; s = elapsed mod 60
            in two_digits h @ '':'' @ two_digits m @ '':'' @ two_digits s))"

section \<open>The configuration of an instance\<close>

datatype py_error = PyValueError | PyRuntimeError | PyTypeError | PyAttributeError | PyFileError | PyMarkupError

text \<open>\<open>d.get(k, default)\<close> of a dictionary; anything else has no such attribute.\<close>

fun dict_get :: "doc \<Rightarrow> string \<Rightarrow> doc \<Rightarrow> py_error + doc" where
  "dict_get (D_tab kvs) k dflt = Inr (case map_of kvs k of Some v \<Rightarrow> v | None \<Rightarrow> dflt)"
| "dict_get _ k dflt = Inl PyAttributeError"

text \<open>
  The ports of a list as the integers every use converts them to. Values that are no integers make the
  conversion fail; the strings of digits that Python would convert are taken for failures too.
\<close>

definition as_port :: "doc \<Rightarrow> int option" where
  "as_port d = (case d of D_int i \<Rightarrow> Some i | D_bool b \<Rightarrow> Some (of_bool b) | _ \<Rightarrow> None)"

fun port_values :: "doc \<Rightarrow> py_error + int list" where
  "port_values (D_arr ds) =
     (if list_all (\<lambda>d. as_port d \<noteq> None) ds then Inr (List.map_filter as_port ds) else Inl PyValueError)"
| "port_values _ = Inl PyTypeError"

definition get_ports :: "doc \<Rightarrow> string \<Rightarrow> string \<Rightarrow> py_error + int list" where
  "get_ports data sec key =
     (case dict_get data sec (D_tab []) of
        Inl e \<Rightarrow> Inl e
      | Inr s \<Rightarrow> (case dict_get s key (D_arr []) of Inl e \<Rightarrow> Inl e | Inr v \<Rightarrow> port_values v))"

definition extract_port_triples :: "doc \<Rightarrow> py_error + PortTriple list" where
  "extract_port_triples data =
     (case get_ports data ''thanatos'' ''login_ports'' of
        Inl e \<Rightarrow> Inl e
      | Inr ls \<Rightarrow>
          (case get_ports data ''thanatos'' ''char_ports'' of
             Inl e \<Rightarrow> Inl e
           | Inr cs \<Rightarrow>
               (case get_ports data ''query'' ''ports'' of
                  Inl e \<Rightarrow> Inl e
                | Inr qs \<Rightarrow>
                    (let n = min (min (length ls) (length cs)) (length qs)
                     in Inr (map (\<lambda>i. \<lparr>pt_config_index = i, pt_login = ls ! i, pt_char = cs ! i, pt_query = qs ! i\<rparr>) [0..<n])))))"

text \<open>Writing a key of a dictionary: in place, or at its end.\<close>

definition dict_put :: "string \<Rightarrow> doc \<Rightarrow> (string \<times> doc) list \<Rightarrow> (string \<times> doc) list" where
  "dict_put k v kvs =
     (if k \<in> fst ` set kvs then map (\<lambda>(k', d). if k' = k then (k', v) else (k', d)) kvs else kvs @ [(k, v)])"

definition set_default :: "string \<Rightarrow> (string \<times> doc) list \<Rightarrow> (string \<times> doc) list" where
  "set_default k kvs = (if k \<in> fst ` set kvs then kvs else kvs @ [(k, D_tab [])])"

fun set_port_field :: "doc \<Rightarrow> string \<Rightarrow> int \<Rightarrow> py_error + doc" where
  "set_port_field (D_tab kvs) key port =
     Inr (D_tab (dict_put key
       (case map_of kvs key of Some (D_arr ds) \<Rightarrow> D_arr [D_int port] | _ \<Rightarrow> D_int port) kvs))"
| "set_port_field _ key port = Inl PyAttributeError"

fun set_field :: "doc \<Rightarrow> string \<Rightarrow> doc \<Rightarrow> py_error + doc" where
  "set_field (D_tab kvs) key v = Inr (D_tab (dict_put key v kvs))"
| "set_field _ key v = Inl PyTypeError"

text \<open>The last component of a path, and a name below a directory.\<close>

fun path_parts :: "string \<Rightarrow> string \<Rightarrow> string list" where
  "path_parts acc [] = [acc]"
| "path_parts acc (c # s) = (if c = CHR ''/'' then acc # path_parts [] s else path_parts (acc @ [c]) s)"

definition path_name :: "string \<Rightarrow> string" where
  "path_name p =
     (case filter (\<lambda>x. x \<noteq> [] \<and> x \<noteq> ''.'') (path_parts [] p) of [] \<Rightarrow> [] | xs \<Rightarrow> last xs)"

definition below :: "string \<Rightarrow> string \<Rightarrow> string" where
  "below dir name = (if name = [] then dir else dir @ ''/'' @ name)"

definition singleton_keys :: "string list" where
  "singleton_keys =
     [''pidfile'', ''pid_file'', ''pidpath'', ''pid_path'', ''lockfile'', ''lock_file'', ''socket'', ''socket_path'',
      ''unix_socket'', ''unixsocket'', ''state_file'', ''statefile'', ''state_path'', ''control_socket'', ''controlsocket'']"

fun walk :: "string \<Rightarrow> doc \<Rightarrow> doc" where
  "walk dir (D_tab kvs) =
     D_tab (map (\<lambda>(k, v). (k,
       case v of D_str s \<Rightarrow> if k \<in> set singleton_keys then D_str (below dir (path_name s)) else v
       | _ \<Rightarrow> walk dir v)) kvs)"
| "walk dir (D_arr ds) = D_arr (map (walk dir) ds)"
| "walk dir d = d"

definition update_section ::
  "string \<Rightarrow> (doc \<Rightarrow> py_error + doc) \<Rightarrow> (string \<times> doc) list \<Rightarrow> py_error + (string \<times> doc) list" where
  "update_section sec f kvs =
     (case map_of kvs sec of
        None \<Rightarrow> Inl PyValueError
      | Some d \<Rightarrow> (case f d of Inl e \<Rightarrow> Inl e | Inr d' \<Rightarrow> Inr (dict_put sec d' kvs)))"

text \<open>The document written for an instance; the base configuration is copied first.\<close>

definition instance_config :: "doc \<Rightarrow> PortTriple \<Rightarrow> string \<Rightarrow> string \<Rightarrow> py_error + doc" where
  "instance_config base ports server_name dir =
     (case base of
        D_tab kvs \<Rightarrow>
          (let kvs = set_default ''thanatos'' kvs; kvs = set_default ''query'' kvs
           in case update_section ''thanatos'' (\<lambda>d. set_port_field d ''login_ports'' (pt_login ports)) kvs of
                Inl e \<Rightarrow> Inl e
              | Inr kvs \<Rightarrow>
                  (case update_section ''thanatos'' (\<lambda>d. set_port_field d ''char_ports'' (pt_char ports)) kvs of
                     Inl e \<Rightarrow> Inl e
                   | Inr kvs \<Rightarrow>
                       (case update_section ''thanatos'' (\<lambda>d. set_field d ''server_name'' (D_str server_name)) kvs of
                          Inl e \<Rightarrow> Inl e
                        | Inr kvs \<Rightarrow>
                            (case update_section ''query'' (\<lambda>d. set_port_field d ''ports'' (pt_query ports)) kvs of
                               Inl e \<Rightarrow> Inl e
                             | Inr kvs \<Rightarrow> Inr (walk dir (D_tab kvs))))))
      | _ \<Rightarrow> Inl PyAttributeError)"

section \<open>State\<close>

type_synonym server_block = "ServerInstance option list"

record orchestrator =
  o_block_size :: nat
  o_blocks :: "server_block list"
  o_reserved :: "int set"
  o_shutdown :: bool
  o_base_cfg :: "doc option"
  o_port_triples :: "PortTriple list option"
  o_exited :: "nat set"
  o_next_proc :: nat

definition new_orchestrator :: "nat \<Rightarrow> orchestrator" where
  "new_orchestrator block_size =
     \<lparr>o_block_size = block_size, o_blocks = [], o_reserved = {}, o_shutdown = False, o_base_cfg = None,
      o_port_triples = None, o_exited = {}, o_next_proc = 0\<rparr>"

definition instances :: "orchestrator \<Rightarrow> ServerInstance list" where
  "instances o1 = List.map_filter id (concat (o_blocks o1))"

text \<open>
  What one start sees of the world: the processes that have exited since, the ports that listen when
  the reservations are recomputed and when a triple is picked, the base configuration as it is loaded
  at its first use and again for the triples, and whether writing the configuration and starting
  the process work.
\<close>

record start_env =
  sn_exits :: "nat set"
  sn_up :: "int \<Rightarrow> bool"
  sn_up2 :: "int \<Rightarrow> bool"
  sn_load :: "py_error + doc"
  sn_load2 :: "py_error + doc"
  sn_write :: "py_error option"
  sn_spawns :: bool

section \<open>Operations\<close>

definition load_base :: "start_env \<Rightarrow> orchestrator \<Rightarrow> (py_error + doc) \<times> orchestrator" where
  "load_base e o1 =
     (case o_base_cfg o1 of
        Some d \<Rightarrow> (Inr d, o1)
      | None \<Rightarrow> (case sn_load e of Inl er \<Rightarrow> (Inl er, o1) | Inr d \<Rightarrow> (Inr d, o1\<lparr>o_base_cfg := Some d\<rparr>)))"

definition load_port_triples :: "start_env \<Rightarrow> orchestrator \<Rightarrow> (py_error + PortTriple list) \<times> orchestrator" where
  "load_port_triples e o1 =
     (case o_port_triples o1 of
        Some ts \<Rightarrow> (Inr ts, o1)
      | None \<Rightarrow>
          (case sn_load2 e of
             Inl er \<Rightarrow> (Inl er, o1)
           | Inr d \<Rightarrow>
               (case extract_port_triples d of
                  Inl er \<Rightarrow> (Inl er, o1) | Inr ts \<Rightarrow> (Inr ts, o1\<lparr>o_port_triples := Some ts\<rparr>))))"

fun find_free_block :: "nat \<Rightarrow> server_block list \<Rightarrow> nat option" where
  "find_free_block b [] = None"
| "find_free_block b (blk # blks) = (if None \<in> set blk then Some b else find_free_block (b + 1) blks)"

definition find_first_block_with_free_slot :: "orchestrator \<Rightarrow> nat option" where
  "find_first_block_with_free_slot o1 = find_free_block 0 (o_blocks o1)"

definition ensure_block :: "nat \<Rightarrow> orchestrator \<Rightarrow> orchestrator" where
  "ensure_block b o1 =
     o1\<lparr>o_blocks := o_blocks o1 @ replicate (b + 1 - length (o_blocks o1)) (replicate (o_block_size o1) None)\<rparr>"

text \<open>Every block has \<open>block_size\<close> slots, so the first test of \<open>free_slot\<close> never fails.\<close>

definition free_slot :: "orchestrator \<Rightarrow> nat \<Rightarrow> nat option" where
  "free_slot o1 b =
     List.find (\<lambda>s. s < length (o_blocks o1 ! b) \<and> o_blocks o1 ! b ! s = None) [0..<o_block_size o1]"

definition allocate_slot :: "int option \<Rightarrow> orchestrator \<Rightarrow> (py_error + nat \<times> nat) \<times> orchestrator" where
  "allocate_slot preferred o1 =
     (case preferred of
        Some p \<Rightarrow>
          if p < 0 then (Inl PyValueError, o1)
          else
            (let o1 = ensure_block (nat p) o1
             in case free_slot o1 (nat p) of
                  Some s \<Rightarrow> (Inr (nat p, s), o1) | None \<Rightarrow> (Inl PyValueError, o1))
      | None \<Rightarrow>
          (case (case find_first_block_with_free_slot o1 of
                   Some b \<Rightarrow> map_option (\<lambda>s. (b, s)) (free_slot o1 b) | None \<Rightarrow> None) of
             Some bs \<Rightarrow> (Inr bs, o1)
           | None \<Rightarrow>
               (let o1 = o1\<lparr>o_blocks := o_blocks o1 @ [replicate (o_block_size o1) None]\<rparr>
                in (Inr (length (o_blocks o1) - 1, 0), o1))))"

definition recompute_reserved_ports :: "(int \<Rightarrow> bool) \<Rightarrow> orchestrator \<Rightarrow> orchestrator" where
  "recompute_reserved_ports up o1 =
     o1\<lparr>o_reserved := set (concat (map (\<lambda>i. as_list (in_ports i))
        (filter (\<lambda>i. proc_running (o_exited o1) i \<or> ports_listening up i) (instances o1))))\<rparr>"

fun pick_triple :: "(int \<Rightarrow> bool) \<Rightarrow> int set \<Rightarrow> PortTriple list \<Rightarrow> PortTriple option" where
  "pick_triple up reserved [] = None"
| "pick_triple up reserved (t # ts) =
     (if list_ex (\<lambda>p. p \<in> reserved) (as_list t) then pick_triple up reserved ts
      else if list_all (\<lambda>p. \<not> up p) (as_list t) then Some t
      else pick_triple up reserved ts)"

definition pick_first_available_triple ::
  "start_env \<Rightarrow> int set option \<Rightarrow> orchestrator \<Rightarrow> (py_error + PortTriple) \<times> orchestrator" where
  "pick_first_available_triple e extra o1 =
     (let o1 = recompute_reserved_ports (sn_up e) o1;
          reserved = o_reserved o1 \<union> (case extra of Some x \<Rightarrow> x | None \<Rightarrow> {})
      in case load_port_triples e o1 of
           (Inl er, o1) \<Rightarrow> (Inl er, o1)
         | (Inr ts, o1) \<Rightarrow>
             (case pick_triple (sn_up2 e) reserved ts of
                Some t \<Rightarrow> (Inr t, o1) | None \<Rightarrow> (Inl PyRuntimeError, o1)))"

definition server_name_for :: "nat \<Rightarrow> nat \<Rightarrow> PortTriple \<Rightarrow> string" where
  "server_name_for b s t =
     ''Thanatos-b'' @ to_string b @ ''-s'' @ to_string s @ ''-i'' @ to_string (pt_config_index t)"

definition instance_dir :: "nat \<Rightarrow> nat \<Rightarrow> string" where
  "instance_dir b s = ''block'' @ to_string b @ ''/srv'' @ to_string s"

definition put_instance :: "nat \<Rightarrow> nat \<Rightarrow> ServerInstance option \<Rightarrow> orchestrator \<Rightarrow> orchestrator" where
  "put_instance b s i o1 = o1\<lparr>o_blocks := (o_blocks o1)[b := (o_blocks o1 ! b)[s := i]]\<rparr>"

text \<open>
  The ports taken so far in a batch are a set shared with the caller; it is returned updated. The
  wait for the ports of the new process to listen has no effect on the state.
\<close>

definition start_server ::
  "start_env \<Rightarrow> int option \<Rightarrow> int set option \<Rightarrow> orchestrator
    \<Rightarrow> (py_error + ServerInstance) \<times> int set option \<times> orchestrator" where
  "start_server e preferred extra o1 =
     (let o1 = o1\<lparr>o_exited := o_exited o1 \<union> (sn_exits e \<inter> {..<o_next_proc o1})\<rparr>
      in case load_base e o1 of
           (Inl er, o1) \<Rightarrow> (Inl er, extra, o1)
         | (Inr base, o1) \<Rightarrow>
             (case pick_first_available_triple e extra o1 of
                (Inl er, o1) \<Rightarrow> (Inl er, extra, o1)
              | (Inr ports, o1) \<Rightarrow>
                  (case allocate_slot preferred o1 of
                     (Inl er, o1) \<Rightarrow> (Inl er, extra, o1)
                   | (Inr (b, s), o1) \<Rightarrow>
                       (let extra = map_option (\<lambda>x. x \<union> set (as_list ports)) extra;
                            o1 = o1\<lparr>o_reserved := o_reserved o1 \<union> set (as_list ports)\<rparr>;
                            name = server_name_for b s ports;
                            dir = instance_dir b s
                        in case instance_config base ports name dir of
                             Inl er \<Rightarrow> (Inl er, extra, o1)
                           | Inr cfg \<Rightarrow>
                               (case sn_write e of
                                  Some er \<Rightarrow> (Inl er, extra, o1)
                                | None \<Rightarrow>
                                    if \<not> sn_spawns e then (Inl PyFileError, extra, o1)
                                    else
                                      (let inst = \<lparr>in_block = b, in_slot = s, in_proc = o_next_proc o1, in_ports = ports,
                                                   in_name = name, in_config_path = dir @ ''/thanatos.toml''\<rparr>;
                                           o1 = o1\<lparr>o_next_proc := o_next_proc o1 + 1\<rparr>
                                       in (Inr inst, extra, put_instance b s (Some inst) o1)))))))"

text \<open>Stopping: the process may or may not have exited when the calls return.\<close>

definition stop_server :: "nat set \<Rightarrow> (int \<Rightarrow> bool) \<Rightarrow> int \<Rightarrow> int \<Rightarrow> orchestrator \<Rightarrow> (py_error + unit) \<times> orchestrator" where
  "stop_server exits up b s o1 =
     (if b < 0 \<or> b \<ge> int (length (o_blocks o1)) then (Inl PyValueError, o1)
      else if s < 0 \<or> s \<ge> int (o_block_size o1) then (Inl PyValueError, o1)
      else case o_blocks o1 ! nat b ! nat s of
             None \<Rightarrow> (Inl PyValueError, o1)
           | Some inst \<Rightarrow>
               (let o1 = o1\<lparr>o_exited := o_exited o1 \<union> (exits \<inter> {..<o_next_proc o1})\<rparr>;
                    o1 = put_instance (nat b) (nat s) None o1
                in (Inr (), recompute_reserved_ports up o1)))"

definition get_counts :: "nat set \<Rightarrow> (int \<Rightarrow> bool) \<Rightarrow> orchestrator \<Rightarrow> nat \<times> nat" where
  "get_counts exited up o1 =
     (length (filter (\<lambda>i. get_status exited up i = ONLINE) (instances o1)), length (instances o1))"

definition list_blocks :: "(int \<Rightarrow> bool) \<Rightarrow> orchestrator \<Rightarrow> server_block list \<times> orchestrator" where
  "list_blocks up o1 = (let o1 = recompute_reserved_ports up o1 in (o_blocks o1, o1))"

definition free_slots :: "orchestrator \<Rightarrow> nat \<Rightarrow> nat" where
  "free_slots o1 b =
     length (filter (\<lambda>s. s < length (o_blocks o1 ! b) \<and> o_blocks o1 ! b ! s = None) [0..<o_block_size o1])"

section \<open>What a start does to the blocks\<close>

lemma load_base_frame:
  "o_blocks (snd (load_base e x)) = o_blocks x" "o_block_size (snd (load_base e x)) = o_block_size x"
  "o_exited (snd (load_base e x)) = o_exited x" "o_next_proc (snd (load_base e x)) = o_next_proc x"
  by (simp_all add: load_base_def split: option.split sum.split)

lemma pick_frame:
  "o_blocks (snd (pick_first_available_triple e ex x)) = o_blocks x"
  "o_block_size (snd (pick_first_available_triple e ex x)) = o_block_size x"
  "o_exited (snd (pick_first_available_triple e ex x)) = o_exited x"
  "o_next_proc (snd (pick_first_available_triple e ex x)) = o_next_proc x"
  by (simp_all add: pick_first_available_triple_def load_port_triples_def recompute_reserved_ports_def Let_def
      split: option.split sum.split prod.split)

lemma allocate_frame:
  "o_block_size (snd (allocate_slot p x)) = o_block_size x" "o_exited (snd (allocate_slot p x)) = o_exited x"
  "o_next_proc (snd (allocate_slot p x)) = o_next_proc x"
  by (simp_all add: allocate_slot_def ensure_block_def Let_def split: option.split)

lemmas start_frames = load_base_frame pick_frame allocate_frame

lemma pick_triple_free:
  assumes "pick_triple up r ts = Some t"
  shows "t \<in> set ts" and "set (as_list t) \<inter> r = {}" and "list_all (\<lambda>p. \<not> up p) (as_list t)"
  using assms by (induction ts) (auto simp: list_ex_iff split: if_splits)

lemma pick_result:
  assumes "pick_first_available_triple e ex x = (Inr t, y)"
  shows "set (as_list t) \<inter> o_reserved (recompute_reserved_ports (sn_up e) x) = {}"
    and "list_all (\<lambda>p. \<not> sn_up2 e p) (as_list t)"
    and "\<And>r. ex = Some r \<Longrightarrow> set (as_list t) \<inter> r = {}"
  using assms pick_triple_free
  by (fastforce simp: pick_first_available_triple_def Let_def split: prod.splits sum.splits option.splits)+

definition extended :: "orchestrator \<Rightarrow> orchestrator \<Rightarrow> bool" where
  "extended x y \<longleftrightarrow> (\<exists>n. o_blocks y = o_blocks x @ replicate n (replicate (o_block_size x) None))"

definition shaped :: "orchestrator \<Rightarrow> bool" where
  "shaped x \<longleftrightarrow> 0 < o_block_size x \<and> (\<forall>b \<in> set (o_blocks x). length b = o_block_size x)"

lemma extended_same [simp]: "o_blocks y = o_blocks x \<Longrightarrow> extended x y"
  by (auto simp: extended_def intro: exI [of _ 0])

lemma extended_shaped: "extended x y \<Longrightarrow> shaped x \<Longrightarrow> o_block_size y = o_block_size x \<Longrightarrow> shaped y"
  by (auto simp: extended_def shaped_def)

lemma in_instances: "i \<in> set (instances x) \<longleftrightarrow> (\<exists>b \<in> set (o_blocks x). Some i \<in> set b)"
  by (auto simp: instances_def List.map_filter_def intro: rev_image_eqI)

lemma extended_instances: "extended x y \<Longrightarrow> set (instances y) = set (instances x)"
  by (auto simp: extended_def in_instances)

lemma free_slot_Some:
  assumes "free_slot x b = Some s"
  shows "s < o_block_size x" and "s < length (o_blocks x ! b)" and "o_blocks x ! b ! s = None"
  using assms by (auto simp: free_slot_def find_Some_iff)

lemma find_free_block_Some:
  "find_free_block k bs = Some b \<Longrightarrow> k \<le> b \<and> b < k + length bs \<and> None \<in> set (bs ! (b - k))"
  by (induction k bs rule: find_free_block.induct) (auto simp: nth_Cons' split: if_splits)

lemma allocate_extended: "extended x (snd (allocate_slot p x))"
  by (auto simp: allocate_slot_def ensure_block_def extended_def Let_def split: option.split
      intro: exI [of _ "Suc 0"] exI [of _ 0])

lemma allocate_Some:
  assumes "allocate_slot p x = (Inr (b, s), y)" and "p = None \<Longrightarrow> shaped x"
  shows "b < length (o_blocks y)" and "s < o_block_size y" and "s < length (o_blocks y ! b)"
    and "o_blocks y ! b ! s = None" and "\<And>q. p = Some q \<Longrightarrow> b = nat q"
proof -
  have "b < length (o_blocks y) \<and> s < o_block_size y \<and> s < length (o_blocks y ! b) \<and> o_blocks y ! b ! s = None
      \<and> (\<forall>q. p = Some q \<longrightarrow> b = nat q)"
  proof (cases p)
    case (Some q)
    then show ?thesis
      using assms(1) free_slot_Some [of "ensure_block (nat q) x" "nat q"]
      by (auto simp: allocate_slot_def Let_def ensure_block_def split: if_splits option.splits)
  next
    case None
    show ?thesis
    proof (cases "find_first_block_with_free_slot x")
      case (Some b')
      then show ?thesis
        using assms None find_free_block_Some [of 0 "o_blocks x" b'] free_slot_Some [of x b']
        by (auto simp: allocate_slot_def find_first_block_with_free_slot_def shaped_def nth_append
            split: option.splits prod.splits)
    qed (use assms None in \<open>auto simp: allocate_slot_def shaped_def\<close>)
  qed
  then show "b < length (o_blocks y)" "s < o_block_size y" "s < length (o_blocks y ! b)" "o_blocks y ! b ! s = None" "\<And>q. p = Some q \<Longrightarrow> b = nat q"
    by blast+
qed

text \<open>What a successful start has done.\<close>

definition observed :: "start_env \<Rightarrow> orchestrator \<Rightarrow> orchestrator" where
  "observed e x = x\<lparr>o_exited := o_exited x \<union> (sn_exits e \<inter> {..<o_next_proc x})\<rparr>"

definition kept :: "start_env \<Rightarrow> orchestrator \<Rightarrow> orchestrator \<Rightarrow> bool" where
  "kept e x z \<longleftrightarrow> o_block_size z = o_block_size x \<and> o_exited z = o_exited (observed e x) \<and> o_next_proc z = o_next_proc x"

text \<open>The states a start goes through, and what they have in common.\<close>

lemma start_stages:
  obtains r2 x2 r3 x3 r4 x4 where "load_base e (observed e x) = (r2, x2)"
    and "pick_first_available_triple e ex x2 = (r3, x3)" and "allocate_slot p x3 = (r4, x4)"
    and "o_blocks x2 = o_blocks x" and "o_blocks x3 = o_blocks x" and "extended x x4"
    and "kept e x x2" and "kept e x x3" and "kept e x x4"
proof -
  obtain r2 x2 where l: "load_base e (observed e x) = (r2, x2)" by fastforce
  obtain r3 x3 where k: "pick_first_available_triple e ex x2 = (r3, x3)" by fastforce
  obtain r4 x4 where a: "allocate_slot p x3 = (r4, x4)" by fastforce
  note f = load_base_frame [of e "observed e x", unfolded l snd_conv] pick_frame [of e ex x2, unfolded k snd_conv]
    allocate_frame [of p x3, unfolded a snd_conv]
  have "extended x3 x4" using allocate_extended [of x3 p] a by simp
  then have "extended x x4" using f by (simp add: extended_def observed_def)
  moreover have "kept e x x2" "kept e x x3" "kept e x x4" using f by (simp_all add: kept_def observed_def)
  moreover have "o_blocks x2 = o_blocks x" "o_blocks x3 = o_blocks x" using f by (simp_all add: observed_def)
  ultimately show ?thesis using that [OF l k a] by blast
qed

lemma start_server_ok:
  assumes "start_server e p ex x = (Inr i, ex', y)" and "p = None \<Longrightarrow> shaped x"
  shows "\<exists>z. extended x z \<and> o_block_size z = o_block_size x \<and> in_block i < length (o_blocks z) \<and> in_slot i < o_block_size x
      \<and> in_slot i < length (o_blocks z ! in_block i) \<and> o_blocks z ! in_block i ! in_slot i = None
      \<and> o_blocks y = (o_blocks z)[in_block i := (o_blocks z ! in_block i)[in_slot i := Some i]]"
    and "\<And>q. p = Some q \<Longrightarrow> in_block i = nat q"
    and "in_proc i = o_next_proc x" and "o_next_proc y = o_next_proc x + 1" and "o_block_size y = o_block_size x"
    and "o_exited y = o_exited (observed e x)"
    and "set (as_list (in_ports i)) \<inter> o_reserved (recompute_reserved_ports (sn_up e) (observed e x)) = {}"
    and "list_all (\<lambda>q. \<not> sn_up2 e q) (as_list (in_ports i))"
    and "\<And>r. ex = Some r \<Longrightarrow> set (as_list (in_ports i)) \<inter> r = {} \<and> ex' = Some (r \<union> set (as_list (in_ports i)))"
proof -
  obtain r2 x2 r3 x3 r4 x4 where st: "load_base e (observed e x) = (r2, x2)"
      "pick_first_available_triple e ex x2 = (r3, x3)" "allocate_slot p x3 = (r4, x4)"
    and bl: "o_blocks x2 = o_blocks x" "o_blocks x3 = o_blocks x" "extended x x4"
    and fr: "kept e x x2" "kept e x x3" "kept e x x4"
    by (rule start_stages [of e x ex p])
  note un = start_server_def Let_def st [unfolded observed_def]
  obtain base where r2: "r2 = Inr base" using assms(1) by (cases r2) (auto simp: un)
  obtain t where r3: "r3 = Inr t" using assms(1) r2 by (cases r3) (auto simp: un)
  obtain b s where r4: "r4 = Inr (b, s)" using assms(1) r2 r3 by (cases r4) (auto simp: un)
  have i: "i = \<lparr>in_block = b, in_slot = s, in_proc = o_next_proc x4, in_ports = t, in_name = server_name_for b s t,
           in_config_path = instance_dir b s @ ''/thanatos.toml''\<rparr>"
    and y: "y = put_instance b s (Some i) (x4\<lparr>o_reserved := o_reserved x4 \<union> set (as_list t), o_next_proc := o_next_proc x4 + 1\<rparr>)"
    and ex': "ex' = map_option (\<lambda>r. r \<union> set (as_list t)) ex"
    using assms(1) r2 r3 r4 by (auto simp: un split: sum.splits option.splits if_splits)
  have "shaped x3" if "p = None" using assms(2) [OF that] bl(2) fr by (simp add: shaped_def kept_def)
  note al = allocate_Some [OF st(3) [unfolded r4] this]
  note pk = pick_result [OF st(2) [unfolded r3]]
  have same: "o_reserved (recompute_reserved_ports (sn_up e) x2) = o_reserved (recompute_reserved_ports (sn_up e) (observed e x))"
    using bl(1) fr by (simp add: kept_def recompute_reserved_ports_def instances_def observed_def)
  show "\<exists>z. extended x z \<and> o_block_size z = o_block_size x \<and> in_block i < length (o_blocks z) \<and> in_slot i < o_block_size x
      \<and> in_slot i < length (o_blocks z ! in_block i) \<and> o_blocks z ! in_block i ! in_slot i = None
      \<and> o_blocks y = (o_blocks z)[in_block i := (o_blocks z ! in_block i)[in_slot i := Some i]]"
    by (rule exI [of _ x4]) (use al bl(3) fr in \<open>simp add: i y put_instance_def kept_def\<close>)
  show "\<And>q. p = Some q \<Longrightarrow> in_block i = nat q" using al(5) by (simp add: i)
  show "in_proc i = o_next_proc x" "o_next_proc y = o_next_proc x + 1" "o_block_size y = o_block_size x"
      "o_exited y = o_exited (observed e x)"
    using fr by (simp_all add: i y put_instance_def kept_def)
  show "set (as_list (in_ports i)) \<inter> o_reserved (recompute_reserved_ports (sn_up e) (observed e x)) = {}"
      "list_all (\<lambda>q. \<not> sn_up2 e q) (as_list (in_ports i))"
    using pk(1,2) same by (simp_all add: i)
  show "\<And>r. ex = Some r \<Longrightarrow> set (as_list (in_ports i)) \<inter> r = {} \<and> ex' = Some (r \<union> set (as_list (in_ports i)))"
    using pk(3) ex' by (simp add: i)
qed

lemma start_server_fails:
  assumes "start_server e p ex x = (Inl er, ex', y)"
  shows "extended x y" and "o_block_size y = o_block_size x" and "o_exited y = o_exited (observed e x)"
    and "o_next_proc y = o_next_proc x"
proof -
  obtain r2 x2 r3 x3 r4 x4 where st: "load_base e (observed e x) = (r2, x2)"
      "pick_first_available_triple e ex x2 = (r3, x3)" "allocate_slot p x3 = (r4, x4)"
    and bl: "o_blocks x2 = o_blocks x" "o_blocks x3 = o_blocks x" "extended x x4"
    and fr: "kept e x x2" "kept e x x3" "kept e x x4"
    by (rule start_stages [of e x ex p])
  note un = start_server_def Let_def st [unfolded observed_def]
  have "y \<in> {x2, x3, x4} \<or> (\<exists>r. y = x4\<lparr>o_reserved := r\<rparr>)"
    using assms by (cases r2; cases r3; cases r4) (auto simp: un split: sum.splits option.splits if_splits prod.splits)
  then show "extended x y" "o_block_size y = o_block_size x" "o_exited y = o_exited (observed e x)"
      "o_next_proc y = o_next_proc x"
    using bl fr by (auto simp: extended_def kept_def)
qed

section \<open>Blocks\<close>

lemma free_slots_update:
  assumes "b < length (o_blocks x)" and "s < o_block_size x" and "s < length (o_blocks x ! b)" and "o_blocks x ! b ! s = None"
    and "o_blocks y = (o_blocks x)[b := (o_blocks x ! b)[s := Some i]]" and "o_block_size y = o_block_size x"
  shows "free_slots x b = Suc (free_slots y b)"
proof -
  let ?free = "\<lambda>z. {s. s < length (o_blocks z ! b) \<and> o_blocks z ! b ! s = None} \<inter> set [0..<o_block_size x]"
  have "?free x = insert s (?free y)" and "s \<notin> ?free y"
    using assms(1-5) by (auto simp: nth_list_update)
  then have "card (?free x) = Suc (card (?free y))" by simp
  then show ?thesis by (simp add: free_slots_def distinct_length_filter assms(6))
qed

lemma start_fills_slot:
  assumes "start_server e (Some (int b)) ex x = (Inr i, ex', y)" and "b < length (o_blocks x)"
  shows "free_slots x b = Suc (free_slots y b)" and "in_block i = b"
proof -
  note ok = start_server_ok [OF assms(1)]
  obtain z where z: "extended x z" "o_block_size z = o_block_size x" "in_block i < length (o_blocks z)"
      "in_slot i < o_block_size x" "in_slot i < length (o_blocks z ! in_block i)" "o_blocks z ! in_block i ! in_slot i = None"
      "o_blocks y = (o_blocks z)[in_block i := (o_blocks z ! in_block i)[in_slot i := Some i]]"
    using ok(1) by blast
  show b: "in_block i = b" using ok(2) by simp
  have "free_slots z b = Suc (free_slots y b)"
    using free_slots_update [of b z "in_slot i" y i] z ok(5) b by simp
  moreover have "free_slots z b = free_slots x b"
    using z(1,2) assms(2) by (auto simp: extended_def free_slots_def nth_append)
  ultimately show "free_slots x b = Suc (free_slots y b)" by simp
qed

text \<open>
  \<open>start_block\<close> starts servers until its block is full or a start fails; the environment of each start is
  given by its number.
\<close>

function start_block_loop ::
  "(nat \<Rightarrow> start_env) \<Rightarrow> nat \<Rightarrow> nat \<Rightarrow> int set \<Rightarrow> ServerInstance list \<Rightarrow> orchestrator
    \<Rightarrow> (py_error + ServerInstance list) \<times> orchestrator" where
  "start_block_loop envs k p batch started x =
     (if p \<ge> length (o_blocks x) \<or> free_slots x p = 0 then (Inr started, x)
      else case start_server (envs k) (Some (int p)) (Some batch) x of
             (Inl er, batch', x) \<Rightarrow> (Inl er, x)
           | (Inr inst, batch', x) \<Rightarrow>
               start_block_loop envs (k + 1) p (case batch' of Some r \<Rightarrow> r | None \<Rightarrow> {}) (started @ [inst]) x)"
  by pat_completeness auto

termination
  by (relation "measure (\<lambda>(envs, k, p, batch, started, x). free_slots x p)")
     (auto dest!: start_fills_slot(1) [OF sym])

declare start_block_loop.simps [simp del]

definition start_block :: "(nat \<Rightarrow> start_env) \<Rightarrow> orchestrator \<Rightarrow> (py_error + ServerInstance list) \<times> orchestrator" where
  "start_block envs x =
     (let (preferred, x) =
            (case find_first_block_with_free_slot x of
               Some b \<Rightarrow> (b, x)
             | None \<Rightarrow> (length (o_blocks x), x\<lparr>o_blocks := o_blocks x @ [replicate (o_block_size x) None]\<rparr>))
      in start_block_loop envs 0 preferred {} [] x)"

text \<open>\<open>exits\<close> and \<open>ups\<close> are what is observed while slot after slot is stopped.\<close>

fun stop_slots ::
  "(nat \<Rightarrow> nat set) \<Rightarrow> (nat \<Rightarrow> int \<Rightarrow> bool) \<Rightarrow> nat \<Rightarrow> nat list \<Rightarrow> orchestrator \<Rightarrow> (py_error + unit) \<times> orchestrator" where
  "stop_slots exits ups b [] x = (Inr (), x)"
| "stop_slots exits ups b (s # ss) x =
     (if o_blocks x ! b ! s = None then stop_slots exits ups b ss x
      else case stop_server (exits s) (ups s) (int b) (int s) x of
             (Inl er, x) \<Rightarrow> (Inl er, x) | (Inr u, x) \<Rightarrow> stop_slots exits ups b ss x)"

definition stop_block ::
  "(nat \<Rightarrow> nat set) \<Rightarrow> (nat \<Rightarrow> int \<Rightarrow> bool) \<Rightarrow> int \<Rightarrow> orchestrator \<Rightarrow> (py_error + unit) \<times> orchestrator" where
  "stop_block exits ups b x =
     (if b < 0 \<or> b \<ge> int (length (o_blocks x)) then (Inl PyValueError, x)
      else stop_slots exits ups (nat b) [0..<o_block_size x] x)"

definition count_possible_blocks :: "start_env \<Rightarrow> orchestrator \<Rightarrow> (py_error + nat) \<times> orchestrator" where
  "count_possible_blocks e x =
     (case load_port_triples e x of
        (Inl er, x) \<Rightarrow> (Inl er, x)
      | (Inr ts, x) \<Rightarrow>
          (let x = recompute_reserved_ports (sn_up e) x;
               free = filter (\<lambda>t. list_all (\<lambda>p. p \<notin> o_reserved x) (as_list t)) ts
           in (Inr (length free div o_block_size x), x)))"

fun start_blocks ::
  "(nat \<Rightarrow> nat \<Rightarrow> start_env) \<Rightarrow> nat \<Rightarrow> ServerInstance list \<Rightarrow> orchestrator \<Rightarrow> (py_error + ServerInstance list) \<times> orchestrator" where
  "start_blocks envs 0 started x = (Inr started, x)"
| "start_blocks envs (Suc n) started x =
     (case start_block (envs n) x of
        (Inl er, x) \<Rightarrow> if er = PyRuntimeError then (Inr started, x) else (Inl er, x)
      | (Inr begun, x) \<Rightarrow> start_blocks envs n (started @ begun) x)"

definition start_n_blocks ::
  "start_env \<Rightarrow> (nat \<Rightarrow> nat \<Rightarrow> start_env) \<Rightarrow> int \<Rightarrow> orchestrator \<Rightarrow> (py_error + ServerInstance list) \<times> orchestrator" where
  "start_n_blocks e envs n x =
     (case count_possible_blocks e x of
        (Inl er, x) \<Rightarrow> (Inl er, x)
      | (Inr possible, x) \<Rightarrow> start_blocks envs (nat (min n (int possible))) [] x)"

text \<open>Everything is stopped at the end of the program, once; the slots are only cleared if a process was alive.\<close>

definition stop_all :: "nat set \<Rightarrow> (int \<Rightarrow> bool) \<Rightarrow> orchestrator \<Rightarrow> orchestrator" where
  "stop_all exits up x =
     (if o_shutdown x then x
      else
        (let x = x\<lparr>o_shutdown := True\<rparr>;
             procs = filter (proc_running (o_exited x)) (instances x)
         in if procs = [] then recompute_reserved_ports up x
            else (let x = x\<lparr>o_exited := o_exited x \<union> (exits \<inter> {..<o_next_proc x})\<rparr>;
                      x = x\<lparr>o_blocks := map (\<lambda>b. replicate (o_block_size x) None) (o_blocks x)\<rparr>
                  in recompute_reserved_ports up x)))"

section \<open>Running servers have their ports to themselves\<close>

datatype command =
    Start_server_command start_env
  | Stop_server_command "nat set" "int \<Rightarrow> bool" int int
  | Start_block_command "nat \<Rightarrow> start_env"
  | Stop_block_command "nat \<Rightarrow> nat set" "nat \<Rightarrow> int \<Rightarrow> bool" int
  | Start_n_blocks_command start_env "nat \<Rightarrow> nat \<Rightarrow> start_env" int
  | List_command "int \<Rightarrow> bool"
  | Exit_command "nat set" "int \<Rightarrow> bool"

datatype report = Failed py_error | Started "ServerInstance list" | Stopped_server | Listed "server_block list" | Exited

definition report_of :: "('a \<Rightarrow> report) \<Rightarrow> (py_error + 'a) \<times> orchestrator \<Rightarrow> orchestrator \<times> report list" where
  "report_of f r = (case r of (Inl er, x) \<Rightarrow> (x, [Failed er]) | (Inr a, x) \<Rightarrow> (x, [f a]))"

fun dispatch :: "orchestrator \<Rightarrow> command \<Rightarrow> orchestrator \<times> report list" where
  "dispatch x (Start_server_command e) =
     (let (r, ex, x) = start_server e None None x in report_of (\<lambda>i. Started [i]) (r, x))"
| "dispatch x (Stop_server_command exits up b s) = report_of (\<lambda>_. Stopped_server) (stop_server exits up b s x)"
| "dispatch x (Start_block_command envs) = report_of Started (start_block envs x)"
| "dispatch x (Stop_block_command exits ups b) = report_of (\<lambda>_. Stopped_server) (stop_block exits ups b x)"
| "dispatch x (Start_n_blocks_command e envs n) = report_of Started (start_n_blocks e envs n x)"
| "dispatch x (List_command up) = (let (bs, x) = list_blocks up x in (x, [Listed bs]))"
| "dispatch x (Exit_command exits up) = (stop_all exits up x, [Exited])"

text \<open>
  The invariant: processes are numbered in the order of their start, and two servers whose processes
  both run share no port.
\<close>

definition own_ports :: "orchestrator \<Rightarrow> bool" where
  "own_ports x \<longleftrightarrow> shaped x \<and> (\<forall>i \<in> set (instances x). in_proc i < o_next_proc x)
     \<and> (\<forall>i \<in> set (instances x). \<forall>j \<in> set (instances x). in_proc i \<noteq> in_proc j \<and> in_proc i \<notin> o_exited x \<and> in_proc j \<notin> o_exited x
          \<longrightarrow> set (as_list (in_ports i)) \<inter> set (as_list (in_ports j)) = {})"

text \<open>Forgetting servers, learning of exits and adding free blocks keep it.\<close>

lemma own_ports_fewer:
  assumes "own_ports x" and "shaped y" and "set (instances y) \<subseteq> set (instances x)" and "o_exited x \<subseteq> o_exited y"
    and "o_next_proc y = o_next_proc x"
  shows "own_ports y"
  using assms unfolding own_ports_def by (metis subset_iff)

lemma own_ports_start:
  assumes "own_ports x" and "start_server e p ex x = (r, ex', y)"
  shows "own_ports y" and "length (o_blocks x) \<le> length (o_blocks y)"
proof -
  have sh: "shaped x" using assms(1) by (simp add: own_ports_def)
  have more: "o_exited x \<subseteq> o_exited (observed e x)" by (auto simp: observed_def)
  show "own_ports y"
  proof (cases r)
    case (Inl er)
    note f = start_server_fails [OF assms(2) [unfolded Inl]]
    show ?thesis
      using own_ports_fewer [OF assms(1) extended_shaped [OF f(1) sh f(2)]] extended_instances [OF f(1)] f(3,4) more by simp
  next
    case (Inr i)
    note ok = start_server_ok [OF assms(2) [unfolded Inr] sh]
    obtain z where z: "extended x z" "o_block_size z = o_block_size x" "in_block i < length (o_blocks z)"
        "in_slot i < o_block_size x" "o_blocks y = (o_blocks z)[in_block i := (o_blocks z ! in_block i)[in_slot i := Some i]]"
      using ok(1) by blast
    have shz: "shaped z" by (rule extended_shaped [OF z(1) sh z(2)])
    have "set (o_blocks y) \<subseteq> insert ((o_blocks z ! in_block i)[in_slot i := Some i]) (set (o_blocks z))"
      unfolding z(5) by (rule set_update_subset_insert)
    moreover have "set ((o_blocks z ! in_block i)[in_slot i := Some i]) \<subseteq> insert (Some i) (set (o_blocks z ! in_block i))"
      by (rule set_update_subset_insert)
    moreover have "o_blocks z ! in_block i \<in> set (o_blocks z)" using z(3) by simp
    ultimately have inst: "set (instances y) \<subseteq> insert i (set (instances x))"
      unfolding extended_instances [OF z(1), symmetric] by (auto simp: in_instances subset_iff)
    have shy: "shaped y"
      using shz z(2,3,5) ok(5) by (auto simp: shaped_def dest!: set_update_subset_insert [THEN subsetD])
    have new: "set (as_list (in_ports i)) \<inter> set (as_list (in_ports j)) = {}"
      if "j \<in> set (instances x)" "in_proc j \<notin> o_exited y" for j
    proof -
      have "j \<in> set (instances (observed e x))" using that(1) by (simp add: instances_def observed_def)
      moreover have "proc_running (o_exited (observed e x)) j" using that(2) ok(6) by (simp add: proc_running_def)
      ultimately have "set (as_list (in_ports j)) \<subseteq> o_reserved (recompute_reserved_ports (sn_up e) (observed e x))"
        by (auto simp: recompute_reserved_ports_def)
      then show ?thesis using ok(7) by blast
    qed
    show ?thesis
      unfolding own_ports_def
    proof (intro conjI ballI impI shy)
      fix j assume "j \<in> set (instances y)"
      then have "j = i \<or> j \<in> set (instances x)" using inst by blast
      then show "in_proc j < o_next_proc y" using assms(1) ok(3,4) by (auto simp: own_ports_def)
    next
      fix j k assume j: "j \<in> set (instances y)" and k: "k \<in> set (instances y)"
        and a: "in_proc j \<noteq> in_proc k \<and> in_proc j \<notin> o_exited y \<and> in_proc k \<notin> o_exited y"
      have "in_proc j \<notin> o_exited x" "in_proc k \<notin> o_exited x" using a ok(6) more by auto
      then show "set (as_list (in_ports j)) \<inter> set (as_list (in_ports k)) = {}"
        using inst j k a new assms(1) unfolding own_ports_def by (metis Int_commute insertE subsetD)
    qed
  qed
  show "length (o_blocks x) \<le> length (o_blocks y)"
    using start_server_fails(1) [of e p ex x _ ex' y] start_server_ok(1) [of e p ex x _ ex' y] assms(2) sh
    by (cases r) (auto simp: extended_def)
qed

lemma own_ports_loop: "own_ports x \<Longrightarrow> own_ports (snd (start_block_loop envs k p batch started x))"
proof (induction envs k p batch started x rule: start_block_loop.induct)
  case (1 envs k p batch started x)
  obtain r b' y where s: "start_server (envs k) (Some (int p)) (Some batch) x = (r, b', y)" by (metis prod_cases3)
  note y = own_ports_start(1) [OF 1(2) s]
  show ?case
    using 1 s y by (subst start_block_loop.simps) (cases r; simp)
qed

lemma own_ports_same:
  "own_ports x \<Longrightarrow> extended x y \<Longrightarrow> o_block_size y = o_block_size x \<Longrightarrow> o_exited x \<subseteq> o_exited y \<Longrightarrow>
     o_next_proc y = o_next_proc x \<Longrightarrow> own_ports y"
  using own_ports_fewer [of x y] extended_shaped [of x y] extended_instances [of x y] by (simp add: own_ports_def)

lemma own_ports_block: "own_ports x \<Longrightarrow> own_ports (snd (start_block envs x))"
proof -
  assume x: "own_ports x"
  have "own_ports (x\<lparr>o_blocks := o_blocks x @ [replicate (o_block_size x) None]\<rparr>)"
    by (rule own_ports_same [OF x]) (auto simp: extended_def intro: exI [of _ "Suc 0"])
  then show ?thesis using x by (auto simp: start_block_def own_ports_loop split: option.split)
qed

lemma own_ports_blocks: "own_ports x \<Longrightarrow> own_ports (snd (start_blocks envs n started x))"
proof (induction envs n started x rule: start_blocks.induct)
  case (2 envs n started x)
  have "own_ports (snd (start_block (envs n) x))" by (rule own_ports_block [OF 2(2)])
  then show ?case using 2(1) by (auto split: prod.split sum.split)
qed simp

lemma recompute_frame [simp]:
  "o_blocks (recompute_reserved_ports up x) = o_blocks x" "o_block_size (recompute_reserved_ports up x) = o_block_size x"
  "o_exited (recompute_reserved_ports up x) = o_exited x" "o_next_proc (recompute_reserved_ports up x) = o_next_proc x"
  by (simp_all add: recompute_reserved_ports_def)

lemma own_ports_recompute [simp]: "own_ports (recompute_reserved_ports up x) = own_ports x"
  by (simp add: own_ports_def shaped_def instances_def)

lemma own_ports_count: "own_ports x \<Longrightarrow> own_ports (snd (count_possible_blocks e x))"
  by (auto simp: count_possible_blocks_def load_port_triples_def Let_def split: option.split sum.split)
     (simp_all add: own_ports_def shaped_def instances_def)

lemma own_ports_cleared:
  assumes "own_ports x"
  shows "own_ports (put_instance b s None (x\<lparr>o_exited := o_exited x \<union> ex\<rparr>))"
proof (rule own_ports_fewer [OF assms])
  let ?y = "put_instance b s None (x\<lparr>o_exited := o_exited x \<union> ex\<rparr>)"
  have sh: "shaped x" using assms by (simp add: own_ports_def)
  have sub: "set (o_blocks ?y) \<subseteq> insert ((o_blocks x ! b)[s := None]) (set (o_blocks x))"
    by (simp add: put_instance_def set_update_subset_insert)
  show "shaped ?y"
  proof (cases "b < length (o_blocks x)")
    case True
    then have "length (o_blocks x ! b) = o_block_size x" using sh by (simp add: shaped_def)
    then show ?thesis using sub sh by (auto simp: shaped_def put_instance_def)
  qed (use sh in \<open>simp add: shaped_def put_instance_def list_update_beyond\<close>)
  show "set (instances ?y) \<subseteq> set (instances x)"
  proof (cases "b < length (o_blocks x)")
    case True
    have "Some i \<in> set (o_blocks x ! b)" if "Some i \<in> set ((o_blocks x ! b)[s := None])" for i
      using set_update_subset_insert [of "o_blocks x ! b" s None] that by blast
    then show ?thesis
      using subsetD [OF sub] nth_mem [OF True] unfolding in_instances subset_eq by (metis insert_iff in_instances)
  qed (simp add: put_instance_def instances_def list_update_beyond)
qed (simp_all add: put_instance_def)

lemma own_ports_stop: "own_ports x \<Longrightarrow> own_ports (snd (stop_server ex up b s x))"
  by (simp add: stop_server_def Let_def own_ports_cleared split: option.split)

lemma own_ports_stop_slots: "own_ports x \<Longrightarrow> own_ports (snd (stop_slots exits ups b ss x))"
proof (induction exits ups b ss x rule: stop_slots.induct)
  case (2 exits ups b s ss x)
  have "own_ports (snd (stop_server (exits s) (ups s) (int b) (int s) x))" by (rule own_ports_stop [OF 2(3)])
  then show ?case using 2 by (auto split: prod.split sum.split)
qed simp

lemma own_ports_all: "own_ports x \<Longrightarrow> own_ports (stop_all ex up x)"
proof -
  assume x: "own_ports x"
  let ?y = "x\<lparr>o_shutdown := True, o_exited := o_exited x \<union> (ex \<inter> {..<o_next_proc x}),
      o_blocks := map (\<lambda>b. replicate (o_block_size x) None) (o_blocks x)\<rparr>"
  have "own_ports ?y"
    using x by (auto simp: own_ports_def shaped_def in_instances)
  moreover have "own_ports (x\<lparr>o_shutdown := True\<rparr>)" using x by (simp add: own_ports_def shaped_def instances_def)
  ultimately show ?thesis using x by (simp add: stop_all_def Let_def)
qed

lemma own_ports_dispatch: "own_ports x \<Longrightarrow> own_ports (fst (dispatch x c))"
proof (cases c)
  case (Start_server_command e)
  assume x: "own_ports x"
  obtain r b' y where s: "start_server e None None x = (r, b', y)" by (metis prod_cases3)
  then show ?thesis using own_ports_start(1) [OF x s] by (simp add: Start_server_command report_of_def split: sum.split)
next
  case (Start_n_blocks_command e envs n)
  assume "own_ports x"
  then have "own_ports (snd (count_possible_blocks e x))" by (rule own_ports_count)
  then show ?thesis
    using own_ports_blocks by (simp add: Start_n_blocks_command start_n_blocks_def report_of_def split_beta split: sum.split)
qed (auto simp: report_of_def split_beta own_ports_stop own_ports_block own_ports_stop_slots stop_block_def
      list_blocks_def own_ports_all Let_def split: sum.split)

interpretation orchestrating: invariant_machine dispatch own_ports
  by unfold_locales (rule own_ports_dispatch)

lemma own_ports_new: "0 < n \<Longrightarrow> own_ports (new_orchestrator n)"
  by (simp add: own_ports_def shaped_def new_orchestrator_def instances_def List.map_filter_def)

text \<open>
  Running servers never share a port. After any sequence of commands, whatever processes exit and
  whatever ports listen meanwhile, two servers of the orchestrator whose processes both run have
  disjoint triples of ports, even if the configuration repeats a port in several triples.
\<close>

theorem running_servers_own_their_ports:
  assumes "0 < n" and "x = fst (run dispatch (new_orchestrator n) cs)"
    and "i \<in> set (instances x)" and "j \<in> set (instances x)" and "in_proc i \<noteq> in_proc j"
    and "proc_running (o_exited x) i" and "proc_running (o_exited x) j"
  shows "set (as_list (in_ports i)) \<inter> set (as_list (in_ports j)) = {}"
proof -
  have "own_ports x" unfolding assms(2) by (rule orchestrating.inv_run [OF own_ports_new [OF assms(1)]])
  then show ?thesis using assms(3-7) by (simp add: own_ports_def proc_running_def)
qed

definition sample_base :: doc where
  "sample_base = D_tab
     [(''thanatos'', D_tab [(''login_ports'', D_arr [D_int 6900, D_int 6901]), (''char_ports'', D_arr [D_int 6121, D_int 6122])]),
      (''query'', D_tab [(''ports'', D_arr [D_int 24395, D_int 24396]), (''socket'', D_str ''/run/q.sock'')])]"

definition sample_start :: start_env where
  "sample_start =
     \<lparr>sn_exits = {}, sn_up = (\<lambda>p. False), sn_up2 = (\<lambda>p. False), sn_load = Inr sample_base, sn_load2 = Inr sample_base,
      sn_write = None, sn_spawns = True\<rparr>"

lemma two_servers:
  "map (\<lambda>i. (in_proc i, as_list (in_ports i))) (instances (fst (run dispatch (new_orchestrator 3)
      [Start_server_command sample_start, Start_server_command sample_start])))
    = [(0, [6900, 6121, 24395]), (1, [6901, 6122, 24396])]"
  "o_exited (fst (run dispatch (new_orchestrator 3) [Start_server_command sample_start, Start_server_command sample_start])) = {}"
  by code_simp+

lemma running_servers_own_their_ports_witness:
  "\<exists>(i :: ServerInstance) (j :: ServerInstance). in_proc i = 0 \<and> in_proc j = 1 \<and> as_list (in_ports i) = [6900, 6121, 24395]
     \<and> set (as_list (in_ports i)) \<inter> set (as_list (in_ports j)) = {}"
proof -
  define x where "x = fst (run dispatch (new_orchestrator 3) [Start_server_command sample_start, Start_server_command sample_start])"
  note two = two_servers [folded x_def]
  then obtain i j where ij: "instances x = [i, j]" "in_proc i = 0" "in_proc j = 1" "as_list (in_ports i) = [6900, 6121, 24395]"
    by (auto simp: map_eq_Cons_conv)
  then have "set (as_list (in_ports i)) \<inter> set (as_list (in_ports j)) = {}"
    using two(2) by (intro running_servers_own_their_ports [OF _ x_def]) (simp_all add: proc_running_def)
  then show ?thesis using ij by blast
qed

section \<open>A block is filled\<close>

definition apart :: "ServerInstance \<Rightarrow> ServerInstance \<Rightarrow> bool" where
  "apart i j \<longleftrightarrow> set (as_list (in_ports i)) \<inter> set (as_list (in_ports j)) = {}"

lemma block_loop_fills:
  assumes "start_block_loop envs k p batch started x = (Inr all, y)" and "p < length (o_blocks x)"
    and "batch = (\<Union>i \<in> set started. set (as_list (in_ports i)))" and "sorted_wrt apart started"
  shows "\<exists>begun. all = started @ begun \<and> length begun = free_slots x p \<and> (\<forall>i \<in> set begun. in_block i = p)
    \<and> sorted_wrt apart all \<and> free_slots y p = 0"
  using assms
proof (induction envs k p batch started x rule: start_block_loop.induct)
  case (1 envs k p batch started x)
  show ?case
  proof (cases "free_slots x p = 0")
    case True
    then show ?thesis using 1(2,5) by (subst (asm) start_block_loop.simps) simp
  next
    case False
    obtain r b' z where s: "start_server (envs k) (Some (int p)) (Some batch) x = (r, b', z)" by (metis prod_cases3)
    obtain i where r: "r = Inr i"
      using 1(2,3) False s by (subst (asm) start_block_loop.simps) (cases r; simp)
    note ok = start_server_ok [OF s [unfolded r]] and fill = start_fills_slot [OF s [unfolded r] 1(3)]
    have b': "b' = Some (batch \<union> set (as_list (in_ports i)))" and free: "set (as_list (in_ports i)) \<inter> batch = {}"
      using ok(9) [of batch] by simp_all
    have rest: "start_block_loop envs (k + 1) p (batch \<union> set (as_list (in_ports i))) (started @ [i]) z = (Inr all, y)"
      using 1(2,3) False s r b' by (subst (asm) start_block_loop.simps) simp
    have len: "p < length (o_blocks z)" using ok(1) 1(3) by (auto simp: extended_def)
    have ap: "sorted_wrt apart (started @ [i])"
      using 1(5) free 1(4) by (fastforce simp: sorted_wrt_append apart_def [of _ i])
    obtain begun where "all = (started @ [i]) @ begun" "length begun = free_slots z p" "\<forall>j \<in> set begun. in_block j = p"
        "sorted_wrt apart all" "free_slots y p = 0"
      using 1(1) [OF _ s [unfolded r, symmetric] refl refl] rest len ap 1(3,4) False b' by (auto simp: Un_ac)
    then show ?thesis using fill by (intro exI [of _ "i # begun"]) simp
  qed
qed

text \<open>
  C40: A block is filled or an error is reported. When \<open>start_block\<close> succeeds it has started one server for
  each free slot of the first block with a free slot, or of a new block, all of them in that block,
  which is full afterwards; no two of them share a port, whether or not their processes still run.
\<close>

theorem start_block_fills_block:
  assumes "start_block envs x = (Inr started, y)"
  shows "length started = (case find_first_block_with_free_slot x of Some b \<Rightarrow> free_slots x b | None \<Rightarrow> o_block_size x)
    \<and> (\<forall>i \<in> set started. in_block i = (case find_first_block_with_free_slot x of Some b \<Rightarrow> b | None \<Rightarrow> length (o_blocks x)))
    \<and> free_slots y (case find_first_block_with_free_slot x of Some b \<Rightarrow> b | None \<Rightarrow> length (o_blocks x)) = 0
    \<and> sorted_wrt apart started"
proof (cases "find_first_block_with_free_slot x")
  case None
  let ?x = "x\<lparr>o_blocks := o_blocks x @ [replicate (o_block_size x) None]\<rparr>"
  have "free_slots ?x (length (o_blocks x)) = o_block_size x" by (simp add: free_slots_def)
  then show ?thesis
    using assms block_loop_fills [of envs 0 "length (o_blocks x)" "{}" "[]" ?x started y] by (auto simp: start_block_def None)
next
  case (Some b)
  have "b < length (o_blocks x)"
    using find_free_block_Some [of 0 "o_blocks x" b] Some by (simp add: find_first_block_with_free_slot_def)
  then show ?thesis
    using assms block_loop_fills [of envs 0 b "{}" "[]" x started y] by (auto simp: start_block_def Some)
qed

lemma sample_block:
  "map (\<lambda>i. (in_block i, in_slot i)) (case fst (start_block (\<lambda>_. sample_start) (new_orchestrator 2)) of Inr s \<Rightarrow> s | Inl e \<Rightarrow> [])
    = [(0, 0), (0, 1)]"
  by code_simp

lemma start_block_fills_block_witness:
  "\<exists>started y. start_block (\<lambda>_. sample_start) (new_orchestrator 2) = (Inr started, y) \<and> length started = 2 \<and> sorted_wrt apart started"
proof -
  obtain r y where r: "start_block (\<lambda>_. sample_start) (new_orchestrator 2) = (r, y)" by fastforce
  then obtain started where s: "r = Inr started" using sample_block by (cases r) simp_all
  have "find_first_block_with_free_slot (new_orchestrator 2) = None"
    by (simp add: find_first_block_with_free_slot_def new_orchestrator_def)
  then show ?thesis using start_block_fills_block [OF r [unfolded s]] r s by (simp add: new_orchestrator_def)
qed

end
