(* ===== verification/Orchestrator_CLI.thy ===== *)
theory Orchestrator_CLI
  imports Orchestrator "HOL-Library.Sublist"
begin

text \<open>
  The command line of the orchestrator: \<open>interface/cli/main.py\<close> (the loop over input lines, the root of
  the repository), \<open>command_router.py\<close> with the texts it shows, the rows \<open>rich_ui.py\<close> puts into its table,
  and the adapters under \<open>infrastructure/\<close>: settings, processes, ports. Lines are strings of Latin-1
  characters. What the operating system does is given with each line: the process handles, the
  ports, the file system, the \<open>ss\<close> program. Colours, frames and the line history are left out.
\<close>

section \<open>Python's strings\<close>

text \<open>\<open>str.isspace\<close> for one character, \<open>strip\<close> and \<open>split\<close> without arguments.\<close>

definition py_space :: "char \<Rightarrow> bool" where
  "py_space c \<longleftrightarrow> (let n = (of_char c :: nat) in n \<in> {9..13} \<or> n \<in> {28..32} \<or> n = 133 \<or> n = 160)"

definition py_strip :: "string \<Rightarrow> string" where
  "py_strip s = rev (dropWhile py_space (rev (dropWhile py_space s)))"

fun py_words :: "string \<Rightarrow> string \<Rightarrow> string list" where
  "py_words acc [] = (if acc = [] then [] else [acc])"
| "py_words acc (c # s) =
     (if py_space c then (if acc = [] then [] else [acc]) @ py_words [] s else py_words (acc @ [c]) s)"

definition py_split :: "string \<Rightarrow> string list" where
  "py_split s = py_words [] s"

text \<open>
  \<open>int(s)\<close>: white space around, a sign, decimal digits with single underscores between them; anything
  else is a \<open>ValueError\<close>. (Recent versions of Python also refuse more than 4300 digits.)
\<close>

fun py_digits :: "bool \<Rightarrow> nat \<Rightarrow> string \<Rightarrow> nat option" where
  "py_digits prev acc [] = (if prev then Some acc else None)"
| "py_digits prev acc (c # s) =
     (if is_digit c then py_digits True (acc * 10 + (of_char c - 48)) s
      else if c = CHR ''_'' \<and> prev then py_digits False acc s
      else None)"

definition py_int :: "string \<Rightarrow> py_error + int" where
  "py_int s =
     (let s = py_strip s;
          (neg, ds) = (case s of [] \<Rightarrow> (False, [])
                       | c # t \<Rightarrow> if c = CHR ''-'' then (True, t) else if c = CHR ''+'' then (False, t) else (False, s))
      in case py_digits False 0 ds of None \<Rightarrow> Inl PyValueError | Some n \<Rightarrow> Inr (if neg then - int n else int n))"

definition int_str :: "int \<Rightarrow> string" where
  "int_str i = (if i < 0 then CHR ''-'' # to_string (nat (- i)) else to_string (nat i))"

section \<open>The router\<close>

datatype tone = Success | Failure | Warning

datatype shown =
    Message string tone
  | Help_panel
  | Screen_cleared
  | Start_banner
  | Server_table nat nat "string list list"

text \<open>
  What a line finds in the world, for whichever command it turns out to be. Messages go through
  \<open>console.print\<close> of the library rich, which reads them as markup and raises a \<open>MarkupError\<close> for a closing tag
  without its opening tag: \<open>cl_renders\<close> says which texts it accepts. Only two messages can contain such
  a tag, as they repeat what was typed: the one for an unknown command, and the one with
  the text \<open>cl_error\<close> of the exception a command raised; all others are fixed words and numbers.
\<close>

record cli_env =
  cl_start :: start_env
  cl_block :: "nat \<Rightarrow> start_env"
  cl_blocks :: "nat \<Rightarrow> nat \<Rightarrow> start_env"
  cl_exits :: "nat set"
  cl_up :: "int \<Rightarrow> bool"
  cl_slot_exits :: "nat \<Rightarrow> nat set"
  cl_slot_up :: "nat \<Rightarrow> int \<Rightarrow> bool"
  cl_pid :: "nat \<Rightarrow> nat"
  cl_elapsed :: "nat \<Rightarrow> int"
  cl_renders :: "string \<Rightarrow> bool"
  cl_error :: string

definition started_text :: "ServerInstance \<Rightarrow> string" where
  "started_text i =
     ''Started block='' @ to_string (in_block i) @ '' slot='' @ to_string (in_slot i) @ '' | login='' @ int_str (pt_login (in_ports i))
       @ '' char='' @ int_str (pt_char (in_ports i)) @ '' query='' @ int_str (pt_query (in_ports i)) @ '' | name='' @ in_name i"

definition status_label :: "ServerStatus \<Rightarrow> string" where
  "status_label s =
     (case s of ONLINE \<Rightarrow> ''ACTIVE'' | STARTING \<Rightarrow> ''STARTING'' | STOPPING \<Rightarrow> ''STOPPING'' | OFFLINE \<Rightarrow> ''OFFLINE'' | ERROR \<Rightarrow> ''ERROR'')"

definition status_cell :: "string \<Rightarrow> string" where
  "status_cell label =
     (let width = 18 - 2; safe = py_strip label;
          safe = (if length safe > width then take width safe else safe @ replicate (width - length safe) (CHR '' ''))
      in ''* '' @ safe)"

text \<open>One row for each server, in the order of blocks and slots; \<open>poll\<close> is what the handles say now.\<close>

definition server_row :: "nat set \<Rightarrow> cli_env \<Rightarrow> nat \<Rightarrow> nat \<Rightarrow> ServerInstance \<Rightarrow> string list" where
  "server_row gone e b s i =
     [to_string b, to_string s, to_string (cl_pid e (in_proc i)), status_cell (status_label (get_status gone (cl_up e) i)),
      int_str (pt_login (in_ports i)), int_str (pt_char (in_ports i)), int_str (pt_query (in_ports i)), in_name i,
      uptime gone i (cl_elapsed e (in_proc i))]"

definition server_rows :: "nat set \<Rightarrow> cli_env \<Rightarrow> server_block list \<Rightarrow> string list list" where
  "server_rows gone e bs =
     concat (map (\<lambda>(b, blk). List.map_filter (\<lambda>(s, i). map_option (server_row gone e b s) i) (enumerate 0 blk)) (enumerate 0 bs))"

text \<open>A command that fails raises; a command that works shows something and lets the loop go on.\<close>

definition perform ::
  "(report \<Rightarrow> shown list) \<Rightarrow> command \<Rightarrow> orchestrator \<Rightarrow> orchestrator \<times> shown list \<times> (py_error + bool)" where
  "perform f c x =
     (case dispatch x c of
        (x, [Failed er]) \<Rightarrow> (x, [], Inl er)
      | (x, rs) \<Rightarrow> (x, concat (map f rs), Inr False))"

fun started_of :: "report \<Rightarrow> ServerInstance list" where
  "started_of (Started is) = is"
| "started_of _ = []"

text \<open>What \<open>start_n_blocks\<close> shows itself: that fewer blocks are possible, and that the ports ran out on the way.\<close>

fun stops_short :: "(nat \<Rightarrow> nat \<Rightarrow> start_env) \<Rightarrow> nat \<Rightarrow> orchestrator \<Rightarrow> bool" where
  "stops_short envs 0 x = False"
| "stops_short envs (Suc n) x =
     (case start_block (envs n) x of (Inl er, x) \<Rightarrow> er = PyRuntimeError | (Inr begun, x) \<Rightarrow> stops_short envs n x)"

definition n_blocks_notes :: "cli_env \<Rightarrow> int \<Rightarrow> orchestrator \<Rightarrow> shown list" where
  "n_blocks_notes e n x =
     (case count_possible_blocks (cl_start e) x of
        (Inl er, x) \<Rightarrow> []
      | (Inr possible, x) \<Rightarrow>
          (if n > int possible
           then [Message (''Only '' @ to_string possible @ '' block(s) can be started with the currently available ports.'') Failure]
           else [])
          @ (if stops_short (cl_blocks e) (nat (min n (int possible))) x
             then [Message ''No available port triples found (all in use)'' Failure] else []))"

type_synonym routed = "orchestrator \<times> shown list \<times> (py_error + bool)"

definition with_int :: "string \<Rightarrow> (int \<Rightarrow> orchestrator \<Rightarrow> routed) \<Rightarrow> orchestrator \<Rightarrow> routed" where
  "with_int a k x = (case py_int a of Inl er \<Rightarrow> (x, [], Inl er) | Inr i \<Rightarrow> k i x)"

definition show_usage :: "string \<Rightarrow> orchestrator \<Rightarrow> routed" where
  "show_usage usage x = (x, [Message (''Usage: '' @ usage) Failure], Inr False)"

definition show_started :: "command \<Rightarrow> orchestrator \<Rightarrow> routed" where
  "show_started = perform (\<lambda>r. map (\<lambda>i. Message (started_text i) Success) (started_of r))"

definition route_list :: "cli_env \<Rightarrow> orchestrator \<Rightarrow> routed" where
  "route_list e x =
     (let (x, rs) = dispatch x (List_command (cl_up e));
          gone = o_exited x \<union> cl_exits e;
          (online, total) = get_counts gone (cl_up e) x
      in (x, (if total = 0 then [Message ''No Thanatos servers are currently running.'' Warning]
              else [Server_table online total (server_rows gone e (o_blocks x))]), Inr False))"

definition route_stop_server :: "cli_env \<Rightarrow> string list \<Rightarrow> orchestrator \<Rightarrow> routed" where
  "route_stop_server e args =
     (case args of
        [a1, a2] \<Rightarrow>
          with_int a1 (\<lambda>b. with_int a2 (\<lambda>s.
            perform (\<lambda>r. [Message (''Stopped block='' @ int_str b @ '' slot='' @ int_str s) Warning])
              (Stop_server_command (cl_exits e) (cl_up e) b s)))
      | _ \<Rightarrow> show_usage ''stop-server <block> <slot>'')"

definition route_stop_block :: "cli_env \<Rightarrow> string list \<Rightarrow> orchestrator \<Rightarrow> routed" where
  "route_stop_block e args =
     (case args of
        [a1] \<Rightarrow>
          with_int a1 (\<lambda>b. perform (\<lambda>r. [Message (''Stopped block='' @ int_str b) Warning])
            (Stop_block_command (cl_slot_exits e) (cl_slot_up e) b))
      | _ \<Rightarrow> show_usage ''stop-block <block>'')"

definition started_n_text :: "nat \<Rightarrow> int \<Rightarrow> string" where
  "started_n_text k n = ''Started '' @ to_string k @ '' server(s) across '' @ int_str n @ '' block(s)''"

definition route_start_n_blocks :: "cli_env \<Rightarrow> string list \<Rightarrow> orchestrator \<Rightarrow> routed" where
  "route_start_n_blocks e args =
     (case args of
        [a1] \<Rightarrow>
          with_int a1 (\<lambda>n x.
            (let notes = n_blocks_notes e n x;
                 (x, texts, r) = perform (\<lambda>r. [Message (started_n_text (length (started_of r)) n) Success])
                   (Start_n_blocks_command (cl_start e) (cl_blocks e) n) x
             in (x, notes @ texts, r)))
      | _ \<Rightarrow> show_usage ''start-n-blocks <n>'')"

definition unknown_command :: "string \<Rightarrow> string" where
  "unknown_command command =
     (''Unknown command: '' @ [CHR 0x27] @ command @ [CHR 0x27]
       @ ''. Type '' @ [CHR 0x27] @ ''help'' @ [CHR 0x27] @ '' for available commands.'')"

definition route :: "cli_env \<Rightarrow> string list \<Rightarrow> orchestrator \<Rightarrow> routed" where
  "route e argv x =
     (case argv of
        [] \<Rightarrow> (x, [], Inr False)
      | cmd # args \<Rightarrow>
          (let command = py_strip cmd in
           if command = ''help'' then (x, [Help_panel], Inr False)
           else if command = ''clear'' then (x, [Screen_cleared, Start_banner], Inr False)
           else if command = ''list'' then route_list e x
           else if command = ''start-server'' then show_started (Start_server_command (cl_start e)) x
           else if command = ''stop-server'' then route_stop_server e args x
           else if command = ''start-block'' then show_started (Start_block_command (cl_block e)) x
           else if command = ''stop-block'' then route_stop_block e args x
           else if command = ''start-n-blocks'' then route_start_n_blocks e args x
           else if command = ''exit'' then
             (let (x, rs) = dispatch x (Exit_command (cl_exits e) (cl_up e)) in (x, [], Inr True))
           else if cl_renders e (unknown_command command) then (x, [Message (unknown_command command) Failure], Inr False)
           else (x, [], Inl PyMarkupError)))"

section \<open>The loop\<close>

text \<open>
  A line, the end of the input (or an interrupt at the prompt), or a signal at the prompt, whose handler
  stops everything and then interrupts the input.
\<close>

datatype cli_event =
    Line string cli_env
  | Input_ends "nat set" "int \<Rightarrow> bool"
  | Signal_at_prompt "nat set" "int \<Rightarrow> bool" "nat set" "int \<Rightarrow> bool"

record cli =
  c_orch :: orchestrator
  c_running :: bool

definition leave :: "nat set \<Rightarrow> (int \<Rightarrow> bool) \<Rightarrow> cli \<Rightarrow> cli \<times> shown list" where
  "leave exits up c =
     (c\<lparr>c_orch := fst (dispatch (c_orch c) (Exit_command exits up)), c_running := False\<rparr>, [Message ''Exiting...'' Warning])"

text \<open>
  The loop catches what a command raises, but not what showing the error raises: that leaves the program, and
  everything is stopped on the way out.
\<close>

definition error_text :: "cli_env \<Rightarrow> py_error \<Rightarrow> string" where
  "error_text e er = (if er = PyValueError then ''Invalid argument: '' else ''Unexpected error: '') @ cl_error e"

fun cli_handle :: "cli \<Rightarrow> cli_event \<Rightarrow> cli \<times> shown list" where
  "cli_handle c (Input_ends exits up) = leave exits up c"
| "cli_handle c (Signal_at_prompt exits up exits2 up2) =
     leave exits2 up2 (c\<lparr>c_orch := fst (dispatch (c_orch c) (Exit_command exits up))\<rparr>)"
| "cli_handle c (Line raw e) =
     (let argv = py_split (py_strip raw) in
      if argv = [] then (c, [])
      else case route e argv (c_orch c) of
             (x, texts, Inr should_exit) \<Rightarrow>
               if should_exit then (c\<lparr>c_orch := x, c_running := False\<rparr>, texts @ [Message ''Exiting...'' Warning])
               else (c\<lparr>c_orch := x\<rparr>, texts)
           | (x, texts, Inl er) \<Rightarrow>
               if cl_renders e (error_text e er) then (c\<lparr>c_orch := x\<rparr>, texts @ [Message (error_text e er) Failure])
               else (c\<lparr>c_orch := fst (dispatch x (Exit_command (cl_exits e) (cl_up e))), c_running := False\<rparr>, texts))"

definition cli_step :: "cli \<Rightarrow> cli_event \<Rightarrow> cli \<times> shown list" where
  "cli_step c ev = (if \<not> c_running c then (c, []) else cli_handle c ev)"

definition new_cli :: "nat \<Rightarrow> cli" where
  "new_cli block_size = \<lparr>c_orch = new_orchestrator block_size, c_running = True\<rparr>"

lemma new_cli_orch: "c_orch (new_cli n) = new_orchestrator n" "c_running (new_cli n)"
  by (simp_all add: new_cli_def)

section \<open>Numbers and words are read back\<close>

lemma digit_no_space: "is_digit c \<Longrightarrow> \<not> py_space c"
  by (auto simp: is_digit_def py_space_def Let_def)

lemma py_digits_all:
  "list_all is_digit ds \<Longrightarrow> ds \<noteq> [] \<or> prev \<Longrightarrow> py_digits prev acc ds = Some (foldl (\<lambda>n c. n * 10 + (of_char c - 48)) acc ds)"
  by (induction ds arbitrary: prev acc) auto

lemma dropWhile_none: "\<forall>c \<in> set s. \<not> P c \<Longrightarrow> dropWhile P s = s"
  by (cases s) auto

lemma py_strip_word: "\<forall>c \<in> set w. \<not> py_space c \<Longrightarrow> py_strip w = w"
  by (simp add: py_strip_def dropWhile_none)

lemma to_string_word: "to_string n \<noteq> []" "c \<in> set (to_string n) \<Longrightarrow> is_digit c"
  using to_string_digits [of n] by (auto simp: list_all_iff)

lemma int_str_word: "int_str i \<noteq> []" "\<forall>c \<in> set (int_str i). \<not> py_space c"
  using to_string_word digit_no_space by (auto simp: int_str_def py_space_def Let_def)

lemma py_int_str: "py_int (int_str i) = Inr i"
proof -
  have d: "py_digits False 0 (to_string n) = Some n" for n
    using py_digits_all [of "to_string n" False 0] to_string_digits [of n] by (simp add: digits_value_def)
  have h: "\<exists>c cs. to_string n = c # cs \<and> c \<noteq> CHR ''-'' \<and> c \<noteq> CHR ''+''" for n
    using to_string_word(1) [of n] to_string_word(2) [of _ n] digit_not_space(2) by (cases "to_string n") auto
  note strip = py_strip_word [OF int_str_word(2), of i]
  show ?thesis
  proof (cases "i < 0")
    case True
    then have "int_str i = CHR ''-'' # to_string (nat (- i))" by (simp add: int_str_def)
    then show ?thesis using strip d [of "nat (- i)"] True by (simp add: py_int_def)
  next
    case False
    then have s: "int_str i = to_string (nat i)" by (simp add: int_str_def)
    obtain c cs where c: "to_string (nat i) = c # cs" "c \<noteq> CHR ''-''" "c \<noteq> CHR ''+''" using h by blast
    have "py_digits False 0 (c # cs) = Some (nat i)" using d [of "nat i"] by (simp only: c(1))
    then show ?thesis using strip c False by (simp add: py_int_def s del: py_digits.simps)
  qed
qed

lemma py_words_word:
  "\<forall>c \<in> set w. \<not> py_space c \<Longrightarrow> py_words acc (w @ s) = py_words (acc @ w) s"
  by (induction w arbitrary: acc) auto

lemma py_words_end: "\<forall>c \<in> set w. \<not> py_space c \<Longrightarrow> w \<noteq> [] \<Longrightarrow> py_words [] w = [w]"
  using py_words_word [of w "[]" "[]"] by simp

lemma py_words_gap: "list_all py_space g \<Longrightarrow> py_words [] (g @ s) = py_words [] s"
  by (induction g) auto

lemma py_words_more:
  assumes "\<forall>c \<in> set w. \<not> py_space c" and "w \<noteq> []"
  shows "py_words [] (w @ CHR '' '' # s) = w # py_words [] s"
  using py_words_word [OF assms(1), of "[]" "CHR '' '' # s"] assms(2) by (simp add: py_space_def)

lemma py_words_trailing: "list_all py_space g \<Longrightarrow> py_words acc (s @ g) = py_words acc s"
proof (induction s arbitrary: acc)
  case Nil
  then show ?case by (cases g) (auto simp: py_words_gap [of _ "[]", simplified])
qed auto

lemma py_words_strip: "py_words [] (py_strip s) = py_words [] s"
proof -
  have "s = takeWhile py_space s @ dropWhile py_space s" by simp
  then have a: "py_words [] s = py_words [] (dropWhile py_space s)"
    by (metis list_all_iff py_words_gap set_takeWhileD)
  let ?t = "dropWhile py_space s"
  have "?t = py_strip s @ rev (takeWhile py_space (rev ?t))"
    by (metis py_strip_def rev_append rev_rev_ident takeWhile_dropWhile_id)
  moreover have "list_all py_space (rev (takeWhile py_space (rev ?t)))"
    by (auto simp: list_all_iff dest: set_takeWhileD)
  ultimately have "py_words [] ?t = py_words [] (py_strip s)" by (metis py_words_trailing)
  then show ?thesis using a by simp
qed

section \<open>What is typed is what is done\<close>

datatype typed =
    T_start_server | T_stop_server int int | T_start_block | T_stop_block int | T_start_n_blocks int | T_list | T_exit

fun typed_words :: "typed \<Rightarrow> string list" where
  "typed_words T_start_server = [''start-server'']"
| "typed_words (T_stop_server b s) = [''stop-server'', int_str b, int_str s]"
| "typed_words T_start_block = [''start-block'']"
| "typed_words (T_stop_block b) = [''stop-block'', int_str b]"
| "typed_words (T_start_n_blocks n) = [''start-n-blocks'', int_str n]"
| "typed_words T_list = [''list'']"
| "typed_words T_exit = [''exit'']"

fun typed_command :: "cli_env \<Rightarrow> typed \<Rightarrow> command" where
  "typed_command e T_start_server = Start_server_command (cl_start e)"
| "typed_command e (T_stop_server b s) = Stop_server_command (cl_exits e) (cl_up e) b s"
| "typed_command e T_start_block = Start_block_command (cl_block e)"
| "typed_command e (T_stop_block b) = Stop_block_command (cl_slot_exits e) (cl_slot_up e) b"
| "typed_command e (T_start_n_blocks n) = Start_n_blocks_command (cl_start e) (cl_blocks e) n"
| "typed_command e T_list = List_command (cl_up e)"
| "typed_command e T_exit = Exit_command (cl_exits e) (cl_up e)"

text \<open>A line with the words of a command: gaps of white space before each word and after the last.\<close>

fun spaced :: "string list \<Rightarrow> string list \<Rightarrow> string" where
  "spaced (g # gs) (w # ws) = g @ w @ spaced gs ws"
| "spaced gs ws = concat gs"

definition gaps_ok :: "string list \<Rightarrow> nat \<Rightarrow> bool" where
  "gaps_ok gs n \<longleftrightarrow> length gs = n + 1 \<and> list_all (list_all py_space) gs \<and> list_all (\<lambda>g. g \<noteq> []) (butlast (tl gs))"

lemma fst_perform: "fst (perform f c x) = fst (dispatch x c)"
  by (simp add: perform_def split: prod.split list.split report.split)

lemmas route_parts = route_list_def route_stop_server_def route_stop_block_def route_start_n_blocks_def show_started_def
  show_usage_def with_int_def

lemma route_typed: "fst (route e (typed_words t) x) = fst (dispatch x (typed_command e t))"
  by (cases t) (simp_all add: route_def route_parts py_strip_word py_space_def py_int_str fst_perform split_beta Let_def
      del: dispatch.simps)

lemma py_words_next:
  assumes "\<forall>c \<in> set w. \<not> py_space c" and "w \<noteq> []" and "r = [] \<or> py_space (hd r)"
  shows "py_words [] (w @ r) = w # py_words [] r"
  using py_words_word [OF assms(1), of "[]" r] assms(2,3) by (cases r) auto

lemma words_spaced:
  assumes "list_all (\<lambda>w. w \<noteq> [] \<and> (\<forall>c \<in> set w. \<not> py_space c)) ws" and "gaps_ok gs (length ws)"
  shows "py_words [] (spaced gs ws) = ws"
  using assms
proof (induction ws arbitrary: gs)
  case Nil
  then obtain g where "gs = [g]" "list_all py_space g" by (auto simp: gaps_ok_def length_Suc_conv)
  then show ?case using py_words_gap [of g "[]"] by simp
next
  case (Cons w ws)
  then obtain g g' gs' where gs: "gs = g # g' # gs'" by (auto simp: gaps_ok_def length_Suc_conv)
  have g: "list_all py_space g" "list_all py_space g'" and ok: "gaps_ok (g' # gs') (length ws)" and n: "ws \<noteq> [] \<longrightarrow> g' \<noteq> []"
    using Cons.prems(2) unfolding gs by (cases gs'; auto simp: gaps_ok_def)+
  let ?r = "spaced (g' # gs') ws"
  have "?r = [] \<or> py_space (hd ?r)"
  proof (cases ws)
    case Nil
    then have "gs' = []" using ok by (simp add: gaps_ok_def)
    then show ?thesis using Nil g(2) by (cases g') simp_all
  next
    case (Cons v vs)
    then show ?thesis using n g(2) by (cases g') simp_all
  qed
  moreover have w: "\<forall>c \<in> set w. \<not> py_space c" "w \<noteq> []" using Cons.prems(1) by simp_all
  ultimately have "py_words [] (w @ ?r) = w # py_words [] ?r" by (intro py_words_next)
  also have "py_words [] ?r = ws" by (rule Cons.IH [OF _ ok]) (use Cons.prems(1) in simp)
  finally show ?case by (simp only: gs spaced.simps py_words_gap [OF g(1)])
qed

lemma command_names:
  "list_all (list_all (\<lambda>c. \<not> py_space c))
     [''start-server'', ''stop-server'', ''start-block'', ''stop-block'', ''start-n-blocks'', ''list'', ''exit'']"
  by code_simp

lemma typed_words_ok: "list_all (\<lambda>w. w \<noteq> [] \<and> (\<forall>c \<in> set w. \<not> py_space c)) (typed_words t)" "typed_words t \<noteq> []"
  using command_names int_str_word by (cases t; simp)+

text \<open>
  What is typed is what is done. However a command is spaced out on its line, and whatever integers it names,
  negative ones included, the loop performs exactly that operation of the service with those
  integers, as long as an error it may end with can be shown.
\<close>

theorem typed_command_is_performed:
  assumes "c_running c" and "gaps_ok gs (length (typed_words t))" and "\<forall>s. cl_renders e s"
  shows "c_orch (fst (cli_step c (Line (spaced gs (typed_words t)) e))) = fst (dispatch (c_orch c) (typed_command e t))"
proof -
  have "py_split (py_strip (spaced gs (typed_words t))) = typed_words t"
    by (simp add: py_split_def py_words_strip words_spaced [OF typed_words_ok(1) assms(2)])
  then show ?thesis
    using assms(1,3) typed_words_ok(2) by (simp add: cli_step_def Let_def flip: route_typed split: prod.split sum.split)
qed

definition sample_line :: cli_env where
  "sample_line =
     \<lparr>cl_start = sample_start, cl_block = (\<lambda>k. sample_start), cl_blocks = (\<lambda>n k. sample_start), cl_exits = {},
      cl_up = (\<lambda>p. False), cl_slot_exits = (\<lambda>s. {}), cl_slot_up = (\<lambda>s p. False), cl_pid = (\<lambda>k. k), cl_elapsed = (\<lambda>k. 0),
      cl_renders = (\<lambda>s. True), cl_error = ''Block not found''\<rparr>"

lemma typed_command_is_performed_witness:
  "c_orch (fst (cli_step (new_cli 3) (Line ''  stop-server -1   12 '' sample_line)))
     = fst (dispatch (new_orchestrator 3) (Stop_server_command {} (\<lambda>p. False) (-1) 12))"
proof -
  have line: "spaced [''  '', '' '', ''   '', '' ''] (typed_words (T_stop_server (-1) 12)) = ''  stop-server -1   12 ''"
    by (simp add: int_str_def to_string.simps)
  show ?thesis
    using typed_command_is_performed [of "new_cli 3" "[''  '', '' '', ''   '', '' '']" "T_stop_server (-1) 12" sample_line, unfolded line]
    by (simp add: new_cli_def gaps_ok_def py_space_def sample_line_def del: dispatch.simps)
qed

section \<open>Whatever is typed\<close>

text \<open>A line has the effect of at most one operation of the service.\<close>

definition one_step :: "orchestrator \<Rightarrow> orchestrator \<Rightarrow> bool" where
  "one_step x y \<longleftrightarrow> y = x \<or> (\<exists>cm. y = fst (dispatch x cm))"

lemma one_step_intros [simp]: "one_step x x" "one_step x (fst (dispatch x cm))" "one_step x (fst (perform f cm x))"
  by (auto simp: one_step_def fst_perform)

lemma parts_one_step:
  "one_step x (fst (route_list e x))" "one_step x (fst (show_started cm x))" "one_step x (fst (route_stop_server e args x))"
  "one_step x (fst (route_stop_block e args x))" "one_step x (fst (route_start_n_blocks e args x))"
  by (simp_all add: route_parts split_beta Let_def del: dispatch.simps split: list.split sum.split)

lemma route_one_step: "one_step x (fst (route e argv x))"
  by (cases argv) (simp_all add: route_def Let_def split_beta parts_one_step del: dispatch.simps)

lemma cli_own_ports: "own_ports (c_orch c) \<Longrightarrow> own_ports (c_orch (fst (cli_step c ev)))"
proof (cases ev)
  case (Line raw e)
  assume "own_ports (c_orch c)"
  then have "own_ports (fst (route e (py_split (py_strip raw)) (c_orch c)))"
    using route_one_step [of "c_orch c" e "py_split (py_strip raw)"] own_ports_dispatch by (auto simp: one_step_def)
  with \<open>own_ports (c_orch c)\<close> show ?thesis
    by (auto simp: Line cli_step_def Let_def own_ports_dispatch simp del: dispatch.simps split: prod.split sum.split)
qed (simp_all add: cli_step_def leave_def own_ports_dispatch del: dispatch.simps)

interpretation command_line: invariant_machine cli_step "\<lambda>c. own_ports (c_orch c)"
  by unfold_locales (rule cli_own_ports)

text \<open>
  C39: Running servers never share a port. Whatever lines are typed at the prompt, whatever processes exit
  and whatever ports listen meanwhile, two servers of the orchestrator whose processes both run
  have disjoint triples of ports, even if the configuration repeats a port in several triples.
\<close>

theorem typed_servers_own_their_ports:
  assumes "0 < n" and "x = c_orch (fst (run cli_step (new_cli n) evs))"
    and "i \<in> set (instances x)" and "j \<in> set (instances x)" and "in_proc i \<noteq> in_proc j"
    and "proc_running (o_exited x) i" and "proc_running (o_exited x) j"
  shows "set (as_list (in_ports i)) \<inter> set (as_list (in_ports j)) = {}"
proof -
  have "own_ports (c_orch (new_cli n))" using own_ports_new [OF assms(1)] by (simp add: new_cli_def)
  then have "own_ports x" unfolding assms(2) by (rule command_line.inv_run)
  then show ?thesis using assms(3-7) by (simp add: own_ports_def proc_running_def)
qed

lemma py_words_no_space: "\<forall>c \<in> set acc. \<not> py_space c \<Longrightarrow> w \<in> set (py_words acc s) \<Longrightarrow> \<forall>c \<in> set w. \<not> py_space c"
proof (induction acc s rule: py_words.induct)
  case (1 acc)
  then show ?case by (cases "acc = []") auto
next
  case (2 acc c s)
  show ?case
  proof (cases "py_space c")
    case True
    with 2(4) have "w = acc \<or> w \<in> set (py_words [] s)" by (cases "acc = []") auto
    then show ?thesis
    proof
      assume "w \<in> set (py_words [] s)"
      then show ?thesis by (rule 2(1) [OF True, rotated]) simp
    qed (use 2(3) in simp)
  next
    case False
    show ?thesis by (rule 2(2) [OF False]) (use 2(3,4) False in simp_all)
  qed
qed

lemma perform_goes_on: "snd (snd (perform f cm x)) = Inr b \<Longrightarrow> \<not> b"
  by (auto simp: perform_def split: prod.splits list.splits report.splits)

definition goes_on :: "routed \<Rightarrow> bool" where
  "goes_on r \<longleftrightarrow> snd (snd r) \<noteq> Inr True"

lemma parts_go_on:
  "goes_on (perform f cm x)" "goes_on (route_list e x)" "goes_on (show_started cm x)" "goes_on (route_stop_server e args x)"
  "goes_on (route_stop_block e args x)" "goes_on (route_start_n_blocks e args x)"
proof -
  show p: "goes_on (perform f cm x)" for f cm x using perform_goes_on by (auto simp: goes_on_def)
  show "goes_on (route_list e x)" "goes_on (show_started cm x)" "goes_on (route_stop_server e args x)"
      "goes_on (route_stop_block e args x)" "goes_on (route_start_n_blocks e args x)"
    using p by (simp_all add: route_parts split_beta Let_def goes_on_def del: dispatch.simps split: list.split sum.split)
qed

lemma route_exits: "goes_on (route e (cmd # args) x) \<longleftrightarrow> py_strip cmd \<noteq> ''exit''"
  using parts_go_on by (auto simp: route_def Let_def split_beta goes_on_def)

lemma typed_start:
  assumes "c_running c" and "\<forall>s. cl_renders e s" and "py_split (py_strip raw) = [''start-server'']"
  shows "fst (cli_step c (Line raw e)) = c\<lparr>c_orch := fst (dispatch (c_orch c) (Start_server_command (cl_start e)))\<rparr>"
proof -
  obtain x texts r where r: "route e [''start-server''] (c_orch c) = (x, texts, r)" by (metis prod_cases3)
  have "x = fst (dispatch (c_orch c) (Start_server_command (cl_start e)))"
    using route_typed [of e T_start_server "c_orch c"] r by simp
  moreover have "r \<noteq> Inr True"
    using route_exits [of e "''start-server''" "[]" "c_orch c"] r by (simp add: goes_on_def py_strip_def py_space_def)
  ultimately show ?thesis using assms r by (cases r) (simp_all add: cli_step_def del: dispatch.simps)
qed

lemma two_typed_servers:
  "c_orch (fst (run cli_step (new_cli 3) [Line ''start-server'' sample_line, Line '' start-server  '' sample_line]))
    = fst (run dispatch (new_orchestrator 3) [Start_server_command sample_start, Start_server_command sample_start])"
  by (simp add: run.simps(2) split_beta typed_start new_cli_def py_split_def py_strip_def py_space_def sample_line_def del: dispatch.simps)

lemma typed_servers_own_their_ports_witness:
  "\<exists>(i :: ServerInstance) (j :: ServerInstance). in_proc i = 0 \<and> in_proc j = 1 \<and> as_list (in_ports i) = [6900, 6121, 24395]
     \<and> set (as_list (in_ports i)) \<inter> set (as_list (in_ports j)) = {}"
proof -
  define x where "x = c_orch (fst (run cli_step (new_cli 3) [Line ''start-server'' sample_line, Line '' start-server  '' sample_line]))"
  note two = two_servers [folded two_typed_servers, folded x_def]
  obtain i j where ij: "instances x = [i, j]" "in_proc i = 0" "in_proc j = 1" "as_list (in_ports i) = [6900, 6121, 24395]"
    using two(1) by (auto simp: map_eq_Cons_conv simp del: run.simps)
  then have "set (as_list (in_ports i)) \<inter> set (as_list (in_ports j)) = {}"
    using two(2) by (intro typed_servers_own_their_ports [OF _ x_def]) (simp_all add: proc_running_def)
  then show ?thesis using ij by blast
qed

text \<open>
  As long as its messages can be shown, nothing typed ends the command line but \<open>exit\<close>: whatever a line says and
  whatever fails on the way, the prompt comes back, with the error shown.
\<close>

theorem only_exit_leaves:
  assumes "c_running c" and "\<forall>s. cl_renders e s"
  shows "c_running (fst (cli_step c (Line raw e))) \<longleftrightarrow> \<not> (\<exists>ws. py_split raw = ''exit'' # ws)"
proof (cases "py_split raw")
  case (Cons cmd args)
  have "py_strip cmd = cmd"
    using py_words_no_space [of "[]" cmd raw] Cons by (intro py_strip_word) (simp add: py_split_def)
  then show ?thesis
    using route_exits [of e cmd args "c_orch c"] assms Cons
    by (auto simp: cli_step_def goes_on_def py_split_def py_words_strip split: prod.split sum.split)
qed (simp add: cli_step_def py_split_def py_words_strip assms)

lemma only_exit_leaves_witness:
  "c_running (fst (cli_step (new_cli 3) (Line ''stop-server x 1'' sample_line)))"
  "\<not> c_running (fst (cli_step (new_cli 3) (Line '' exit now'' sample_line)))"
  using only_exit_leaves [of "new_cli 3" sample_line] by (simp_all add: new_cli_def py_split_def py_space_def sample_line_def)

text \<open>
  A typing mistake can stop every server. When a command is refused and the error, which repeats what was typed,
  cannot be shown as markup, the exception leaves the loop and all servers are stopped on the way
  out. Typing \<open>stop-block [/b]\<close> is enough.
\<close>

theorem unshown_error_stops_everything:
  assumes "c_running c" and "py_split raw = argv" and "argv \<noteq> []" and "route e argv (c_orch c) = (x, texts, Inl er)"
    and "\<not> cl_renders e (error_text e er)"
  shows "\<not> c_running (fst (cli_step c (Line raw e)))
    \<and> c_orch (fst (cli_step c (Line raw e))) = fst (dispatch x (Exit_command (cl_exits e) (cl_up e)))"
  using assms by (auto simp: cli_step_def py_split_def py_words_strip simp del: dispatch.simps)

definition misread_line :: cli_env where
  "misread_line = sample_line\<lparr>cl_renders := (\<lambda>s. \<not> sublist ''[/'' s),
     cl_error := ''invalid literal for int() with base 10: '' @ [CHR 0x27] @ ''[/b]'' @ [CHR 0x27]\<rparr>"

lemma unshown_error_stops_everything_witness:
  "\<not> c_running (fst (cli_step (new_cli 3) (Line ''stop-block [/b]'' misread_line)))"
proof -
  have r: "route misread_line [''stop-block'', ''[/b]''] (new_orchestrator 3) = (new_orchestrator 3, [], Inl PyValueError)"
    by (simp add: route_def route_stop_block_def with_int_def py_int_def py_strip_def py_space_def is_digit_def)
  have "sublist ''[/'' (error_text misread_line PyValueError)"
    unfolding sublist_def
    by (intro exI [of _ "''Invalid argument: invalid literal for int() with base 10: '' @ [CHR 0x27]"] exI [of _ "''b]'' @ [CHR 0x27]"])
       (simp add: error_text_def misread_line_def)
  then have "\<not> cl_renders misread_line (error_text misread_line PyValueError)" by (simp add: misread_line_def)
  from unshown_error_stops_everything [OF _ _ _ r [folded new_cli_orch(1)] this, of "''stop-block [/b]''"] show ?thesis
    by (simp add: py_split_def py_space_def new_cli_def)
qed

text \<open>
  The summary of \<open>start-n-blocks\<close> names the number of blocks that was asked for, not the number started: with ports for
  no whole block it still announces servers across that many blocks.
\<close>

theorem start_n_announces_request:
  assumes "start_n_blocks (cl_start e) (cl_blocks e) n x = (Inr begun, y)"
  shows "last (fst (snd (route_start_n_blocks e [int_str n] x))) = Message (started_n_text (length begun) n) Success"
  using assms by (simp add: route_start_n_blocks_def with_int_def py_int_str perform_def report_of_def Let_def)

lemma start_n_announces_request_witness:
  "last (fst (snd (route_start_n_blocks sample_line [int_str 5] (new_orchestrator 3)))) = Message (started_n_text 0 5) Success"
proof -
  have "fst (start_n_blocks sample_start (\<lambda>n k. sample_start) 5 (new_orchestrator 3)) = Inr []" by code_simp
  then show ?thesis
    using start_n_announces_request [of sample_line 5 "new_orchestrator 3" "[]"]
    by (cases "start_n_blocks sample_start (\<lambda>n k. sample_start) 5 (new_orchestrator 3)") (simp add: sample_line_def)
qed

end
