(* ===== verification/Orchestrator_System.thy ===== *)
theory Orchestrator_System
  imports Orchestrator_CLI Bootstrap
begin

text \<open>
  How the orchestrator is started and how it reaches the system: \<open>__main__.py\<close> and the start of \<open>interface/cli/main.py\<close>,
  \<open>infrastructure/system/app_settings_provider.py\<close>, \<open>process/subprocess_runner.py\<close> and \<open>ports/ss_port_checker.py\<close>. The
  parsed options, the environment variables, the file system and the outcomes of system calls are
  arguments.
\<close>

section \<open>Settings\<close>

record cli_args =
  ca_config :: "string option"
  ca_binary :: "string option"
  ca_delay :: "int option"
  ca_no_validate :: bool

text \<open>\<open>fe_resolve\<close> is \<open>Path(p).expanduser().resolve()\<close>; \<open>fe_which\<close> is where \<open>Thanatos\<close> is found on the search path.\<close>

record file_env =
  fe_env :: "string \<Rightarrow> string option"
  fe_cwd :: string
  fe_resolve :: "string \<Rightarrow> string"
  fe_exists :: "string \<Rightarrow> bool"
  fe_is_file :: "string \<Rightarrow> bool"
  fe_executable :: "string \<Rightarrow> bool"
  fe_posix :: bool
  fe_which :: "string option"

record app_settings =
  as_config_path :: string
  as_thanatos_bin :: string
  as_delay_ms :: int

datatype exit_reason = Invalid_delay string | Config_not_found string | Binary_not_found string | Binary_not_executable string

text \<open>\<open>a or b\<close> for strings that may be missing: the empty string counts as missing.\<close>

definition py_or :: "string option \<Rightarrow> string option \<Rightarrow> string option" where
  "py_or a b = (case a of Some (c # s) \<Rightarrow> a | _ \<Rightarrow> b)"

definition resolve_bin :: "file_env \<Rightarrow> string option \<Rightarrow> string \<Rightarrow> string" where
  "resolve_bin fe s default_bin =
     (case py_or s None of
        Some b \<Rightarrow> fe_resolve fe b
      | None \<Rightarrow>
          if fe_exists fe default_bin then fe_resolve fe default_bin
          else (case py_or (fe_which fe) None of Some w \<Rightarrow> fe_resolve fe w | None \<Rightarrow> fe_resolve fe default_bin))"

definition resolve_paths :: "file_env \<Rightarrow> string option \<Rightarrow> string option \<Rightarrow> string \<times> string" where
  "resolve_paths fe config_str bin_str =
     ((case py_or config_str None of
         Some c \<Rightarrow> fe_resolve fe c | None \<Rightarrow> fe_resolve fe (fe_cwd fe @ ''/config/thanatos.toml'')),
      resolve_bin fe bin_str (fe_cwd fe @ ''/Thanatos''))"

definition validate_paths :: "file_env \<Rightarrow> string \<Rightarrow> string \<Rightarrow> exit_reason option" where
  "validate_paths fe config bin =
     (if \<not> fe_exists fe config \<or> \<not> fe_is_file fe config then Some (Config_not_found config)
      else if \<not> fe_exists fe bin \<or> \<not> fe_is_file fe bin then Some (Binary_not_found bin)
      else if fe_posix fe \<and> \<not> fe_executable fe bin then Some (Binary_not_executable bin)
      else None)"

definition resolve_delay :: "file_env \<Rightarrow> int option \<Rightarrow> exit_reason + int" where
  "resolve_delay fe arg =
     (case arg of
        Some d \<Rightarrow> Inr d
      | None \<Rightarrow>
          (case fe_env fe ''THANATOS_DELAY_MS'' of
             None \<Rightarrow> Inr 250
           | Some s \<Rightarrow> (case py_int s of Inl er \<Rightarrow> Inl (Invalid_delay s) | Inr d \<Rightarrow> Inr d)))"

definition from_env_and_cli :: "cli_args \<Rightarrow> file_env \<Rightarrow> exit_reason + app_settings" where
  "from_env_and_cli a fe =
     (let config_str = py_or (ca_config a) (fe_env fe ''THANATOS_CONFIG'');
          bin_str = py_or (ca_binary a) (fe_env fe ''THANATOS_BIN'')
      in case resolve_delay fe (ca_delay a) of
           Inl er \<Rightarrow> Inl er
         | Inr delay \<Rightarrow>
             (let (config, bin) = resolve_paths fe config_str bin_str
              in case (if ca_no_validate a then None else validate_paths fe config bin) of
                   Some er \<Rightarrow> Inl er
                 | None \<Rightarrow> Inr \<lparr>as_config_path = config, as_thanatos_bin = bin, as_delay_ms = delay\<rparr>))"

definition export_to_env :: "app_settings \<Rightarrow> file_env \<Rightarrow> file_env" where
  "export_to_env s fe =
     fe\<lparr>fe_env := (fe_env fe)(''THANATOS_CONFIG'' := Some (as_config_path s), ''THANATOS_BIN'' := Some (as_thanatos_bin s),
        ''THANATOS_DELAY_MS'' := Some (int_str (as_delay_ms s)))\<rparr>"

text \<open>
  \<open>__main__.main\<close> resolves the settings and exports them, then \<open>main\<close> of the command line does the same again, with
  the same options.
\<close>

definition cli_main :: "cli_args \<Rightarrow> file_env \<Rightarrow> exit_reason + app_settings \<times> file_env" where
  "cli_main a fe =
     (case from_env_and_cli a fe of
        Inl er \<Rightarrow> Inl er
      | Inr s \<Rightarrow>
          (let fe = export_to_env s fe
           in case from_env_and_cli a fe of
                Inl er \<Rightarrow> Inl er
              | Inr s \<Rightarrow> Inr (s, export_to_env s fe)))"

section \<open>Directories\<close>

text \<open>A resolved path by its parts, the root first.\<close>

definition part_name :: "string list \<Rightarrow> string" where
  "part_name ps = (if length ps \<le> 1 then [] else last ps)"

definition parent :: "string list \<Rightarrow> string list" where
  "parent ps = (if length ps \<le> 1 then ps else butlast ps)"

fun common_parts :: "string list \<Rightarrow> string list \<Rightarrow> string list" where
  "common_parts (x # xs) (y # ys) = (if x = y then x # common_parts xs ys else [])"
| "common_parts _ _ = []"

definition infer_repo_root :: "string list \<Rightarrow> string list \<Rightarrow> string list \<Rightarrow> string list" where
  "infer_repo_root cwd cfg bin =
     (if part_name cfg = ''thanatos.toml'' \<and> part_name (parent cfg) = ''config'' then parent (parent cfg)
      else (let common = common_parts cfg bin in if common \<noteq> [] then common else cwd))"

definition runtime_dir :: "string list \<Rightarrow> string list" where
  "runtime_dir root = root @ [''.thanatos-runtime'']"

section \<open>Processes and ports\<close>

definition start_command :: "string \<Rightarrow> string \<Rightarrow> string list" where
  "start_command server_bin config_path = [server_bin, ''--config'', config_path]"

definition resolve_default_bin :: "file_env \<Rightarrow> string" where
  "resolve_default_bin fe =
     (case py_or (fe_env fe ''THANATOS_BIN'') None of
        Some b \<Rightarrow> fe_resolve fe b
      | None \<Rightarrow>
          (let default_bin = fe_resolve fe (fe_cwd fe @ ''/Thanatos'')
           in if fe_exists fe default_bin then default_bin
              else (case py_or (fe_which fe) None of Some w \<Rightarrow> fe_resolve fe w | None \<Rightarrow> default_bin)))"

text \<open>
  Ending a process group: whether the process is gone already, whether each signal can be delivered to the
  group or else to the process, and whether the process exits within the timeout.
\<close>

record stop_env =
  tp_gone :: bool
  tp_group_term :: bool
  tp_proc_term :: bool
  tp_exits_in_time :: bool
  tp_group_kill :: bool
  tp_proc_kill :: bool

datatype signal_sent = Group_term | Proc_term | Group_kill | Proc_kill

definition terminate_process_group :: "stop_env \<Rightarrow> signal_sent list" where
  "terminate_process_group e =
     (if tp_gone e then []
      else
        (case (if tp_group_term e then Some [Group_term] else if tp_proc_term e then Some [Proc_term] else None) of
           None \<Rightarrow> []
         | Some sent \<Rightarrow>
             if tp_exits_in_time e then sent
             else if tp_group_kill e then sent @ [Group_kill]
             else if tp_proc_kill e then sent @ [Proc_kill]
             else sent))"

text \<open>What looking at a port gives: whether \<open>ss\<close> is there, what it prints for TCP and UDP, whether a connection succeeds.\<close>

record port_probe =
  pp_tcp :: string
  pp_udp :: string
  pp_connects :: bool

definition is_port_listening :: "bool \<Rightarrow> (int \<Rightarrow> port_probe) \<Rightarrow> int \<Rightarrow> bool" where
  "is_port_listening ss_available probe port =
     (if ss_available then
        (if py_strip (pp_tcp (probe port)) \<noteq> [] then True else py_strip (pp_udp (probe port)) \<noteq> [])
      else pp_connects (probe port))"

definition are_ports_listening :: "bool \<Rightarrow> (int \<Rightarrow> port_probe) \<Rightarrow> int list \<Rightarrow> bool" where
  "are_ports_listening ss_available probe ps = list_all (is_port_listening ss_available probe) ps"

section \<open>What the start relies on\<close>

lemma ports_listening_probe:
  "ports_listening (is_port_listening ss probe) i = are_ports_listening ss probe (as_list (in_ports i))"
  by (simp add: ports_listening_def are_ports_listening_def)

text \<open>The server reads the configuration it was started with.\<close>

lemma started_with_its_config: "GetConfigPathFromArgs (start_command bin path) = path"
  by (simp add: start_command_def GetConfigPathFromArgs_def kConfigFlag_def)

text \<open>SIGKILL is only ever the second signal, and only for a process that outlived the timeout.\<close>

lemma kill_is_last_resort:
  assumes "Group_kill \<in> set (terminate_process_group e) \<or> Proc_kill \<in> set (terminate_process_group e)"
  shows "length (terminate_process_group e) = 2 \<and> hd (terminate_process_group e) \<in> {Group_term, Proc_term}
    \<and> \<not> tp_gone e \<and> \<not> tp_exits_in_time e"
  using assms by (auto simp: terminate_process_group_def split: if_splits option.splits)

lemma common_parts_prefix: "common_parts xs ys = longest_common_prefix xs ys"
  by (induction xs ys rule: common_parts.induct) auto

text \<open>The repository root holds the configuration file, wherever the binary is.\<close>

lemma repo_root_prefix:
  assumes "cfg \<noteq> []" and "bin \<noteq> []" and "hd cfg = hd bin"
  shows "prefix (infer_repo_root cwd cfg bin) cfg" and "infer_repo_root cwd cfg bin \<noteq> []"
proof -
  have c: "common_parts cfg bin \<noteq> []" using assms by (cases cfg; cases bin) auto
  have p: "prefix (parent ps) ps" for ps by (simp add: parent_def prefixeq_butlast)
  have "prefix (parent (parent cfg)) cfg" using p prefix_order.order_trans by blast
  then show "prefix (infer_repo_root cwd cfg bin) cfg"
    using c by (simp add: infer_repo_root_def Let_def common_parts_prefix longest_common_prefix_prefix1)
  have "parent ps \<noteq> []" if "ps \<noteq> []" for ps :: "string list" using that by (cases ps) (auto simp: parent_def)
  then show "infer_repo_root cwd cfg bin \<noteq> []" using assms(1) c by (simp add: infer_repo_root_def Let_def)
qed

lemma py_or_cases: "py_or x (Some p) = py_or x q \<or> py_or x (Some p) = Some p"
  by (auto simp: py_or_def split: option.split list.split)

lemma resolve_paths_range:
  "\<exists>p. fst (resolve_paths fe c b) = fe_resolve fe p" "\<exists>p. snd (resolve_paths fe c b) = fe_resolve fe p"
  by (auto simp: resolve_paths_def resolve_bin_def split: option.split)

text \<open>
  Resolving twice changes nothing. The settings are resolved, exported to the environment and resolved once
  more, with relative paths, defaults and search path in between; if resolving a resolved path gives
  it again, the command line runs with the settings that were validated first, and the environment
  exported is the same.
\<close>

theorem settings_stable:
  assumes "\<forall>p. fe_resolve fe (fe_resolve fe p) = fe_resolve fe p \<and> fe_resolve fe p \<noteq> []"
    and "from_env_and_cli a fe = Inr s"
  shows "cli_main a fe = Inr (s, export_to_env s fe)"
proof -
  let ?fe = "export_to_env s fe"
  have or_some: "py_or (Some p) b = Some p" if "p \<noteq> []" for p b using that by (cases p) (auto simp: py_or_def)
  have fe: "fe_resolve ?fe = fe_resolve fe" "fe_cwd ?fe = fe_cwd fe" "fe_exists ?fe = fe_exists fe" "fe_is_file ?fe = fe_is_file fe"
      "fe_executable ?fe = fe_executable fe" "fe_posix ?fe = fe_posix fe" "fe_which ?fe = fe_which fe"
      "fe_env ?fe ''THANATOS_CONFIG'' = Some (as_config_path s)" "fe_env ?fe ''THANATOS_BIN'' = Some (as_thanatos_bin s)"
      "fe_env ?fe ''THANATOS_DELAY_MS'' = Some (int_str (as_delay_ms s))"
    by (simp_all add: export_to_env_def)
  let ?cs = "py_or (ca_config a) (fe_env fe ''THANATOS_CONFIG'')" and ?bs = "py_or (ca_binary a) (fe_env fe ''THANATOS_BIN'')"
  have delay: "resolve_delay fe (ca_delay a) = Inr (as_delay_ms s)"
    and paths: "resolve_paths fe ?cs ?bs = (as_config_path s, as_thanatos_bin s)"
    and valid: "ca_no_validate a \<or> validate_paths fe (as_config_path s) (as_thanatos_bin s) = None"
    using assms(2) by (auto simp: from_env_and_cli_def Let_def split: sum.splits prod.splits option.splits if_splits)
  have r: "fe_resolve fe (as_config_path s) = as_config_path s" "fe_resolve fe (as_thanatos_bin s) = as_thanatos_bin s"
      "as_config_path s \<noteq> []" "as_thanatos_bin s \<noteq> []"
    using resolve_paths_range [of fe ?cs ?bs] paths assms(1) by (metis fst_conv snd_conv)+
  have delay': "resolve_delay ?fe (ca_delay a) = Inr (as_delay_ms s)"
    using delay by (simp add: resolve_delay_def fe py_int_str split: option.splits)
  have same: "resolve_paths ?fe = resolve_paths fe" by (simp add: fun_eq_iff resolve_paths_def resolve_bin_def fe split: option.split)
  have own: "fst (resolve_paths fe c b) = fst (resolve_paths fe c b')" "snd (resolve_paths fe b c) = snd (resolve_paths fe b' c)" for b b' c
    by (simp_all add: resolve_paths_def)
  have given: "fst (resolve_paths fe (Some p) b) = fe_resolve fe p" "snd (resolve_paths fe b (Some p)) = fe_resolve fe p" if "p \<noteq> []" for p b
    using or_some [OF that] by (simp_all add: resolve_paths_def resolve_bin_def)
  have "fst (resolve_paths fe (py_or (ca_config a) (Some (as_config_path s))) b) = as_config_path s" for b
    using py_or_cases [of "ca_config a" "as_config_path s" "fe_env fe ''THANATOS_CONFIG''"] own(1) [of ?cs b ?bs] paths given(1) r(1,3)
    by (elim disjE) simp_all
  moreover have "snd (resolve_paths fe b (py_or (ca_binary a) (Some (as_thanatos_bin s)))) = as_thanatos_bin s" for b
    using py_or_cases [of "ca_binary a" "as_thanatos_bin s" "fe_env fe ''THANATOS_BIN''"] own(2) [of b ?bs ?cs] paths given(2) r(2,4)
    by (elim disjE) simp_all
  ultimately have paths': "resolve_paths ?fe (py_or (ca_config a) (Some (as_config_path s))) (py_or (ca_binary a) (Some (as_thanatos_bin s)))
      = (as_config_path s, as_thanatos_bin s)"
    by (simp add: same prod_eq_iff)
  have "validate_paths ?fe = validate_paths fe" by (simp add: validate_paths_def fun_eq_iff fe)
  then have "from_env_and_cli a ?fe = Inr s"
    using valid delay' paths' by (auto simp: from_env_and_cli_def Let_def fe)
  moreover have "export_to_env s ?fe = ?fe" by (simp add: export_to_env_def)
  ultimately show ?thesis by (simp add: cli_main_def assms(2) Let_def)
qed

definition sample_files :: file_env where
  "sample_files =
     \<lparr>fe_env = (\<lambda>_. None), fe_cwd = ''/w'', fe_resolve = (\<lambda>p. if take 1 p = ''/'' then p else ''/w/'' @ p),
      fe_exists = (\<lambda>p. True), fe_is_file = (\<lambda>p. True), fe_executable = (\<lambda>p. True), fe_posix = True, fe_which = None\<rparr>"

lemma settings_stable_witness:
  "\<exists>s. cli_main \<lparr>ca_config = Some ''a.toml'', ca_binary = None, ca_delay = None, ca_no_validate = False\<rparr> sample_files
      = Inr (s, export_to_env s sample_files)
    \<and> as_config_path s = ''/w/a.toml'' \<and> as_thanatos_bin s = ''/w/Thanatos'' \<and> as_delay_ms s = 250"
proof -
  let ?a = "\<lparr>ca_config = Some ''a.toml'', ca_binary = None, ca_delay = None, ca_no_validate = False\<rparr>"
  let ?s = "\<lparr>as_config_path = ''/w/a.toml'', as_thanatos_bin = ''/w/Thanatos'', as_delay_ms = 250\<rparr>"
  have "from_env_and_cli ?a sample_files = Inr ?s"
    by (simp add: from_env_and_cli_def sample_files_def py_or_def resolve_delay_def resolve_paths_def resolve_bin_def validate_paths_def)
  moreover have "\<forall>p. fe_resolve sample_files (fe_resolve sample_files p) = fe_resolve sample_files p \<and> fe_resolve sample_files p \<noteq> []"
    by (auto simp: sample_files_def)
  ultimately have "cli_main ?a sample_files = Inr (?s, export_to_env ?s sample_files)" by (intro settings_stable)
  then show ?thesis by (intro exI [of _ ?s]) simp
qed

end
