(* ===== verification/Deployment.thy ===== *)
theory Deployment
  imports Orchestrator Bootstrap
begin

text \<open>
  The orchestrator and the server together: the configuration written for an instance, read by the
  server that is started with it. The two programs read and write TOML with different libraries;
  that the C++ library reads a file back as the document the Python library wrote is the
  hypothesis \<open>reads_as\<close>.
\<close>

section \<open>The document written for an instance\<close>

lemma map_of_dict_put: "map_of (dict_put k v kvs) = (map_of kvs)(k \<mapsto> v)"
proof -
  have "map_of (map (\<lambda>(k', d). if k' = k then (k', v) else (k', d)) kvs) k' =
      (if k' = k then map_option (\<lambda>_. v) (map_of kvs k) else map_of kvs k')" for k'
    by (induction kvs) auto
  moreover have "k \<in> fst ` set kvs \<longleftrightarrow> map_of kvs k \<noteq> None" by (simp add: map_of_eq_None_iff)
  ultimately show ?thesis by (auto simp: dict_put_def fun_eq_iff map_add_def split: option.split)
qed

lemma map_of_set_default:
  "map_of (set_default k kvs) = (case map_of kvs k of None \<Rightarrow> (map_of kvs)(k \<mapsto> D_tab []) | Some d \<Rightarrow> map_of kvs)"
proof -
  have "k \<in> fst ` set kvs \<longleftrightarrow> map_of kvs k \<noteq> None" by (simp add: map_of_eq_None_iff)
  then show ?thesis by (auto simp: set_default_def fun_eq_iff map_add_def split: option.split)
qed

text \<open>The entry of a table after \<open>walk\<close>, for an entry that is no string.\<close>

lemma walk_entry:
  assumes "map_of kvs k = Some d" and "\<And>s. d \<noteq> D_str s"
  shows "\<exists>kvs'. walk dir (D_tab kvs) = D_tab kvs' \<and> map_of kvs' k = Some (walk dir d)"
proof -
  let ?f = "\<lambda>k v. case v of D_str s \<Rightarrow> if k \<in> set singleton_keys then D_str (below dir (path_name s)) else v | _ \<Rightarrow> walk dir v"
  have "map_of (map (\<lambda>(k, v). (k, ?f k v)) kvs) k = map_option (?f k) (map_of kvs k)"
    by (induction kvs) (auto split: doc.split)
  moreover have "?f k d = walk dir d" using assms(2) by (cases d) auto
  ultimately show ?thesis using assms(1) by simp
qed

definition one_port :: "(string \<times> doc) list \<Rightarrow> string \<Rightarrow> string \<Rightarrow> int \<Rightarrow> bool" where
  "one_port kvs sec key p \<longleftrightarrow> (\<exists>s. map_of kvs sec = Some (D_tab s) \<and> map_of s key = Some (D_arr [D_int p]))"

lemma get_ports_nonempty:
  assumes "get_ports data sec key = Inr ls" and "ls \<noteq> []"
  obtains kvs s ds where "data = D_tab kvs" and "map_of kvs sec = Some (D_tab s)" and "map_of s key = Some (D_arr ds)"
proof (cases data)
  case (D_tab kvs)
  have "port_values (D_arr []) = Inr []" by (simp add: List.map_filter_simps)
  moreover obtain s where s: "map_of kvs sec = Some s"
    using assms calculation by (auto simp: D_tab get_ports_def split: option.splits)
  moreover obtain ks where "s = D_tab ks"
    using assms s by (cases s) (simp_all add: D_tab get_ports_def)
  moreover obtain v where v: "map_of ks key = Some v"
    using assms calculation by (auto simp: D_tab get_ports_def split: option.splits)
  moreover obtain ds where "v = D_arr ds"
    using assms calculation by (cases v) (simp_all add: D_tab get_ports_def)
  ultimately show ?thesis using that D_tab by blast
qed (use assms in \<open>simp_all add: get_ports_def\<close>)

lemma extracted_lists:
  assumes "extract_port_triples base = Inr ts" and "t \<in> set ts"
  obtains kvs th q ls cs qs where "base = D_tab kvs" and "map_of kvs ''thanatos'' = Some (D_tab th)"
    and "map_of kvs ''query'' = Some (D_tab q)" and "map_of th ''login_ports'' = Some (D_arr ls)"
    and "map_of th ''char_ports'' = Some (D_arr cs)" and "map_of q ''ports'' = Some (D_arr qs)"
proof -
  obtain ls cs qs where g: "get_ports base ''thanatos'' ''login_ports'' = Inr ls" "get_ports base ''thanatos'' ''char_ports'' = Inr cs"
      "get_ports base ''query'' ''ports'' = Inr qs"
      and t: "t \<in> (\<lambda>i. \<lparr>pt_config_index = i, pt_login = ls ! i, pt_char = cs ! i, pt_query = qs ! i\<rparr>)
          ` {..<min (min (length ls) (length cs)) (length qs)}"
    using assms by (auto simp: extract_port_triples_def Let_def lessThan_atLeast0 split: sum.splits)
  have ne: "ls \<noteq> []" "cs \<noteq> []" "qs \<noteq> []" using t by auto
  show ?thesis
    by (rule get_ports_nonempty [OF g(1) ne(1)], rule get_ports_nonempty [OF g(2) ne(2)], rule get_ports_nonempty [OF g(3) ne(3)])
       (rule that; auto)
qed

lemma instance_config_ports:
  assumes "extract_port_triples base = Inr ts" and "t \<in> set ts"
  shows "\<exists>kvs. instance_config base t name dir = Inr (D_tab kvs) \<and> one_port kvs ''thanatos'' ''login_ports'' (pt_login t)
    \<and> one_port kvs ''thanatos'' ''char_ports'' (pt_char t) \<and> one_port kvs ''query'' ''ports'' (pt_query t)"
proof -
  obtain kvs th q ls cs qs where b: "base = D_tab kvs" "map_of kvs ''thanatos'' = Some (D_tab th)"
      "map_of kvs ''query'' = Some (D_tab q)" "map_of th ''login_ports'' = Some (D_arr ls)"
      "map_of th ''char_ports'' = Some (D_arr cs)" "map_of q ''ports'' = Some (D_arr qs)"
    by (rule extracted_lists [OF assms])
  define th' where "th' = dict_put ''server_name'' (D_str name) (dict_put ''char_ports'' (D_arr [D_int (pt_char t)])
      (dict_put ''login_ports'' (D_arr [D_int (pt_login t)]) th))"
  define q' where "q' = dict_put ''ports'' (D_arr [D_int (pt_query t)]) q"
  obtain ks where ks: "instance_config base t name dir = Inr (walk dir (D_tab ks))"
      "map_of ks ''thanatos'' = Some (D_tab th')" "map_of ks ''query'' = Some (D_tab q')"
    using b by (simp add: instance_config_def update_section_def map_of_set_default map_of_dict_put th'_def q'_def Let_def)
  obtain ws where ws: "walk dir (D_tab ks) = D_tab ws" by simp
  have w: "map_of ws ''thanatos'' = Some (walk dir (D_tab th'))" "map_of ws ''query'' = Some (walk dir (D_tab q'))"
    using walk_entry [OF ks(2), of dir] walk_entry [OF ks(3), of dir] ws by auto
  have "map_of th' ''login_ports'' = Some (D_arr [D_int (pt_login t)])" "map_of th' ''char_ports'' = Some (D_arr [D_int (pt_char t)])"
      "map_of q' ''ports'' = Some (D_arr [D_int (pt_query t)])"
    by (simp_all add: th'_def q'_def map_of_dict_put)
  then have "one_port ws ''thanatos'' ''login_ports'' (pt_login t)" "one_port ws ''thanatos'' ''char_ports'' (pt_char t)"
      "one_port ws ''query'' ''ports'' (pt_query t)"
    using walk_entry [of th' _ _ dir] walk_entry [of q' _ _ dir] w by (fastforce simp: one_port_def)+
  then show ?thesis using ks(1) ws by auto
qed

section \<open>The document as the server reads it\<close>

inductive reads_as :: "'n toml_api \<Rightarrow> 'n \<Rightarrow> doc \<Rightarrow> bool" for A where
  reads_int: "value_i64 A n = Some i \<Longrightarrow> value_u64 A n = (if 0 \<le> i then Some (word_of_int i) else None) \<Longrightarrow>
     reads_as A n (D_int i)"
| reads_bool: "value_bool A n = Some b \<Longrightarrow> reads_as A n (D_bool b)"
| reads_str: "value_string A n = Some s \<Longrightarrow> reads_as A n (D_str s)"
| reads_arr: "as_array A n = Some ms \<Longrightarrow> list_all2 (reads_as A) ms ds \<Longrightarrow> reads_as A n (D_arr ds)"
| reads_tab: "as_table A n = Some m \<Longrightarrow>
     (\<forall>k d. map_of kvs k = Some d \<longrightarrow> (\<exists>c. node_at A m k = Some c \<and> reads_as A c d)) \<Longrightarrow>
     (\<forall>k. map_of kvs k = None \<longrightarrow> node_at A m k = None) \<Longrightarrow> reads_as A n (D_tab kvs)"

inductive_cases reads_intE: "reads_as A n (D_int i)"
inductive_cases reads_arrE: "reads_as A n (D_arr ds)"
inductive_cases reads_tabE: "reads_as A n (D_tab kvs)"

lemma reads_entry:
  assumes "reads_as A n (D_tab kvs)" and "map_of kvs k = Some d"
  obtains m c where "as_table A n = Some m" and "node_at A m k = Some c" and "reads_as A c d"
proof -
  from assms(1) obtain m where m: "as_table A n = Some m"
      "\<forall>k d. map_of kvs k = Some d \<longrightarrow> (\<exists>c. node_at A m k = Some c \<and> reads_as A c d)"
    by (rule reads_tabE)
  then show ?thesis using assms(2) that by blast
qed

lemma reads_port:
  assumes "reads_as A v (D_int p)" and "0 \<le> p" and "p \<le> 65535"
  shows "push_ports A [v] out = out @ [word_of_int p]"
proof -
  have "sint (word_of_int p :: u64) = p" using assms(2,3) by (simp add: signed_of_int signed_take_bit_int_eq_self)
  then show ?thesis using assms by (auto elim!: reads_intE simp: clamp_u16_def)
qed

lemma reads_one_port:
  assumes "reads_as A tbl (D_tab kvs)" and "as_table A tbl = Some tbl" and "one_port kvs sec key p" and "0 \<le> p" and "p \<le> 65535"
  obtains s where "section_of A tbl sec = Some s" and "\<And>out. get_ports_array A s key out = out @ [word_of_int p]"
proof -
  obtain th where th: "map_of kvs sec = Some (D_tab th)" "map_of th key = Some (D_arr [D_int p])"
    using assms(3) by (auto simp: one_port_def)
  obtain c where c: "node_at A tbl sec = Some c" "reads_as A c (D_tab th)"
    using reads_entry [OF assms(1) th(1)] assms(2) by auto
  obtain s a where s: "as_table A c = Some s" "node_at A s key = Some a" "reads_as A a (D_arr [D_int p])"
    by (rule reads_entry [OF c(2) th(2)])
  obtain v where v: "as_array A a = Some [v]" "reads_as A v (D_int p)"
    using s(3) by (auto elim!: reads_arrE simp: list_all2_Cons2)
  show ?thesis
    by (rule that [of s])
       (simp_all add: section_of_def c(1) s(1,2) get_ports_array_def v(1) reads_port [OF v(2) assms(4,5)] del: push_ports.simps)
qed

lemma ports_frame:
  "login_ports (read_app A sec cfg) = login_ports cfg" "char_ports (read_app A sec cfg) = char_ports cfg"
  "query_ports (read_app A sec cfg) = query_ports cfg" "query_ports (read_thanatos A sec cfg) = query_ports cfg"
  "login_ports (read_protocol A sec cfg) = login_ports cfg" "char_ports (read_protocol A sec cfg) = char_ports cfg"
  "query_ports (read_protocol A sec cfg) = query_ports cfg" "login_ports (read_query A sec cfg) = login_ports cfg"
  "char_ports (read_query A sec cfg) = char_ports cfg"
  by (simp_all add: read_app_def read_thanatos_def read_protocol_def read_query_def Let_def split: option.split)

text \<open>A document that is its own table satisfies the hypothesis.\<close>

lemma doc_reads_itself: "reads_as doc_api d d"
proof (induction d)
  case (D_arr ds)
  then show ?case by (intro reads_arr [of _ _ ds]) (simp_all add: doc_api_def list_all2_same)
next
  case (D_tab kvs)
  then show ?case
    by (intro reads_tab [of _ _ "D_tab kvs"]) (auto simp: doc_api_def dest!: map_of_SomeD)
qed (simp_all add: doc_api_def reads_int reads_bool reads_str)

text \<open>A configuration with one port of each kind.\<close>

lemma load_single_ports:
  assumes "reads_as A tbl (D_tab kvs)" and "as_table A tbl = Some tbl" and "parse path = Some tbl" and "ex path"
    and "one_port kvs ''thanatos'' ''login_ports'' l" and "one_port kvs ''thanatos'' ''char_ports'' c"
    and "one_port kvs ''query'' ''ports'' q" and "\<forall>p \<in> {l, c, q}. 0 \<le> p \<and> p \<le> 65535"
  shows "\<exists>cfg. LoadConfig A ex parse path = Inr cfg \<and> login_ports cfg = [word_of_int l]
    \<and> char_ports cfg = [word_of_int c] \<and> query_ports cfg = [word_of_int q]"
proof -
  obtain s1 where s1: "section_of A tbl ''thanatos'' = Some s1" "\<And>out. get_ports_array A s1 ''login_ports'' out = out @ [word_of_int l]"
    using reads_one_port [OF assms(1,2,5)] assms(8) by auto
  obtain s1' where s1': "section_of A tbl ''thanatos'' = Some s1'" "\<And>out. get_ports_array A s1' ''char_ports'' out = out @ [word_of_int c]"
    using reads_one_port [OF assms(1,2,6)] assms(8) by auto
  obtain s2 where s2: "section_of A tbl ''query'' = Some s2" "\<And>out. get_ports_array A s2 ''ports'' out = out @ [word_of_int q]"
    using reads_one_port [OF assms(1,2,7)] assms(8) by auto
  have t: "login_ports (read_thanatos A (Some s1) cfg) = login_ports cfg @ [word_of_int l]"
      "char_ports (read_thanatos A (Some s1) cfg) = char_ports cfg @ [word_of_int c]"
      "query_ports (read_query A (Some s2) cfg) = query_ports cfg @ [word_of_int q]" for cfg
    using s1 s1' s2 by (simp_all add: read_thanatos_def read_query_def Let_def)
  have "login_ports default_Config = []" "char_ports default_Config = []" "query_ports default_Config = []"
    by (simp_all add: default_Config_def)
  then show ?thesis
    using assms(3,4) s1(1) s2(1) by (simp add: LoadConfig_def Let_def ports_frame t)
qed

section \<open>The instance\<close>

text \<open>What the ports of a triple become when they are read.\<close>

lemma triple_reads_back:
  assumes "\<forall>p \<in> set (as_list t). 0 \<le> p \<and> p \<le> 65535"
  shows "map (\<lambda>w :: u16. int (unat w)) [word_of_int (pt_login t), word_of_int (pt_char t), word_of_int (pt_query t)] = as_list t"
  using assms by (simp add: as_list_def unsigned_of_int take_bit_int_eq_self)


lemma sample_triples:
  "extract_port_triples sample_base = Inr
     [\<lparr>pt_config_index = 0, pt_login = 6900, pt_char = 6121, pt_query = 24395\<rparr>,
      \<lparr>pt_config_index = 1, pt_login = 6901, pt_char = 6122, pt_query = 24396\<rparr>]"
  by code_simp


end
